(* ===== verification/Vdsp_Prelude.thy ===== *)
theory Vdsp_Prelude
  imports Main "HOL-Library.Word" "HOL-Library.Monad_Syntax"
begin

text \<open>
  Shared vocabulary of the development: the machine types of the code, the reading of a
  call as a partial state transformer (\<^const>\<open>None\<close> is a call that does not return
  normally: it dereferences a dead or null pointer, aborts, or blocks for ever), the
  total-correctness predicate \<open>returns\<close> with its rules, sums over the values of a finite map
  (the counting behind the reference counts), and the transition-system locale under which
  every reachable-state property is proved.
\<close>

unbundle bit_operations_syntax

section \<open>Machine types\<close>

type_synonym ptr = "64 word"
type_synonym size_t = "64 word"
type_synonym i32 = "32 word"
type_synonym u32 = "32 word"
type_synonym byte = "8 word"

named_theorems returns_simps \<open>unfolding rules of the total-correctness predicate\<close>
named_theorems state_defs \<open>definitions of the small state accessors\<close>

section \<open>Calls that return\<close>

definition returns :: "'a option \<Rightarrow> ('a \<Rightarrow> bool) \<Rightarrow> bool" where
  "returns m Q = (case m of None \<Rightarrow> False | Some x \<Rightarrow> Q x)"

lemma returns_Some [simp, returns_simps]: "returns (Some x) Q = Q x"
  by (simp add: returns_def)

lemma returns_None [simp, returns_simps]: "\<not> returns None Q"
  by (simp add: returns_def)

lemma returns_bind [simp, returns_simps]:
  "returns (Option.bind m f) Q = returns m (\<lambda>x. returns (f x) Q)"
  by (cases m) simp_all

lemma returns_if [returns_simps]:
  "returns (if b then m else n) Q = (if b then returns m Q else returns n Q)"
  by simp

lemma returns_iff: "returns m Q \<longleftrightarrow> (\<exists>x. m = Some x \<and> Q x)"
  by (cases m) simp_all

lemma returns_mono: "returns m P \<Longrightarrow> (\<And>x. m = Some x \<Longrightarrow> P x \<Longrightarrow> Q x) \<Longrightarrow> returns m Q"
  by (cases m) simp_all

lemma returnsE: "returns m Q \<Longrightarrow> (\<And>x. m = Some x \<Longrightarrow> Q x \<Longrightarrow> R) \<Longrightarrow> R"
  by (cases m) simp_all

lemma returns_conj: "returns m P \<Longrightarrow> returns m Q \<Longrightarrow> returns m (\<lambda>x. P x \<and> Q x)"
  by (cases m) simp_all

text \<open>The same for a call that may abort: \<open>ab\<close> says when that is tolerated.\<close>

definition returns_unless :: "bool \<Rightarrow> 'a option \<Rightarrow> ('a \<Rightarrow> bool) \<Rightarrow> bool" where
  "returns_unless ab m Q = (case m of None \<Rightarrow> ab | Some x \<Rightarrow> Q x)"

lemma returns_unless_Some [simp, returns_simps]: "returns_unless ab (Some x) Q = Q x"
  by (simp add: returns_unless_def)

lemma returns_unless_None [simp, returns_simps]: "returns_unless ab None Q = ab"
  by (simp add: returns_unless_def)

lemma returns_unless_bind [simp, returns_simps]:
  "returns_unless ab (Option.bind m f) Q = returns_unless ab m (\<lambda>x. returns_unless ab (f x) Q)"
  by (cases m) simp_all

lemma returns_unless_mono:
  "returns_unless ab m P \<Longrightarrow> (ab \<Longrightarrow> ab') \<Longrightarrow> (\<And>x. m = Some x \<Longrightarrow> P x \<Longrightarrow> Q x) \<Longrightarrow>
   returns_unless ab' m Q"
  by (cases m) simp_all

lemma returns_unless_returns: "returns m P \<Longrightarrow> (\<And>x. m = Some x \<Longrightarrow> P x \<Longrightarrow> Q x) \<Longrightarrow> returns_unless ab m Q"
  by (cases m) simp_all

lemma returns_unless_False [simp]: "returns_unless False m Q = returns m Q"
  by (cases m) simp_all

text \<open>Partial correctness: what holds of the result when the call returns.\<close>

definition always :: "'a option \<Rightarrow> ('a \<Rightarrow> bool) \<Rightarrow> bool" where
  "always m P \<longleftrightarrow> (\<forall>x. m = Some x \<longrightarrow> P x)"

lemma always_simps [simp]:
  "always (Some x) P = P x" "always None P"
  "always (Option.bind m f) P = always m (\<lambda>x. always (f x) P)"
  by (auto simp: always_def bind_eq_Some_conv)

lemma always_mono: "always m P \<Longrightarrow> (\<And>x. m = Some x \<Longrightarrow> P x \<Longrightarrow> Q x) \<Longrightarrow> always m Q"
  by (simp add: always_def)

lemma alwaysD: "always m P \<Longrightarrow> m = Some x \<Longrightarrow> P x"
  by (simp add: always_def)

lemma always_read: "(\<And>x. m = Some x \<Longrightarrow> P x) \<Longrightarrow> always m P"
  by (simp add: always_def)

lemma always_bindI:
  "always m Q \<Longrightarrow> (\<And>x. m = Some x \<Longrightarrow> Q x \<Longrightarrow> always (f x) P) \<Longrightarrow> always (Option.bind m f) P"
  by (auto simp: always_def bind_eq_Some_conv)

lemma always_readI: "(\<And>x. m = Some x \<Longrightarrow> always (f x) P) \<Longrightarrow> always (Option.bind m f) P"
  by (auto simp: always_def bind_eq_Some_conv)

section \<open>Sums over the values of a finite map\<close>

definition msum :: "('k \<rightharpoonup> 'v) \<Rightarrow> ('v \<Rightarrow> nat) \<Rightarrow> nat" where
  "msum m w = (\<Sum>k\<in>dom m. w (the (m k)))"

lemma msum_empty [simp]: "msum Map.empty w = 0"
  by (simp add: msum_def)

lemma msum_split:
  assumes "finite (dom m)" and "m k = Some u"
  shows "msum m w = w u + msum (m(k := None)) w"
proof -
  have "msum m w = w (the (m k)) + (\<Sum>j\<in>dom m - {k}. w (the (m j)))"
    unfolding msum_def using assms by (intro sum.remove) auto
  also have "(\<Sum>j\<in>dom m - {k}. w (the (m j))) = msum (m(k := None)) w"
    unfolding msum_def by (rule sum.cong) auto
  finally show ?thesis using assms(2) by simp
qed

lemma msum_del: "finite (dom m) \<Longrightarrow> m k = Some u \<Longrightarrow> msum (m(k := None)) w = msum m w - w u"
  using msum_split [of m k u w] by simp

lemma msum_del_none [simp]: "m k = None \<Longrightarrow> msum (m(k := None)) w = msum m w"
  by (simp add: fun_upd_idem)

lemma msum_ge: "finite (dom m) \<Longrightarrow> m k = Some u \<Longrightarrow> w u \<le> msum m w"
  using msum_split [of m k u w] by simp

lemma msum_new: "finite (dom m) \<Longrightarrow> m k = None \<Longrightarrow> msum (m(k \<mapsto> v)) w = w v + msum m w"
  using msum_split [of "m(k \<mapsto> v)" k v w] by (simp add: fun_upd_idem)

lemma msum_upd:
  "finite (dom m) \<Longrightarrow> m k = Some u \<Longrightarrow> msum (m(k \<mapsto> v)) w = (w v + msum m w) - w u"
  using msum_split [of "m(k \<mapsto> v)" k v w] msum_split [of m k u w] by simp

lemma msum_upd_same:
  "m k = Some u \<Longrightarrow> w v = w u \<Longrightarrow> msum (m(k \<mapsto> v)) w = msum m w"
  unfolding msum_def by (rule sum.cong) auto

lemma msum_zero_iff:
  "finite (dom m) \<Longrightarrow> msum m w = 0 \<longleftrightarrow> (\<forall>k u. m k = Some u \<longrightarrow> w u = 0)"
  unfolding msum_def by (auto simp: dom_def)

lemma msum_zeroD: "finite (dom m) \<Longrightarrow> msum m w = 0 \<Longrightarrow> m k = Some u \<Longrightarrow> w u = 0"
  by (simp add: msum_zero_iff)

lemma msum_pos: "finite (dom m) \<Longrightarrow> m k = Some u \<Longrightarrow> 0 < w u \<Longrightarrow> 0 < msum m w"
  using msum_ge [of m k u w] by simp

section \<open>Words\<close>

lemma unat_dec: "(c :: 64 word) \<noteq> 0 \<Longrightarrow> unat (c - 1) = unat c - 1"
  by (metis unat_minus_one)

lemma unat_inc: "unat (c :: 64 word) + 1 < 2 ^ 64 \<Longrightarrow> unat (c + 1) = unat c + 1"
  by (simp add: unat_word_ariths)

lemma unat_eq_one: "unat (c :: 64 word) = 1 \<longleftrightarrow> c = 1"
  by (metis unat_1 unsigned_word_eqI)

section \<open>Transition systems and their invariants\<close>

text \<open>
  Every reachable-state property of the development is an instance of this locale: a set of
  initial states, a step relation, and an invariant the provider proves for both.
\<close>

inductive reach :: "('s \<Rightarrow> bool) \<Rightarrow> ('s \<Rightarrow> 's \<Rightarrow> bool) \<Rightarrow> 's \<Rightarrow> bool"
  for init step where
  reach_init: "init s \<Longrightarrow> reach init step s"
| reach_step: "reach init step s \<Longrightarrow> step s t \<Longrightarrow> reach init step t"

locale transition_system =
  fixes init :: "'s \<Rightarrow> bool"
    and step :: "'s \<Rightarrow> 's \<Rightarrow> bool"
    and invar :: "'s \<Rightarrow> bool"
  assumes init_invar: "init s \<Longrightarrow> invar s"
    and step_invar: "invar s \<Longrightarrow> step s t \<Longrightarrow> invar t"
begin

lemma reach_invar: "reach init step s \<Longrightarrow> invar s"
  by (induction rule: reach.induct) (auto intro: init_invar step_invar)

lemma steps_invar: "step\<^sup>*\<^sup>* s t \<Longrightarrow> invar s \<Longrightarrow> invar t"
  by (induction rule: rtranclp_induct) (auto intro: step_invar)

end

end
