(* ===== verification/Xrp_State.thy ===== *)
theory Xrp_State
  imports Vdsp_Prelude
begin

text \<open>
  The data model of the host library: the enums and structs of xrp_api.h, xrp_host_common.h,
  xrp_kernel_defs.h, xrp_threaded_queue.h and vdsp_interface.h, the store that holds every
  live object by its address, the allocator and the system calls, the helpers of
  xrp_host_common.h and the mutex and condition wrappers of xrp_thread_impl.h.

  An object is live when its map holds it; reading a dead or null address makes the call
  \<^const>\<open>None\<close>. The environment \<open>env\<close> is what the code does not define: the address each
  allocation returns (0 when it fails), the kernel's answer to each system call given the
  calls made before it, and the constants of headers outside the repository.
\<close>

section \<open>Enums\<close>

datatype xrp_status = XRP_STATUS_SUCCESS | XRP_STATUS_FAILURE | XRP_STATUS_PENDING

datatype xrp_open_type = XRP_OPEN_NORMAL_TYPE | XRP_OPEN_FACEID_TYPE | XRP_OPEN_TYPE_MAX

datatype device_type = XRP_DEVICE_NORMAL | XRP_DEVICE_NEWMODE

datatype buf_type = XRP_BUFFER_TYPE_HOST | XRP_BUFFER_TYPE_DEVICE

datatype sprd_vdsp_worktype =
  SPRD_VDSP_WORK_NORMAL | SPRD_VDSP_WORK_FACEID | SPRD_VDSP_WORK_MAXTYPE

datatype sprd_vdsp_result =
    SPRD_VDSP_RESULT_SUCCESS | SPRD_VDSP_RESULT_FAIL | SPRD_VDSP_RESULT_OLD_GENERATION
  | SPRD_VDSP_RESULT_NOT_SUPPORT | SPRD_VDSP_RESULT_MAX

datatype sprd_vdsp_status =
  SPRD_XRP_STATUS_SUCCESS | SPRD_XRP_STATUS_FAILURE | SPRD_XRP_STATUS_PENDING

text \<open>
  \<open>enum xrp_access_flags\<close> is or-ed and stored in 32-bit fields, so it is a word with the
  code's constants.
\<close>

definition XRP_READ :: u32 where "XRP_READ = 1"
definition XRP_WRITE :: u32 where "XRP_WRITE = 2"
definition XRP_READ_WRITE :: u32 where "XRP_READ_WRITE = 3"

definition XRP_NAMESPACE_ID_SIZE :: nat where "XRP_NAMESPACE_ID_SIZE = 32"
definition XRP_QUEUE_FLAG_NSID :: u32 where "XRP_QUEUE_FLAG_NSID = 0x4"
definition XRP_QUEUE_FLAG_PRIO :: u32 where "XRP_QUEUE_FLAG_PRIO = 0xff00"
definition XRP_QUEUE_FLAG_PRIO_SHIFT :: nat where "XRP_QUEUE_FLAG_PRIO_SHIFT = 8"

section \<open>Structs\<close>

text \<open>
  \<open>impl\<close> of a device is a union of a descriptor and a \<open>vdsp_handle\<close>; the descriptor and
  the handle's \<open>fd\<close> are the same first word, so the union is two fields.
\<close>

record xrp_device =
  d_count :: "64 word"
  d_fd :: i32
  d_generation :: u32
  d_type :: device_type

record xrp_buffer =
  b_count :: "64 word"
  b_device :: ptr
  b_type :: buf_type
  b_ptr :: ptr
  b_apptr :: ptr
  b_size :: size_t
  b_map_count :: "64 word"
  b_map_flags :: u32
  b_ion_fd :: i32
  b_ionhandle :: ptr

record xrp_buffer_group_record =
  gr_buffer :: ptr
  gr_access_flags :: u32

text \<open>
  The array of a group is a list as long as the allocation it stands for; a slot nothing was
  stored in yet is \<^const>\<open>None\<close>.
\<close>

record xrp_buffer_group =
  g_count :: "64 word"
  g_mutex :: bool
  g_n_buffers :: size_t
  g_capacity :: size_t
  g_buffer :: "xrp_buffer_group_record option list"

record request_list =
  rl_head :: ptr
  rl_tail :: ptr

record xrp_request_queue =
  rq_thread :: bool
  rq_cond :: bool
  rq_request_queue :: request_list
  rq_exit :: bool

record xrp_queue =
  q_count :: "64 word"
  q_device :: ptr
  q_use_nsid :: bool
  q_priority :: i32
  q_nsid :: "byte list"
  q_impl :: xrp_request_queue

record xrp_event =
  e_count :: "64 word"
  e_queue :: ptr
  e_status :: xrp_status
  e_cond :: bool

record xrp_request =
  r_in_data :: ptr
  r_out_data :: ptr
  r_in_data_fd :: i32
  r_out_data_fd :: i32
  r_in_data_size :: size_t
  r_out_data_size :: size_t
  r_buffer_group :: ptr
  r_event :: ptr

record vdsp_handle =
  vh_fd :: i32
  vh_generation :: u32

text \<open>The members of the C++ class \<open>VdspIon\<close>.\<close>

record vdsp_ion =
  mIonDeviceFd :: i32
  mIonHandle :: i32
  mFD :: i32
  mSize :: size_t
  mBase :: ptr

text \<open>\<open>sprd_vdsp_client_inout\<close> and \<open>sprd_vdsp_inout\<close> have the same layout.\<close>

record sprd_vdsp_inout =
  io_fd :: i32
  io_vir_addr :: ptr
  io_phy_addr :: u32
  io_size :: u32
  io_flag :: u32

record xrp_ioctl_buffer =
  ib_flags :: u32
  ib_size :: u32
  ib_addr :: "64 word"
  ib_fd :: i32

record xrp_ioctl_queue =
  iq_flags :: u32
  iq_in_data_size :: u32
  iq_out_data_size :: u32
  iq_buffer_size :: u32
  iq_in_data_addr :: "64 word"
  iq_in_data_fd :: i32
  iq_out_data_addr :: "64 word"
  iq_out_data_fd :: i32
  iq_buffers :: "xrp_ioctl_buffer list"
  iq_nsid :: "byte list"

section \<open>System calls\<close>

text \<open>
  The calls into the kernel, with what the code passes them. The two addresses of
  \<open>xrp_ioctl_queue\<close> that point at arrays of the caller's frame (\<open>buffer_addr\<close>,
  \<open>nsid_addr\<close>) are replaced by what they point at, since the driver reads through them.
\<close>

datatype open_flag = O_RDONLY | O_RDWR | O_CLOEXEC | O_SYNC

datatype syscall =
    Sys_open string "open_flag list"
  | Sys_close i32
  | Sys_ioctl_queue i32 xrp_ioctl_queue
  | Sys_ioctl_faceid i32 u32 u32
  | Sys_ioctl_powerhint i32 i32 u32
  | Sys_ion_version i32
  | Sys_ion_alloc i32 size_t size_t u32 u32
  | Sys_ion_new_alloc i32 size_t u32 u32
  | Sys_ion_share i32 i32
  | Sys_ion_free i32 i32
  | Sys_ion_sync i32 i32 i32
  | Sys_ion_phys i32 i32
  | Sys_ion_phy i32 i32
  | Sys_ion_map_kernel i32 i32
  | Sys_ion_unmap_kernel i32 i32
  | Sys_ion_msync i32 i32 ptr ptr size_t
  | Sys_ion_invalidate i32 i32
  | Sys_dma_buf_sync i32 u32
  | Sys_mmap i32 size_t
  | Sys_munmap ptr size_t
  | Sys_thread_create ptr

record answer =
  ans_ret :: i32
  ans_fd :: i32
  ans_addr :: "64 word"
  ans_size :: size_t

record env =
  env_alloc :: "nat \<Rightarrow> ptr"
  env_sys :: "syscall list \<Rightarrow> syscall \<Rightarrow> answer"
  env_pagesize :: size_t
  ION_HEAP_ID_MASK_SYSTEM :: u32
  ION_FLAG_NO_CLEAR :: u32
  ION_HEAP_ID_MASK_CAM :: u32
  DMA_BUF_SYNC_READ :: u32
  DMA_BUF_SYNC_RW :: u32
  DMA_BUF_SYNC_END :: u32

section \<open>The store\<close>

record xrp_state =
  devices :: "ptr \<rightharpoonup> xrp_device"
  buffers :: "ptr \<rightharpoonup> xrp_buffer"
  groups :: "ptr \<rightharpoonup> xrp_buffer_group"
  queues :: "ptr \<rightharpoonup> xrp_queue"
  events :: "ptr \<rightharpoonup> xrp_event"
  requests :: "ptr \<rightharpoonup> xrp_request"
  next_item :: "ptr \<Rightarrow> ptr"
  blocks :: "ptr \<rightharpoonup> byte list"
  ions :: "ptr \<rightharpoonup> vdsp_ion"
  mem :: "ptr \<Rightarrow> byte"
  sync_exit :: "ptr \<Rightarrow> bool"
  allocs :: nat
  trace :: "syscall list"

definition init_state :: xrp_state where
  "init_state = \<lparr>devices = Map.empty, buffers = Map.empty, groups = Map.empty,
     queues = Map.empty, events = Map.empty, requests = Map.empty, next_item = (\<lambda>_. 0),
     blocks = Map.empty, ions = Map.empty, mem = (\<lambda>_. 0), sync_exit = (\<lambda>_. False),
     allocs = 0, trace = []\<rparr>"

definition fresh :: "xrp_state \<Rightarrow> ptr \<Rightarrow> bool" where
  "fresh s p \<longleftrightarrow> devices s p = None \<and> buffers s p = None \<and> groups s p = None \<and>
     queues s p = None \<and> events s p = None \<and> requests s p = None \<and> blocks s p = None \<and>
     ions s p = None"

text \<open>
  \<open>malloc\<close> returns null or an address no live object has: the environment's next choice
  counts as a failure when it is taken.
\<close>

definition new_ptr :: "env \<Rightarrow> xrp_state \<Rightarrow> ptr" where
  "new_ptr E s = (let p = env_alloc E (allocs s) in if p \<noteq> 0 \<and> fresh s p then p else 0)"

definition malloc :: "env \<Rightarrow> xrp_state \<Rightarrow> ptr \<times> xrp_state" where
  "malloc E s = (new_ptr E s, s\<lparr>allocs := Suc (allocs s)\<rparr>)"

definition sys :: "env \<Rightarrow> syscall \<Rightarrow> xrp_state \<Rightarrow> answer \<times> xrp_state" where
  "sys E c s = (env_sys E (trace s) c, s\<lparr>trace := trace s @ [c]\<rparr>)"

lemma new_ptr_fresh: "new_ptr E s \<noteq> 0 \<Longrightarrow> fresh s (new_ptr E s)"
  by (auto simp: new_ptr_def Let_def split: if_splits)

lemma new_ptr_irrelevant [simp]:
  "new_ptr E (s\<lparr>trace := tr\<rparr>) = new_ptr E s" "new_ptr E (s\<lparr>mem := m\<rparr>) = new_ptr E s"
  "new_ptr E (s\<lparr>sync_exit := e\<rparr>) = new_ptr E s" "new_ptr E (s\<lparr>next_item := nx\<rparr>) = new_ptr E s"
  by (simp_all add: new_ptr_def fresh_def)

lemma fresh_irrelevant [simp]:
  "fresh (s\<lparr>trace := tr\<rparr>) = fresh s" "fresh (s\<lparr>allocs := n\<rparr>) = fresh s"
  "fresh (s\<lparr>mem := m\<rparr>) = fresh s" "fresh (s\<lparr>sync_exit := e\<rparr>) = fresh s"
  "fresh (s\<lparr>next_item := nx\<rparr>) = fresh s"
  by (rule ext, simp add: fresh_def)+

section \<open>Helpers of xrp_host_common.h\<close>

text \<open>
  A function that reports through an \<open>xrp_status *\<close> returns the status beside its result;
  a caller that passes NULL drops it.
\<close>

text \<open>\<open>alloc_refcounted\<close>: the count of a fresh zeroed object is 1.\<close>

definition alloc_refcounted :: "env \<Rightarrow> xrp_state \<Rightarrow> ptr \<times> 64 word \<times> xrp_state" where
  "alloc_refcounted E s = (let (buf, s) = malloc E s in (buf, 1, s))"

lemma alloc_refcounted_eq: "alloc_refcounted E s = (new_ptr E s, 1, s\<lparr>allocs := Suc (allocs s)\<rparr>)"
  by (simp add: alloc_refcounted_def malloc_def)

definition retain_refcounted :: "64 word \<Rightarrow> 64 word" where
  "retain_refcounted c = c + 1"

definition last_release_refcounted :: "64 word \<Rightarrow> bool \<times> 64 word" where
  "last_release_refcounted c = (c = 1, c - 1)"

definition get_ref_count :: "64 word \<Rightarrow> i32" where
  "get_ref_count c = ucast c"

section \<open>Mutexes and condition locks of xrp_thread_impl.h\<close>

text \<open>
  Each flag is true while the lock is held. The sequential theories run one thread at a
  time, so taking a held lock blocks for ever; interleavings are the subject of
  Xrp_Threads.
\<close>

definition xrp_mutex_lock :: "bool \<Rightarrow> bool option" where
  "xrp_mutex_lock m = (if m then None else Some True)"

definition xrp_mutex_unlock :: "bool \<Rightarrow> bool option" where
  "xrp_mutex_unlock m = (if m then Some False else None)"

definition xrp_cond_lock :: "bool \<Rightarrow> bool option" where
  "xrp_cond_lock m = (if m then None else Some True)"

definition xrp_cond_unlock :: "bool \<Rightarrow> bool option" where
  "xrp_cond_unlock m = (if m then Some False else None)"

lemmas lock_defs = xrp_mutex_lock_def xrp_mutex_unlock_def xrp_cond_lock_def xrp_cond_unlock_def

section \<open>Memory\<close>

definition read_bytes :: "xrp_state \<Rightarrow> ptr \<Rightarrow> nat \<Rightarrow> byte list option" where
  "read_bytes s p n = (if n = 0 then Some []
     else if p = 0 then None else Some (map (\<lambda>i. mem s (p + of_nat i)) [0..<n]))"

fun write_bytes :: "(ptr \<Rightarrow> byte) \<Rightarrow> ptr \<Rightarrow> byte list \<Rightarrow> (ptr \<Rightarrow> byte)" where
  "write_bytes m p [] = m"
| "write_bytes m p (b # bs) = write_bytes (m(p := b)) (p + 1) bs"

text \<open>C strings are given by the bytes at their address; a string without a terminator in
  that region is read past its end.\<close>

definition c_strlen :: "byte list \<Rightarrow> nat option" where
  "c_strlen str = (if 0 \<in> set str then Some (length (takeWhile (\<lambda>b. b \<noteq> 0) str)) else None)"

end
