(* ===== verification/Vdsp_Handle.thy ===== *)
theory Vdsp_Handle
  imports Xrp_State
begin

text \<open>
  The handle encoding of vdsp_interface.cpp: \<open>sprd_cavdsp_open_device\<close> splits the address of
  the opened device over the two 32-bit fields of a \<open>vdsp_handle\<close>, and every other
  \<open>sprd_cavdsp_*\<close> call joins them again. The two are inverse to each other.
\<close>

definition split_handle :: "ptr \<Rightarrow> vdsp_handle" where
  "split_handle hnddev = \<lparr>vh_fd = ucast (hnddev AND 0xffffffff),
     vh_generation = ucast (drop_bit 32 hnddev AND 0xffffffff)\<rparr>"

definition join_handle :: "vdsp_handle \<Rightarrow> ptr" where
  "join_handle h = push_bit 32 (ucast (vh_generation h) AND 0xffffffff) OR
     (scast (vh_fd h) AND 0xffffffff)"

lemma mask32: "(0xffffffff :: 64 word) = mask 32"
  by (simp add: mask_eq_exp_minus_1)

lemma bit_split_fd: "bit (vh_fd (split_handle p)) n \<longleftrightarrow> n < 32 \<and> bit p n"
  by (auto simp: split_handle_def mask32 bit_simps)

lemma bit_split_generation: "bit (vh_generation (split_handle p)) n \<longleftrightarrow> n < 32 \<and> bit p (n + 32)"
  by (auto simp: split_handle_def mask32 bit_simps add.commute dest: bit_imp_le_length)

lemma bit_join:
  "bit (join_handle h) n \<longleftrightarrow>
     (if n < 32 then bit (vh_fd h) n else n < 64 \<and> bit (vh_generation h) (n - 32))"
  by (auto simp: join_handle_def mask32 bit_simps dest: bit_imp_le_length)

lemma join_split: "join_handle (split_handle p) = p"
proof (rule bit_word_eqI)
  fix n assume "n < LENGTH(64)"
  then show "bit (join_handle (split_handle p)) n = bit p n"
    by (auto simp: bit_join bit_split_fd bit_split_generation)
qed

lemma split_join: "split_handle (join_handle h) = h"
proof (rule vdsp_handle.equality)
  show "vh_fd (split_handle (join_handle h)) = vh_fd h"
    by (rule bit_word_eqI) (simp add: bit_split_fd bit_join)
  show "vh_generation (split_handle (join_handle h)) = vh_generation h"
    by (rule bit_word_eqI) (simp add: bit_split_generation bit_join)
qed simp

end
