(* ===== verification/Xrp_Request_List.thy ===== *)
theory Xrp_Request_List
  imports Xrp_State
begin

text \<open>
  The intrusive request list of xrp_threaded_queue.c: items chained through their \<open>next\<close>
  field, a head and a tail pointer in the queue. \<open>xrp_queue_push\<close> and
  \<open>xrp_dequeue_request\<close> (the code's \<open>_xrp_dequeue_request\<close>) are shown to implement a
  first-in-first-out sequence: the locale \<open>fifo\<close> states that contract and proves its client
  lemmas, the interpretation \<open>rl\<close> discharges it for the pointer code.
\<close>

section \<open>Operations\<close>

definition xrp_dequeue_request ::
    "(ptr \<Rightarrow> ptr) \<Rightarrow> request_list \<Rightarrow> ptr \<times> request_list" where
  "xrp_dequeue_request nxt l =
     (let rq = rl_head l
      in if rq = 0 then (0, l)
         else (let l = (if rq = rl_tail l then l\<lparr>rl_tail := 0\<rparr> else l)
               in (rq, l\<lparr>rl_head := nxt rq\<rparr>)))"

text \<open>The body of \<open>xrp_queue_push\<close> between lock and unlock; the flag says whether it
  broadcasts the condition.\<close>

definition push_item ::
    "(ptr \<Rightarrow> ptr) \<Rightarrow> request_list \<Rightarrow> ptr \<Rightarrow> (ptr \<Rightarrow> ptr) \<times> request_list \<times> bool" where
  "push_item nxt l rq =
     (let nxt = nxt(rq := 0)
      in if rl_tail l \<noteq> 0
         then (nxt(rl_tail l := rq), l\<lparr>rl_tail := rq\<rparr>, False)
         else (nxt, l\<lparr>rl_head := rq, rl_tail := rq\<rparr>, True))"

definition xrp_queue_push ::
    "(ptr \<Rightarrow> ptr) \<Rightarrow> xrp_request_queue \<Rightarrow> ptr
       \<Rightarrow> ((ptr \<Rightarrow> ptr) \<times> xrp_request_queue \<times> bool) option" where
  "xrp_queue_push nxt queue rq =
     do { c \<leftarrow> xrp_cond_lock (rq_cond queue);
          let (nxt, l, broadcast) = push_item nxt (rq_request_queue queue) rq;
          c \<leftarrow> xrp_cond_unlock c;
          Some (nxt, queue\<lparr>rq_cond := c, rq_request_queue := l\<rparr>, broadcast) }"

section \<open>The list a queue represents\<close>

fun linked :: "(ptr \<Rightarrow> ptr) \<Rightarrow> ptr \<Rightarrow> ptr list \<Rightarrow> bool" where
  "linked nxt p [] = (p = 0)"
| "linked nxt p (x # xs) = (p = x \<and> x \<noteq> 0 \<and> linked nxt (nxt x) xs)"

definition rlist :: "(ptr \<Rightarrow> ptr) \<Rightarrow> request_list \<Rightarrow> ptr list \<Rightarrow> bool" where
  "rlist nxt l xs \<longleftrightarrow> linked nxt (rl_head l) xs \<and> distinct xs \<and>
     rl_tail l = (if xs = [] then 0 else last xs)"

lemma linked_nonzero: "linked nxt p xs \<Longrightarrow> 0 \<notin> set xs"
  by (induction xs arbitrary: p) auto

lemma linked_frame: "x \<notin> set xs \<Longrightarrow> linked (nxt(x := y)) p xs = linked nxt p xs"
  by (induction xs arbitrary: p) auto

lemma linked_append:
  "linked nxt p (xs @ [x]) \<Longrightarrow> y \<noteq> 0 \<Longrightarrow> y \<notin> set (xs @ [x]) \<Longrightarrow> distinct (xs @ [x]) \<Longrightarrow>
   linked (nxt(y := 0, x := y)) p (xs @ [x, y])"
  by (induction xs arbitrary: p) auto

lemma rlist_frame: "x \<notin> set xs \<Longrightarrow> rlist (nxt(x := y)) l xs = rlist nxt l xs"
  by (simp add: rlist_def linked_frame)

lemma rlist_empty: "rlist nxt l [] \<longleftrightarrow> rl_head l = 0 \<and> rl_tail l = 0"
  by (simp add: rlist_def)

lemma rlist_nonzero: "rlist nxt l xs \<Longrightarrow> 0 \<notin> set xs"
  by (auto simp: rlist_def dest: linked_nonzero)

lemma rlist_head: "rlist nxt l xs \<Longrightarrow> rl_head l = 0 \<longleftrightarrow> xs = []"
  by (cases xs) (auto simp: rlist_def)

lemma push_item_rlist:
  assumes "rlist nxt l xs" and "x \<notin> set xs" and "x \<noteq> 0" and "push_item nxt l x = (nxt', l', b)"
  shows "rlist nxt' l' (xs @ [x])" and "b \<longleftrightarrow> xs = []"
    and "y \<noteq> x \<Longrightarrow> y \<notin> set xs \<Longrightarrow> nxt' y = nxt y"
proof -
  have "rlist nxt' l' (xs @ [x]) \<and> (b \<longleftrightarrow> xs = []) \<and> (y \<noteq> x \<longrightarrow> y \<notin> set xs \<longrightarrow> nxt' y = nxt y)"
  proof (cases xs rule: rev_cases)
    case Nil
    then show ?thesis using assms by (auto simp: rlist_def push_item_def)
  next
    case (snoc ys z)
    then have t: "rl_tail l = z" "z \<noteq> 0"
      using assms(1) rlist_nonzero [OF assms(1)] by (auto simp: rlist_def)
    have "linked (nxt(x := 0, z := x)) (rl_head l) (ys @ [z, x])"
      using assms snoc by (intro linked_append) (auto simp: rlist_def)
    then show ?thesis using assms snoc t by (auto simp: rlist_def push_item_def)
  qed
  then show "rlist nxt' l' (xs @ [x])" and "b \<longleftrightarrow> xs = []"
    and "y \<noteq> x \<Longrightarrow> y \<notin> set xs \<Longrightarrow> nxt' y = nxt y" by auto
qed

lemma dequeue_empty: "rlist nxt l [] \<Longrightarrow> xrp_dequeue_request nxt l = (0, l)"
  by (simp add: rlist_def xrp_dequeue_request_def)

lemma dequeue_rlist:
  assumes "rlist nxt l (x # xs)"
  obtains l' where "xrp_dequeue_request nxt l = (x, l')" and "rlist nxt l' xs"
proof -
  have "fst (xrp_dequeue_request nxt l) = x \<and> rlist nxt (snd (xrp_dequeue_request nxt l)) xs"
    using assms
    by (cases xs rule: rev_cases) (auto simp: rlist_def xrp_dequeue_request_def Let_def)
  then show thesis using that by (cases "xrp_dequeue_request nxt l") auto
qed

section \<open>The contract of a first-in-first-out queue\<close>

locale fifo =
  fixes push :: "'i \<Rightarrow> 'q \<Rightarrow> 'q"
    and pop :: "'q \<Rightarrow> 'i option \<times> 'q"
    and items :: "'q \<Rightarrow> 'i list \<Rightarrow> bool"
    and item :: "'i \<Rightarrow> bool"
  assumes items_push: "items q xs \<Longrightarrow> item x \<Longrightarrow> x \<notin> set xs \<Longrightarrow> items (push x q) (xs @ [x])"
    and pop_none: "items q [] \<Longrightarrow> pop q = (None, q)"
    and pop_some: "items q (x # xs) \<Longrightarrow> \<exists>q'. pop q = (Some x, q') \<and> items q' xs"
begin

primrec pushes :: "'i list \<Rightarrow> 'q \<Rightarrow> 'q" where
  "pushes [] q = q"
| "pushes (x # xs) q = pushes xs (push x q)"

primrec pops :: "nat \<Rightarrow> 'q \<Rightarrow> 'i list \<times> 'q" where
  "pops 0 q = ([], q)"
| "pops (Suc n) q = (case pop q of (None, q') \<Rightarrow> ([], q')
     | (Some x, q') \<Rightarrow> (let (xs, q'') = pops n q' in (x # xs, q'')))"

lemma items_pushes:
  "items q ys \<Longrightarrow> \<forall>x\<in>set xs. item x \<Longrightarrow> distinct (ys @ xs) \<Longrightarrow> items (pushes xs q) (ys @ xs)"
proof (induction xs arbitrary: q ys)
  case Nil
  then show ?case by simp
next
  case (Cons x xs)
  then have "items (push x q) (ys @ [x])" by (intro items_push) auto
  then have "items (pushes xs (push x q)) ((ys @ [x]) @ xs)"
    using Cons.prems by (intro Cons.IH) auto
  then show ?case by simp
qed

lemma pops_items: "items q (xs @ ys) \<Longrightarrow> \<exists>q'. pops (length xs) q = (xs, q') \<and> items q' ys"
proof (induction xs arbitrary: q)
  case Nil
  then show ?case by simp
next
  case (Cons x xs)
  then obtain q1 where q1: "pop q = (Some x, q1)" "items q1 (xs @ ys)"
    using pop_some [of q x "xs @ ys"] by auto
  then show ?case using Cons.IH [OF q1(2)] by (auto simp: Let_def)
qed

lemma fifo_order:
  "items q [] \<Longrightarrow> \<forall>x\<in>set xs. item x \<Longrightarrow> distinct xs \<Longrightarrow>
   fst (pops (length xs) (pushes xs q)) = xs"
  using items_pushes [of q "[]" xs] pops_items [of "pushes xs q" xs "[]"] by auto

end

definition rl_push :: "ptr \<Rightarrow> (ptr \<Rightarrow> ptr) \<times> request_list \<Rightarrow> (ptr \<Rightarrow> ptr) \<times> request_list" where
  "rl_push x q = (let (nxt, l, _) = push_item (fst q) (snd q) x in (nxt, l))"

definition rl_pop ::
    "(ptr \<Rightarrow> ptr) \<times> request_list \<Rightarrow> ptr option \<times> (ptr \<Rightarrow> ptr) \<times> request_list" where
  "rl_pop q = (let (x, l) = xrp_dequeue_request (fst q) (snd q)
               in (if x = 0 then None else Some x, fst q, l))"

interpretation rl: fifo rl_push rl_pop "\<lambda>q. rlist (fst q) (snd q)" "\<lambda>x. x \<noteq> 0"
proof unfold_locales
  fix q :: "(ptr \<Rightarrow> ptr) \<times> request_list" and xs x
  assume "rlist (fst q) (snd q) xs" "x \<noteq> 0" "x \<notin> set xs"
  then show "rlist (fst (rl_push x q)) (snd (rl_push x q)) (xs @ [x])"
    by (cases "push_item (fst q) (snd q) x") (auto simp: rl_push_def dest: push_item_rlist(1))
next
  fix q :: "(ptr \<Rightarrow> ptr) \<times> request_list"
  assume "rlist (fst q) (snd q) []"
  then show "rl_pop q = (None, q)" by (simp add: rl_pop_def dequeue_empty)
next
  fix q :: "(ptr \<Rightarrow> ptr) \<times> request_list" and x xs
  assume r: "rlist (fst q) (snd q) (x # xs)"
  then have "x \<noteq> 0" using rlist_nonzero by fastforce
  with r show "\<exists>q'. rl_pop q = (Some x, q') \<and> rlist (fst q') (snd q') xs"
    by (elim dequeue_rlist) (auto simp: rl_pop_def)
qed

end
