(* ===== verification/Xrp_Refs.thy ===== *)
theory Xrp_Refs
  imports Vdsp_Handle Xrp_Request_List
begin

text \<open>
  The invariant of the object store. The reference count of an object is the number of
  references to it: those the library keeps in its own objects (\<open>irefs\<close>: a queue's device, a
  group's buffers, a pending request's event, ...) and those its clients hold (\<open>X\<close>, a ghost
  account the properties carry along). \<open>L\<close> gives, for every queue, the requests that wait in
  its list. An object with references is therefore live, which is what makes every access of
  the code safe.
\<close>

datatype obj = Dev ptr | Buf ptr | Grp ptr | Que ptr | Evt ptr

type_synonym refs = "obj \<Rightarrow> nat"

fun cnt :: "xrp_state \<Rightarrow> refs" where
  "cnt s (Dev p) = (case devices s p of None \<Rightarrow> 0 | Some D \<Rightarrow> unat (d_count D))"
| "cnt s (Buf p) = (case buffers s p of None \<Rightarrow> 0 | Some B \<Rightarrow> unat (b_count B))"
| "cnt s (Grp p) = (case groups s p of None \<Rightarrow> 0 | Some G \<Rightarrow> unat (g_count G))"
| "cnt s (Que p) = (case queues s p of None \<Rightarrow> 0 | Some Q \<Rightarrow> unat (q_count Q))"
| "cnt s (Evt p) = (case events s p of None \<Rightarrow> 0 | Some V \<Rightarrow> unat (e_count V))"

definition device_handle :: "xrp_device \<Rightarrow> vdsp_handle" where
  "device_handle D = \<lparr>vh_fd = d_fd D, vh_generation = d_generation D\<rparr>"

definition inner_device :: "xrp_device \<Rightarrow> ptr" where
  "inner_device D = join_handle (device_handle D)"

definition group_records :: "xrp_buffer_group \<Rightarrow> xrp_buffer_group_record list" where
  "group_records G = map the (take (unat (g_n_buffers G)) (g_buffer G))"

definition group_bufs :: "xrp_buffer_group \<Rightarrow> ptr list" where
  "group_bufs G = map gr_buffer (group_records G)"

definition pend :: "(ptr \<Rightarrow> ptr list) \<Rightarrow> xrp_state \<Rightarrow> ptr set" where
  "pend L s = (\<Union>q\<in>dom (queues s). set (L q))"

section \<open>References the library keeps\<close>

definition queue_dev :: "ptr \<Rightarrow> xrp_queue \<Rightarrow> nat" where
  "queue_dev d Q = of_bool (q_device Q = d \<and> q_count Q \<noteq> 0)"

definition buffer_dev :: "ptr \<Rightarrow> xrp_buffer \<Rightarrow> nat" where
  "buffer_dev d B = of_bool (b_type B = XRP_BUFFER_TYPE_DEVICE \<and> b_device B = d)"

definition device_dev :: "ptr \<Rightarrow> xrp_device \<Rightarrow> nat" where
  "device_dev d D = of_bool (d_type D = XRP_DEVICE_NORMAL \<and> inner_device D = d)"

definition group_buf :: "ptr \<Rightarrow> xrp_buffer_group \<Rightarrow> nat" where
  "group_buf b G = count_list (group_bufs G) b"

definition event_que :: "ptr \<Rightarrow> xrp_event \<Rightarrow> nat" where
  "event_que q V = of_bool (e_queue V = q \<and> e_count V \<noteq> 0)"

definition request_grp :: "ptr \<Rightarrow> xrp_request \<Rightarrow> nat" where
  "request_grp g R = of_bool (r_buffer_group R = g \<and> g \<noteq> 0)"

definition request_evt :: "ptr \<Rightarrow> xrp_request \<Rightarrow> nat" where
  "request_evt v R = of_bool (r_event R = v \<and> v \<noteq> 0)"

definition map_refs :: "xrp_buffer option \<Rightarrow> nat" where
  "map_refs B = (case B of None \<Rightarrow> 0 | Some B \<Rightarrow> unat (b_map_count B))"

fun irefs :: "ptr set \<Rightarrow> xrp_state \<Rightarrow> refs" where
  "irefs P s (Dev d) = msum (queues s) (queue_dev d) + msum (buffers s) (buffer_dev d) +
                       msum (devices s) (device_dev d)"
| "irefs P s (Buf b) = msum (groups s) (group_buf b) + map_refs (buffers s b)"
| "irefs P s (Grp g) = msum (requests s |` P) (request_grp g)"
| "irefs P s (Que q) = msum (events s) (event_que q)"
| "irefs P s (Evt v) = msum (requests s |` P) (request_evt v)"

definition refs_ok :: "refs \<Rightarrow> ptr set \<Rightarrow> xrp_state \<Rightarrow> bool" where
  "refs_ok X P s \<longleftrightarrow> (\<forall>ob. cnt s ob = X ob + irefs P s ob)"

section \<open>Well-formedness of the store\<close>

definition maps_ok :: "xrp_state \<Rightarrow> bool" where
  "maps_ok s \<longleftrightarrow> finite (dom (devices s)) \<and> finite (dom (buffers s)) \<and> finite (dom (groups s)) \<and>
     finite (dom (queues s)) \<and> finite (dom (events s)) \<and> finite (dom (requests s)) \<and>
     devices s 0 = None \<and> buffers s 0 = None \<and> groups s 0 = None \<and> queues s 0 = None \<and>
     events s 0 = None \<and> requests s 0 = None"

definition counts_ok :: "xrp_state \<Rightarrow> bool" where
  "counts_ok s \<longleftrightarrow> (\<forall>p D. devices s p = Some D \<longrightarrow> d_count D \<noteq> 0) \<and>
     (\<forall>p B. buffers s p = Some B \<longrightarrow> b_count B \<noteq> 0) \<and>
     (\<forall>p G. groups s p = Some G \<longrightarrow> g_count G \<noteq> 0)"

text \<open>A queue or event whose count is 0 is being destroyed: it holds no reference any more, and
  calls that run while it is destroyed meet it in the store. Between the calls of a client
  there is none (\<open>settled\<close>).\<close>

definition settled :: "xrp_state \<Rightarrow> bool" where
  "settled s \<longleftrightarrow> (\<forall>p Q. queues s p = Some Q \<longrightarrow> q_count Q \<noteq> 0) \<and>
     (\<forall>p V. events s p = Some V \<longrightarrow> e_count V \<noteq> 0)"

text \<open>A device opened through \<open>sprd_cavdsp_open_device\<close> wraps one opened on a descriptor.\<close>

definition devices_ok :: "xrp_state \<Rightarrow> bool" where
  "devices_ok s \<longleftrightarrow> (\<forall>p D. devices s p = Some D \<longrightarrow> d_type D = XRP_DEVICE_NORMAL \<longrightarrow>
     (\<exists>I. devices s (inner_device D) = Some I \<and> d_type I = XRP_DEVICE_NEWMODE))"

text \<open>Each device buffer has an ion object of its own.\<close>

definition buffers_ok :: "xrp_state \<Rightarrow> bool" where
  "buffers_ok s \<longleftrightarrow>
     (\<forall>p B. buffers s p = Some B \<longrightarrow> b_type B = XRP_BUFFER_TYPE_DEVICE \<longrightarrow>
        b_ionhandle B \<noteq> 0 \<and> ions s (b_ionhandle B) \<noteq> None) \<and>
     (\<forall>p B p' B'. buffers s p = Some B \<longrightarrow> buffers s p' = Some B' \<longrightarrow>
        b_type B = XRP_BUFFER_TYPE_DEVICE \<longrightarrow> b_type B' = XRP_BUFFER_TYPE_DEVICE \<longrightarrow>
        b_ionhandle B = b_ionhandle B' \<longrightarrow> p = p')"

definition group_ok :: "xrp_buffer_group \<Rightarrow> bool" where
  "group_ok G \<longleftrightarrow> \<not> g_mutex G \<and> g_n_buffers G \<le> g_capacity G \<and>
     length (g_buffer G) = unat (g_capacity G) \<and>
     (\<forall>i<unat (g_n_buffers G). g_buffer G ! i \<noteq> None)"

definition groups_ok :: "xrp_state \<Rightarrow> bool" where
  "groups_ok s \<longleftrightarrow> (\<forall>p G. groups s p = Some G \<longrightarrow> group_ok G)"

definition queues_ok :: "(ptr \<Rightarrow> ptr list) \<Rightarrow> xrp_state \<Rightarrow> bool" where
  "queues_ok L s \<longleftrightarrow>
     (\<forall>q Q. queues s q = Some Q \<longrightarrow> \<not> rq_cond (q_impl Q) \<and>
        (q_count Q \<noteq> 0 \<longrightarrow> rq_thread (q_impl Q) \<and> \<not> rq_exit (q_impl Q)) \<and>
        0 \<in> set (q_nsid Q) \<and> rlist (next_item s) (rq_request_queue (q_impl Q)) (L q)) \<and>
     (\<forall>q q'. queues s q \<noteq> None \<longrightarrow> queues s q' \<noteq> None \<longrightarrow> q \<noteq> q' \<longrightarrow> set (L q) \<inter> set (L q') = {})"

definition events_ok :: "xrp_state \<Rightarrow> bool" where
  "events_ok s \<longleftrightarrow> (\<forall>v V. events s v = Some V \<longrightarrow> \<not> e_cond V)"

text \<open>A waiting request is live, its event belongs to the queue it waits in, and its copy of
  the input is a block of its own.\<close>

definition requests_ok :: "(ptr \<Rightarrow> ptr list) \<Rightarrow> xrp_state \<Rightarrow> bool" where
  "requests_ok L s \<longleftrightarrow>
     (\<forall>q r. queues s q \<noteq> None \<longrightarrow> r \<in> set (L q) \<longrightarrow> (\<exists>R. requests s r = Some R \<and>
        (r_event R \<noteq> 0 \<longrightarrow> (\<exists>V. events s (r_event R) = Some V \<and> e_queue V = q)) \<and>
        (r_in_data R \<noteq> 0 \<longrightarrow> blocks s (r_in_data R) \<noteq> None))) \<and>
     (\<forall>r r' R R'. r \<in> pend L s \<longrightarrow> r' \<in> pend L s \<longrightarrow> requests s r = Some R \<longrightarrow>
        requests s r' = Some R' \<longrightarrow> r_in_data R = r_in_data R' \<longrightarrow> r_in_data R \<noteq> 0 \<longrightarrow> r = r')"

definition store_ok :: "(ptr \<Rightarrow> ptr list) \<Rightarrow> xrp_state \<Rightarrow> bool" where
  "store_ok L s \<longleftrightarrow> maps_ok s \<and> counts_ok s \<and> devices_ok s \<and> buffers_ok s \<and> groups_ok s \<and>
     queues_ok L s \<and> events_ok s \<and> requests_ok L s"

definition inv :: "refs \<Rightarrow> (ptr \<Rightarrow> ptr list) \<Rightarrow> xrp_state \<Rightarrow> bool" where
  "inv X L s \<longleftrightarrow> store_ok L s \<and> refs_ok X (pend L s) s"

lemmas ref_defs = queue_dev_def buffer_dev_def device_dev_def event_que_def request_grp_def
  request_evt_def inner_device_def device_handle_def
lemmas store_defs = store_ok_def maps_ok_def counts_ok_def devices_ok_def buffers_ok_def
  groups_ok_def queues_ok_def events_ok_def requests_ok_def

lemma inv_init: "inv (\<lambda>_. 0) L init_state"
proof -
  have "cnt init_state ob = 0 + irefs (pend L init_state) init_state ob" for ob
    by (cases ob) (simp_all add: init_state_def pend_def map_refs_def restrict_map_def)
  then show ?thesis
    by (simp add: inv_def refs_ok_def store_defs pend_def) (simp add: init_state_def)
qed

lemma invD:
  assumes "inv X L s"
  shows "maps_ok s" "counts_ok s" "devices_ok s" "buffers_ok s" "groups_ok s" "queues_ok L s"
    "events_ok s" "requests_ok L s" "refs_ok X (pend L s) s" "store_ok L s"
  using assms by (simp_all add: inv_def store_ok_def)

lemma refs_okD: "refs_ok X P s \<Longrightarrow> cnt s ob = X ob + irefs P s ob"
  by (simp add: refs_ok_def)

lemma owned_live:
  assumes "inv X L s"
  shows "0 < X (Dev p) \<Longrightarrow> \<exists>D. devices s p = Some D \<and> d_count D \<noteq> 0"
    and "0 < X (Buf p) \<Longrightarrow> \<exists>B. buffers s p = Some B \<and> b_count B \<noteq> 0"
    and "0 < X (Grp p) \<Longrightarrow> \<exists>G. groups s p = Some G \<and> g_count G \<noteq> 0"
    and "0 < X (Que p) \<Longrightarrow> \<exists>Q. queues s p = Some Q \<and> q_count Q \<noteq> 0"
    and "0 < X (Evt p) \<Longrightarrow> \<exists>V. events s p = Some V \<and> e_count V \<noteq> 0"
  using invD(2) [OF assms] refs_okD [OF invD(9) [OF assms], of "Dev p"]
    refs_okD [OF invD(9) [OF assms], of "Buf p"] refs_okD [OF invD(9) [OF assms], of "Grp p"]
    refs_okD [OF invD(9) [OF assms], of "Que p"] refs_okD [OF invD(9) [OF assms], of "Evt p"]
  by (auto simp: counts_ok_def split: option.splits)

section \<open>Changes the invariant does not see\<close>

lemma cnt_irrelevant [simp]:
  "cnt (s\<lparr>trace := tr\<rparr>) = cnt s" "cnt (s\<lparr>allocs := n\<rparr>) = cnt s"
  "cnt (s\<lparr>mem := m\<rparr>) = cnt s" "cnt (s\<lparr>sync_exit := e\<rparr>) = cnt s"
  "cnt (s\<lparr>next_item := nx\<rparr>) = cnt s" "cnt (s\<lparr>blocks := bl\<rparr>) = cnt s"
  "cnt (s\<lparr>ions := io\<rparr>) = cnt s" "cnt (s\<lparr>requests := rq\<rparr>) = cnt s"
  by (rule ext, rename_tac ob, case_tac ob; simp)+

lemma irefs_irrelevant [simp]:
  "irefs P (s\<lparr>trace := tr\<rparr>) = irefs P s" "irefs P (s\<lparr>allocs := n\<rparr>) = irefs P s"
  "irefs P (s\<lparr>mem := m\<rparr>) = irefs P s" "irefs P (s\<lparr>sync_exit := e\<rparr>) = irefs P s"
  "irefs P (s\<lparr>next_item := nx\<rparr>) = irefs P s" "irefs P (s\<lparr>blocks := bl\<rparr>) = irefs P s"
  "irefs P (s\<lparr>ions := io\<rparr>) = irefs P s"
  by (rule ext, rename_tac ob, case_tac ob; simp)+

lemma pend_irrelevant [simp]:
  "pend L (s\<lparr>trace := tr\<rparr>) = pend L s" "pend L (s\<lparr>allocs := n\<rparr>) = pend L s"
  "pend L (s\<lparr>mem := m\<rparr>) = pend L s" "pend L (s\<lparr>sync_exit := e\<rparr>) = pend L s"
  "pend L (s\<lparr>next_item := nx\<rparr>) = pend L s" "pend L (s\<lparr>blocks := bl\<rparr>) = pend L s"
  "pend L (s\<lparr>ions := io\<rparr>) = pend L s" "pend L (s\<lparr>requests := rq\<rparr>) = pend L s"
  "pend L (s\<lparr>devices := dv\<rparr>) = pend L s" "pend L (s\<lparr>buffers := bf\<rparr>) = pend L s"
  "pend L (s\<lparr>groups := gr\<rparr>) = pend L s" "pend L (s\<lparr>events := ev\<rparr>) = pend L s"
  by (simp_all add: pend_def)

text \<open>Each part of the well-formedness reads only the fields it names.\<close>

lemma maps_ok_reads [simp]:
  "maps_ok (s\<lparr>next_item := x0\<rparr>) = maps_ok s"
  "maps_ok (s\<lparr>blocks := x1\<rparr>) = maps_ok s"
  "maps_ok (s\<lparr>ions := x2\<rparr>) = maps_ok s"
  "maps_ok (s\<lparr>mem := x3\<rparr>) = maps_ok s"
  "maps_ok (s\<lparr>sync_exit := x4\<rparr>) = maps_ok s"
  "maps_ok (s\<lparr>allocs := x5\<rparr>) = maps_ok s"
  "maps_ok (s\<lparr>trace := x6\<rparr>) = maps_ok s"
  by (simp_all add: maps_ok_def)

lemma counts_ok_reads [simp]:
  "counts_ok (s\<lparr>requests := x0\<rparr>) = counts_ok s"
  "counts_ok (s\<lparr>next_item := x1\<rparr>) = counts_ok s"
  "counts_ok (s\<lparr>blocks := x2\<rparr>) = counts_ok s"
  "counts_ok (s\<lparr>ions := x3\<rparr>) = counts_ok s"
  "counts_ok (s\<lparr>mem := x4\<rparr>) = counts_ok s"
  "counts_ok (s\<lparr>sync_exit := x5\<rparr>) = counts_ok s"
  "counts_ok (s\<lparr>allocs := x6\<rparr>) = counts_ok s"
  "counts_ok (s\<lparr>trace := x7\<rparr>) = counts_ok s"
  by (simp_all add: counts_ok_def)

lemma devices_ok_reads [simp]:
  "devices_ok (s\<lparr>buffers := x0\<rparr>) = devices_ok s"
  "devices_ok (s\<lparr>groups := x1\<rparr>) = devices_ok s"
  "devices_ok (s\<lparr>queues := x2\<rparr>) = devices_ok s"
  "devices_ok (s\<lparr>events := x3\<rparr>) = devices_ok s"
  "devices_ok (s\<lparr>requests := x4\<rparr>) = devices_ok s"
  "devices_ok (s\<lparr>next_item := x5\<rparr>) = devices_ok s"
  "devices_ok (s\<lparr>blocks := x6\<rparr>) = devices_ok s"
  "devices_ok (s\<lparr>ions := x7\<rparr>) = devices_ok s"
  "devices_ok (s\<lparr>mem := x8\<rparr>) = devices_ok s"
  "devices_ok (s\<lparr>sync_exit := x9\<rparr>) = devices_ok s"
  "devices_ok (s\<lparr>allocs := x10\<rparr>) = devices_ok s"
  "devices_ok (s\<lparr>trace := x11\<rparr>) = devices_ok s"
  by (simp_all add: devices_ok_def)

lemma buffers_ok_reads [simp]:
  "buffers_ok (s\<lparr>devices := x0\<rparr>) = buffers_ok s"
  "buffers_ok (s\<lparr>groups := x1\<rparr>) = buffers_ok s"
  "buffers_ok (s\<lparr>queues := x2\<rparr>) = buffers_ok s"
  "buffers_ok (s\<lparr>events := x3\<rparr>) = buffers_ok s"
  "buffers_ok (s\<lparr>requests := x4\<rparr>) = buffers_ok s"
  "buffers_ok (s\<lparr>next_item := x5\<rparr>) = buffers_ok s"
  "buffers_ok (s\<lparr>blocks := x6\<rparr>) = buffers_ok s"
  "buffers_ok (s\<lparr>mem := x7\<rparr>) = buffers_ok s"
  "buffers_ok (s\<lparr>sync_exit := x8\<rparr>) = buffers_ok s"
  "buffers_ok (s\<lparr>allocs := x9\<rparr>) = buffers_ok s"
  "buffers_ok (s\<lparr>trace := x10\<rparr>) = buffers_ok s"
  by (simp_all add: buffers_ok_def)

lemma groups_ok_reads [simp]:
  "groups_ok (s\<lparr>devices := x0\<rparr>) = groups_ok s"
  "groups_ok (s\<lparr>buffers := x1\<rparr>) = groups_ok s"
  "groups_ok (s\<lparr>queues := x2\<rparr>) = groups_ok s"
  "groups_ok (s\<lparr>events := x3\<rparr>) = groups_ok s"
  "groups_ok (s\<lparr>requests := x4\<rparr>) = groups_ok s"
  "groups_ok (s\<lparr>next_item := x5\<rparr>) = groups_ok s"
  "groups_ok (s\<lparr>blocks := x6\<rparr>) = groups_ok s"
  "groups_ok (s\<lparr>ions := x7\<rparr>) = groups_ok s"
  "groups_ok (s\<lparr>mem := x8\<rparr>) = groups_ok s"
  "groups_ok (s\<lparr>sync_exit := x9\<rparr>) = groups_ok s"
  "groups_ok (s\<lparr>allocs := x10\<rparr>) = groups_ok s"
  "groups_ok (s\<lparr>trace := x11\<rparr>) = groups_ok s"
  by (simp_all add: groups_ok_def)

lemma queues_ok_reads [simp]:
  "queues_ok L (s\<lparr>devices := x0\<rparr>) = queues_ok L s"
  "queues_ok L (s\<lparr>buffers := x1\<rparr>) = queues_ok L s"
  "queues_ok L (s\<lparr>groups := x2\<rparr>) = queues_ok L s"
  "queues_ok L (s\<lparr>events := x3\<rparr>) = queues_ok L s"
  "queues_ok L (s\<lparr>requests := x4\<rparr>) = queues_ok L s"
  "queues_ok L (s\<lparr>blocks := x5\<rparr>) = queues_ok L s"
  "queues_ok L (s\<lparr>ions := x6\<rparr>) = queues_ok L s"
  "queues_ok L (s\<lparr>mem := x7\<rparr>) = queues_ok L s"
  "queues_ok L (s\<lparr>sync_exit := x8\<rparr>) = queues_ok L s"
  "queues_ok L (s\<lparr>allocs := x9\<rparr>) = queues_ok L s"
  "queues_ok L (s\<lparr>trace := x10\<rparr>) = queues_ok L s"
  by (simp_all add: queues_ok_def)

lemma events_ok_reads [simp]:
  "events_ok (s\<lparr>devices := x0\<rparr>) = events_ok s"
  "events_ok (s\<lparr>buffers := x1\<rparr>) = events_ok s"
  "events_ok (s\<lparr>groups := x2\<rparr>) = events_ok s"
  "events_ok (s\<lparr>queues := x3\<rparr>) = events_ok s"
  "events_ok (s\<lparr>requests := x4\<rparr>) = events_ok s"
  "events_ok (s\<lparr>next_item := x5\<rparr>) = events_ok s"
  "events_ok (s\<lparr>blocks := x6\<rparr>) = events_ok s"
  "events_ok (s\<lparr>ions := x7\<rparr>) = events_ok s"
  "events_ok (s\<lparr>mem := x8\<rparr>) = events_ok s"
  "events_ok (s\<lparr>sync_exit := x9\<rparr>) = events_ok s"
  "events_ok (s\<lparr>allocs := x10\<rparr>) = events_ok s"
  "events_ok (s\<lparr>trace := x11\<rparr>) = events_ok s"
  by (simp_all add: events_ok_def)

lemma requests_ok_reads [simp]:
  "requests_ok L (s\<lparr>devices := x0\<rparr>) = requests_ok L s"
  "requests_ok L (s\<lparr>buffers := x1\<rparr>) = requests_ok L s"
  "requests_ok L (s\<lparr>groups := x2\<rparr>) = requests_ok L s"
  "requests_ok L (s\<lparr>next_item := x3\<rparr>) = requests_ok L s"
  "requests_ok L (s\<lparr>ions := x4\<rparr>) = requests_ok L s"
  "requests_ok L (s\<lparr>mem := x5\<rparr>) = requests_ok L s"
  "requests_ok L (s\<lparr>sync_exit := x6\<rparr>) = requests_ok L s"
  "requests_ok L (s\<lparr>allocs := x7\<rparr>) = requests_ok L s"
  "requests_ok L (s\<lparr>trace := x8\<rparr>) = requests_ok L s"
  by (simp_all add: requests_ok_def)

lemma inv_irrelevant [simp]:
  "inv X L (s\<lparr>trace := tr\<rparr>) = inv X L s" "inv X L (s\<lparr>allocs := n\<rparr>) = inv X L s"
  "inv X L (s\<lparr>mem := m\<rparr>) = inv X L s" "inv X L (s\<lparr>sync_exit := e\<rparr>) = inv X L s"
  by (simp_all add: inv_def refs_ok_def store_ok_def)

section \<open>Changing a count\<close>

lemma irefs_count [simp]:
  "devices s p = Some D \<Longrightarrow>
     irefs P (s\<lparr>devices := (devices s)(p \<mapsto> D\<lparr>d_count := c\<rparr>)\<rparr>) = irefs P s"
  "buffers s p = Some B \<Longrightarrow>
     irefs P (s\<lparr>buffers := (buffers s)(p \<mapsto> B\<lparr>b_count := c\<rparr>)\<rparr>) = irefs P s"
  "groups s p = Some G \<Longrightarrow>
     irefs P (s\<lparr>groups := (groups s)(p \<mapsto> G\<lparr>g_count := c\<rparr>)\<rparr>) = irefs P s"
  "queues s p = Some Q \<Longrightarrow> q_count Q \<noteq> 0 \<Longrightarrow> c \<noteq> 0 \<Longrightarrow>
     irefs P (s\<lparr>queues := (queues s)(p \<mapsto> Q\<lparr>q_count := c\<rparr>)\<rparr>) = irefs P s"
  "events s p = Some V \<Longrightarrow> e_count V \<noteq> 0 \<Longrightarrow> c \<noteq> 0 \<Longrightarrow>
     irefs P (s\<lparr>events := (events s)(p \<mapsto> V\<lparr>e_count := c\<rparr>)\<rparr>) = irefs P s"
  by (rule ext, rename_tac ob, case_tac ob;
      simp add: msum_upd_same ref_defs group_buf_def group_bufs_def group_records_def map_refs_def)+

lemma pend_queue_upd [simp]:
  "queues s p = Some Q \<Longrightarrow> pend L (s\<lparr>queues := (queues s)(p \<mapsto> Q')\<rparr>) = pend L s"
  by (auto simp: pend_def split: if_splits)

lemma inv_countI:
  assumes "inv X L s" and "store_ok L s'" and "pend L s' = pend L s"
    and "irefs (pend L s) s' = irefs (pend L s) s"
    and "\<And>ob. ob \<noteq> k \<Longrightarrow> cnt s' ob = cnt s ob" and "cnt s' k + X k = cnt s k + n"
  shows "inv (X(k := n)) L s'"
proof -
  have "cnt s' ob = (X(k := n)) ob + irefs (pend L s) s ob" for ob
    using refs_okD [OF invD(9) [OF assms(1)], of ob] assms(5) [of ob] assms(6)
    by (cases "ob = k") auto
  then show ?thesis using assms(2-4) by (simp add: inv_def refs_ok_def)
qed

lemma cnt_other:
  "ob \<noteq> Dev p \<Longrightarrow> cnt (s\<lparr>devices := (devices s)(p := x)\<rparr>) ob = cnt s ob"
  "ob \<noteq> Buf p \<Longrightarrow> cnt (s\<lparr>buffers := (buffers s)(p := y)\<rparr>) ob = cnt s ob"
  "ob \<noteq> Grp p \<Longrightarrow> cnt (s\<lparr>groups := (groups s)(p := z)\<rparr>) ob = cnt s ob"
  "ob \<noteq> Que p \<Longrightarrow> cnt (s\<lparr>queues := (queues s)(p := u)\<rparr>) ob = cnt s ob"
  "ob \<noteq> Evt p \<Longrightarrow> cnt (s\<lparr>events := (events s)(p := v)\<rparr>) ob = cnt s ob"
  by (cases ob; simp)+

lemma devices_okD:
  "devices_ok s \<Longrightarrow> devices s p = Some D \<Longrightarrow> d_type D = XRP_DEVICE_NORMAL \<Longrightarrow>
   \<exists>I. devices s (inner_device D) = Some I \<and> d_type I = XRP_DEVICE_NEWMODE"
  by (simp add: devices_ok_def)

lemma inner_device_count [simp]: "inner_device (D\<lparr>d_count := c\<rparr>) = inner_device D"
  by (simp add: inner_device_def device_handle_def)

lemma inv_device_count:
  assumes "inv X L s" and "devices s p = Some D" and "c \<noteq> 0"
    and "unat c + X (Dev p) = unat (d_count D) + n"
  shows "inv (X(Dev p := n)) L (s\<lparr>devices := (devices s)(p \<mapsto> D\<lparr>d_count := c\<rparr>)\<rparr>)"
proof (rule inv_countI [OF assms(1)])
  have "devices_ok (s\<lparr>devices := (devices s)(p \<mapsto> D\<lparr>d_count := c\<rparr>)\<rparr>)"
    unfolding devices_ok_def
  proof (intro allI impI)
    fix q D'
    assume "devices (s\<lparr>devices := (devices s)(p \<mapsto> D\<lparr>d_count := c\<rparr>)\<rparr>) q = Some D'"
      and "d_type D' = XRP_DEVICE_NORMAL"
    then obtain Dq where "devices s q = Some Dq" "inner_device D' = inner_device Dq"
      "d_type Dq = XRP_DEVICE_NORMAL"
      using assms(2) by (auto split: if_splits)
    then obtain I where "devices s (inner_device D') = Some I" "d_type I = XRP_DEVICE_NEWMODE"
      using devices_okD [OF invD(3) [OF assms(1)]] by metis
    then show "\<exists>I. devices (s\<lparr>devices := (devices s)(p \<mapsto> D\<lparr>d_count := c\<rparr>)\<rparr>)
        (inner_device D') = Some I \<and> d_type I = XRP_DEVICE_NEWMODE"
      using assms(2) by auto
  qed
  then show "store_ok L (s\<lparr>devices := (devices s)(p \<mapsto> D\<lparr>d_count := c\<rparr>)\<rparr>)"
    using invD(1,2,10) [OF assms(1)] assms(2,3)
    by (auto simp: store_ok_def maps_ok_def counts_ok_def)
qed (use assms in \<open>simp_all add: cnt_other\<close>)

lemma inv_buffer_count:
  assumes "inv X L s" and "buffers s p = Some B" and "c \<noteq> 0"
    and "unat c + X (Buf p) = unat (b_count B) + n"
  shows "inv (X(Buf p := n)) L (s\<lparr>buffers := (buffers s)(p \<mapsto> B\<lparr>b_count := c\<rparr>)\<rparr>)"
proof (rule inv_countI [OF assms(1)])
  have "buffers_ok (s\<lparr>buffers := (buffers s)(p \<mapsto> B\<lparr>b_count := c\<rparr>)\<rparr>)"
    using invD(4) [OF assms(1)] assms(2) unfolding buffers_ok_def by (auto split: if_splits)
  then show "store_ok L (s\<lparr>buffers := (buffers s)(p \<mapsto> B\<lparr>b_count := c\<rparr>)\<rparr>)"
    using invD(1,2,10) [OF assms(1)] assms(2,3)
    by (auto simp: store_ok_def maps_ok_def counts_ok_def)
qed (use assms in \<open>simp_all add: cnt_other\<close>)

lemma inv_group_count:
  assumes "inv X L s" and "groups s p = Some G" and "c \<noteq> 0"
    and "unat c + X (Grp p) = unat (g_count G) + n"
  shows "inv (X(Grp p := n)) L (s\<lparr>groups := (groups s)(p \<mapsto> G\<lparr>g_count := c\<rparr>)\<rparr>)"
proof (rule inv_countI [OF assms(1)])
  show "store_ok L (s\<lparr>groups := (groups s)(p \<mapsto> G\<lparr>g_count := c\<rparr>)\<rparr>)"
    using invD(1,2,5,10) [OF assms(1)] assms(2,3)
    by (auto simp: store_ok_def maps_ok_def counts_ok_def groups_ok_def group_ok_def)
qed (use assms in \<open>simp_all add: cnt_other\<close>)

lemma inv_queue_count:
  assumes "inv X L s" and "queues s p = Some Q" and "c \<noteq> 0" and "q_count Q \<noteq> 0"
    and "unat c + X (Que p) = unat (q_count Q) + n"
  shows "inv (X(Que p := n)) L (s\<lparr>queues := (queues s)(p \<mapsto> Q\<lparr>q_count := c\<rparr>)\<rparr>)"
proof (rule inv_countI [OF assms(1)])
  have "queues_ok L (s\<lparr>queues := (queues s)(p \<mapsto> Q\<lparr>q_count := c\<rparr>)\<rparr>)"
    using invD(6) [OF assms(1)] assms(2,4) by (simp add: queues_ok_def)
  moreover have "requests_ok L (s\<lparr>queues := (queues s)(p \<mapsto> Q\<lparr>q_count := c\<rparr>)\<rparr>)"
    using invD(8) [OF assms(1)] assms(2) by (simp add: requests_ok_def)
  ultimately show "store_ok L (s\<lparr>queues := (queues s)(p \<mapsto> Q\<lparr>q_count := c\<rparr>)\<rparr>)"
    using invD(1,2,10) [OF assms(1)] assms(2,3)
    by (auto simp: store_ok_def maps_ok_def counts_ok_def)
qed (use assms in \<open>simp_all add: cnt_other\<close>)

lemma inv_event_count:
  assumes "inv X L s" and "events s p = Some V" and "c \<noteq> 0" and "e_count V \<noteq> 0"
    and "unat c + X (Evt p) = unat (e_count V) + n"
  shows "inv (X(Evt p := n)) L (s\<lparr>events := (events s)(p \<mapsto> V\<lparr>e_count := c\<rparr>)\<rparr>)"
proof (rule inv_countI [OF assms(1)])
  have "requests_ok L (s\<lparr>events := (events s)(p \<mapsto> V\<lparr>e_count := c\<rparr>)\<rparr>)"
    using invD(8) [OF assms(1)] assms(2) unfolding requests_ok_def by fastforce
  then show "store_ok L (s\<lparr>events := (events s)(p \<mapsto> V\<lparr>e_count := c\<rparr>)\<rparr>)"
    using invD(1,2,7,10) [OF assms(1)] assms(2,3)
    by (auto simp: store_ok_def maps_ok_def counts_ok_def events_ok_def)
qed (use assms in \<open>simp_all add: cnt_other\<close>)

end
