(* ===== verification/Xrp_Device.thy ===== *)
theory Xrp_Device
  imports Xrp_Refs
begin

text \<open>
  The device component: opening a device on a kernel descriptor
  (\<open>xrp_open_device_newmode\<close>) or through the vdsp interface (\<open>xrp_open_device\<close>, which
  wraps such a device in a handle), retaining and releasing it. Releasing a wrapping device
  releases the device it wraps, so \<open>xrp_release_device\<close> is recursive: xrp_linux.c,
  vdsp_interface.cpp and vdsp_interface_internal.c call each other. The recursion carries
  fuel; a wrapped device never wraps another one, so two levels are enough
  (\<open>release_device_eq\<close> shows that the call returns in every well-formed store).
\<close>

section \<open>Opening a device\<close>

fun decimal :: "nat \<Rightarrow> string" where
  "decimal n = (if n < 10 then [char_of (48 + n)]
                else decimal (n div 10) @ [char_of (48 + n mod 10)])"

declare decimal.simps [simp del]

text \<open>\<open>sprintf(name, "/dev/vdsp%u", idx)\<close>.\<close>

definition dev_name :: "i32 \<Rightarrow> string" where
  "dev_name idx = ''/dev/vdsp'' @ decimal (unat idx)"

definition xrp_open_device_newmode ::
    "env \<Rightarrow> i32 \<Rightarrow> xrp_open_type \<Rightarrow> xrp_state \<Rightarrow> ptr \<times> xrp_status \<times> xrp_state" where
  "xrp_open_device_newmode E idx type s =
     (let name = dev_name idx;
          (fd, s) = (case type of
              XRP_OPEN_NORMAL_TYPE \<Rightarrow>
                (let (a, s) = sys E (Sys_open name [O_RDONLY, O_CLOEXEC]) s in (ans_ret a, s))
            | XRP_OPEN_FACEID_TYPE \<Rightarrow>
                (let (a, s) = sys E (Sys_open name [O_RDWR, O_CLOEXEC]) s in (ans_ret a, s))
            | _ \<Rightarrow> (- 1, s))
      in if fd = - 1 then (0, XRP_STATUS_FAILURE, s)
         else (let (device, count, s) = alloc_refcounted E s
               in if device = 0
                  then (let (_, s) = sys E (Sys_close fd) s in (0, XRP_STATUS_FAILURE, s))
                  else (device, XRP_STATUS_SUCCESS,
                        s\<lparr>devices := (devices s)(device \<mapsto>
                            \<lparr>d_count = count, d_fd = fd, d_generation = 0,
                             d_type = XRP_DEVICE_NEWMODE\<rparr>)\<rparr>)))"

text \<open>vdsp_interface_internal.c; the null pointer is a failure.\<close>

definition sprd_vdsp_open_device ::
    "env \<Rightarrow> i32 \<Rightarrow> sprd_vdsp_worktype \<Rightarrow> xrp_state \<Rightarrow> ptr \<times> xrp_state" where
  "sprd_vdsp_open_device E idx type s = (case type of
       SPRD_VDSP_WORK_NORMAL \<Rightarrow>
         (let (device, _, s) = xrp_open_device_newmode E idx XRP_OPEN_NORMAL_TYPE s in (device, s))
     | SPRD_VDSP_WORK_FACEID \<Rightarrow>
         (let (device, _, s) = xrp_open_device_newmode E idx XRP_OPEN_FACEID_TYPE s in (device, s))
     | _ \<Rightarrow> (0, s))"

section \<open>Retaining and releasing\<close>

definition xrp_retain_device :: "ptr \<Rightarrow> xrp_state \<Rightarrow> xrp_state option" where
  "xrp_retain_device p s =
     do { D \<leftarrow> devices s p;
          Some (s\<lparr>devices := (devices s)(p \<mapsto> D\<lparr>d_count := retain_refcounted (d_count D)\<rparr>)\<rparr>) }"

text \<open>
  The three functions between one \<open>xrp_release_device\<close> and the next take the recursive call
  as their first argument.
\<close>

definition sprd_vdsp_release_device ::
    "(ptr \<Rightarrow> xrp_state \<Rightarrow> xrp_state option) \<Rightarrow> ptr \<Rightarrow> xrp_state \<Rightarrow> xrp_state option" where
  "sprd_vdsp_release_device release device s = release device s"

definition sprd_cavdsp_close_device ::
    "(ptr \<Rightarrow> xrp_state \<Rightarrow> xrp_state option) \<Rightarrow> vdsp_handle option \<Rightarrow> xrp_state
       \<Rightarrow> (sprd_vdsp_result \<times> xrp_state) option" where
  "sprd_cavdsp_close_device release handle s = (case handle of
       None \<Rightarrow> Some (SPRD_VDSP_RESULT_FAIL, s)
     | Some vdsphnd \<Rightarrow>
         (let hnd = join_handle vdsphnd
          in if hnd = 0 then Some (SPRD_VDSP_RESULT_FAIL, s)
             else do { s \<leftarrow> sprd_vdsp_release_device release hnd s;
                       Some (SPRD_VDSP_RESULT_SUCCESS, s) }))"

definition xrp_impl_release_device ::
    "(ptr \<Rightarrow> xrp_state \<Rightarrow> xrp_state option) \<Rightarrow> env \<Rightarrow> xrp_device \<Rightarrow> xrp_state
       \<Rightarrow> xrp_state option" where
  "xrp_impl_release_device release E D s = (case d_type D of
       XRP_DEVICE_NORMAL \<Rightarrow>
         do { (_, s) \<leftarrow> sprd_cavdsp_close_device release (Some (device_handle D)) s; Some s }
     | XRP_DEVICE_NEWMODE \<Rightarrow> (let (_, s) = sys E (Sys_close (d_fd D)) s in Some s))"

fun release_device_fuel :: "nat \<Rightarrow> env \<Rightarrow> ptr \<Rightarrow> xrp_state \<Rightarrow> xrp_state option" where
  "release_device_fuel 0 E p s = None"
| "release_device_fuel (Suc n) E p s =
     do { D \<leftarrow> devices s p;
          let (last, c) = last_release_refcounted (d_count D);
          let D = D\<lparr>d_count := c\<rparr>;
          let s = s\<lparr>devices := (devices s)(p \<mapsto> D)\<rparr>;
          if last
          then do { s \<leftarrow> xrp_impl_release_device (release_device_fuel n E) E D s;
                    Some (s\<lparr>devices := (devices s)(p := None)\<rparr>) }
          else Some s }"

definition xrp_release_device :: "env \<Rightarrow> ptr \<Rightarrow> xrp_state \<Rightarrow> xrp_state option" where
  "xrp_release_device E p s = release_device_fuel 2 E p s"

section \<open>The vdsp interface to a device\<close>

text \<open>\<open>handle\<close> says whether the caller passed a handle to fill.\<close>

definition sprd_cavdsp_open_device ::
    "env \<Rightarrow> sprd_vdsp_worktype \<Rightarrow> bool \<Rightarrow> xrp_state
       \<Rightarrow> (sprd_vdsp_result \<times> vdsp_handle option \<times> xrp_state) option" where
  "sprd_cavdsp_open_device E type handle s =
     (let (hnddev, s) = sprd_vdsp_open_device E 0 type s
      in if hnddev = 0 \<or> \<not> handle
         then (if hnddev \<noteq> 0
               then do { s \<leftarrow> sprd_vdsp_release_device (xrp_release_device E) hnddev s;
                         Some (SPRD_VDSP_RESULT_FAIL, None, s) }
               else Some (SPRD_VDSP_RESULT_FAIL, None, s))
         else Some (SPRD_VDSP_RESULT_SUCCESS, Some (split_handle hnddev), s))"

definition translate_opentype :: "xrp_open_type \<Rightarrow> sprd_vdsp_worktype" where
  "translate_opentype type = (case type of
       XRP_OPEN_NORMAL_TYPE \<Rightarrow> SPRD_VDSP_WORK_NORMAL
     | XRP_OPEN_FACEID_TYPE \<Rightarrow> SPRD_VDSP_WORK_FACEID
     | _ \<Rightarrow> SPRD_VDSP_WORK_MAXTYPE)"

definition xrp_open_device ::
    "env \<Rightarrow> i32 \<Rightarrow> xrp_open_type \<Rightarrow> xrp_state \<Rightarrow> (ptr \<times> xrp_status \<times> xrp_state) option" where
  "xrp_open_device E idx type s =
     do { (ret, handle, s) \<leftarrow> sprd_cavdsp_open_device E (translate_opentype type) True s;
          case handle of None \<Rightarrow> Some (0, XRP_STATUS_FAILURE, s)
          | Some handle \<Rightarrow>
            (if ret \<noteq> SPRD_VDSP_RESULT_SUCCESS then Some (0, XRP_STATUS_FAILURE, s)
             else (let (device, count, s) = alloc_refcounted E s
                   in if device = 0 then Some (0, XRP_STATUS_FAILURE, s)
                      else Some (device, XRP_STATUS_SUCCESS,
                             s\<lparr>devices := (devices s)(device \<mapsto>
                                 \<lparr>d_count = count, d_fd = vh_fd handle,
                                  d_generation = vh_generation handle,
                                  d_type = XRP_DEVICE_NORMAL\<rparr>)\<rparr>))) }"

section \<open>What a release does\<close>

definition release_map :: "(ptr \<rightharpoonup> xrp_device) \<Rightarrow> ptr \<Rightarrow> (ptr \<rightharpoonup> xrp_device)" where
  "release_map m p = (case m p of None \<Rightarrow> m
     | Some D \<Rightarrow> if d_count D = 1 then m(p := None) else m(p \<mapsto> D\<lparr>d_count := d_count D - 1\<rparr>))"

definition release_calls :: "(ptr \<rightharpoonup> xrp_device) \<Rightarrow> ptr \<Rightarrow> syscall list" where
  "release_calls m p = (case m p of None \<Rightarrow> []
     | Some D \<Rightarrow> if d_count D = 1 \<and> d_type D = XRP_DEVICE_NEWMODE then [Sys_close (d_fd D)] else [])"

text \<open>The devices and the calls after a release, the wrapped device included.\<close>

definition released_devices :: "(ptr \<rightharpoonup> xrp_device) \<Rightarrow> ptr \<Rightarrow> (ptr \<rightharpoonup> xrp_device)" where
  "released_devices m p = (case m p of
       Some D \<Rightarrow> (if d_count D = 1 \<and> d_type D = XRP_DEVICE_NORMAL
                  then release_map (release_map m p) (inner_device D) else release_map m p)
     | None \<Rightarrow> m)"

definition released_calls :: "(ptr \<rightharpoonup> xrp_device) \<Rightarrow> ptr \<Rightarrow> syscall list" where
  "released_calls m p = (case m p of
       Some D \<Rightarrow> (if d_count D = 1 \<and> d_type D = XRP_DEVICE_NORMAL
                  then release_calls m (inner_device D) else release_calls m p)
     | None \<Rightarrow> [])"

lemma release_newmode:
  assumes "devices s p = Some D" and "d_type D = XRP_DEVICE_NEWMODE"
  shows "release_device_fuel (Suc n) E p s =
    Some (s\<lparr>devices := release_map (devices s) p, trace := trace s @ release_calls (devices s) p\<rparr>)"
  using assms
  by (simp add: last_release_refcounted_def xrp_impl_release_device_def sys_def release_map_def
      release_calls_def Let_def)

lemma release_device_eq:
  assumes ok: "devices_ok s" and z: "devices s 0 = None" and p: "devices s p = Some D"
  shows "xrp_release_device E p s =
    Some (s\<lparr>devices := released_devices (devices s) p,
            trace := trace s @ released_calls (devices s) p\<rparr>)"
proof (cases "d_count D = 1 \<and> d_type D = XRP_DEVICE_NORMAL")
  case False
  then show ?thesis
  proof (cases "d_type D")
    case XRP_DEVICE_NEWMODE
    then show ?thesis using p release_newmode [of s p D "Suc 0" E]
      by (simp add: xrp_release_device_def released_devices_def released_calls_def
          numeral_2_eq_2 del: release_device_fuel.simps)
  next
    case XRP_DEVICE_NORMAL
    with False p show ?thesis
      by (simp add: xrp_release_device_def last_release_refcounted_def release_map_def
          release_calls_def released_devices_def released_calls_def numeral_2_eq_2)
  qed
next
  case True
  define i where "i = inner_device D"
  obtain I where I: "devices s i = Some I" "d_type I = XRP_DEVICE_NEWMODE"
    using devices_okD [OF ok p] True by (auto simp: i_def)
  have ne: "i \<noteq> p" "i \<noteq> 0" using I True p z by auto
  define s1 where "s1 = s\<lparr>devices := (devices s)(p \<mapsto> D\<lparr>d_count := 0\<rparr>)\<rparr>"
  have jh: "join_handle (device_handle (D\<lparr>d_count := 0\<rparr>)) = i"
    by (simp add: i_def inner_device_def device_handle_def)
  have outer: "release_device_fuel (Suc (Suc 0)) E p s =
      do { s \<leftarrow> release_device_fuel (Suc 0) E i s1; Some (s\<lparr>devices := (devices s)(p := None)\<rparr>) }"
    apply (subst release_device_fuel.simps(2))
    using p True ne jh
    by (simp add: last_release_refcounted_def xrp_impl_release_device_def
        sprd_cavdsp_close_device_def sprd_vdsp_release_device_def s1_def [symmetric] Let_def
        del: release_device_fuel.simps)
  have inner: "release_device_fuel (Suc 0) E i s1 = Some (s1\<lparr>devices := release_map (devices s1) i,
      trace := trace s1 @ release_calls (devices s1) i\<rparr>)"
    using I ne by (intro release_newmode) (simp_all add: s1_def)
  have "(release_map (devices s1) i)(p := None) = release_map ((devices s)(p := None)) i"
    using I ne by (auto simp: release_map_def s1_def)
  moreover have "release_calls (devices s1) i = release_calls (devices s) i"
    using ne by (simp add: release_calls_def s1_def)
  moreover have "release_map (devices s) p = (devices s)(p := None)"
    using p True by (simp add: release_map_def)
  ultimately show ?thesis using p True
    by (simp add: xrp_release_device_def numeral_2_eq_2 outer inner released_devices_def
        released_calls_def i_def [symmetric] del: release_device_fuel.simps) (simp add: s1_def)
qed

section \<open>The invariant\<close>

lemma dead_refs:
  assumes "inv X L s" and "cnt s ob = 0"
  shows "X ob = 0" and "irefs (pend L s) s ob = 0"
  using refs_okD [OF invD(9) [OF assms(1)], of ob] assms(2) by auto

lemma retain_count:
  assumes "unat c + 1 < 2 ^ 64"
  shows "retain_refcounted c \<noteq> 0" and "unat (retain_refcounted c) = unat c + 1"
proof -
  show u: "unat (retain_refcounted c) = unat c + 1"
    using unat_inc [OF assms] by (simp add: retain_refcounted_def)
  show "retain_refcounted c \<noteq> 0"
  proof
    assume "retain_refcounted c = 0"
    with u show False by simp
  qed
qed

lemma release_count:
  assumes "(c :: 64 word) \<noteq> 0" and "c \<noteq> 1"
  shows "c - 1 \<noteq> 0" and "unat (c - 1) = unat c - 1" and "1 < unat c"
proof -
  show "c - 1 \<noteq> 0" using assms(2) by simp
  show "unat (c - 1) = unat c - 1" using assms(1) by (rule unat_dec)
  have "unat c \<noteq> 0" using assms(1) by (simp add: unat_eq_zero)
  moreover have "unat c \<noteq> 1" using assms(2) unat_eq_one by blast
  ultimately show "1 < unat c" by linarith
qed

lemma retain_device_inv:
  assumes "inv X L s" and "0 < cnt s (Dev p)" and "cnt s (Dev p) + 1 < 2 ^ 64"
  shows "returns (xrp_retain_device p s) (inv (X(Dev p := X (Dev p) + 1)) L)"
proof -
  obtain D where D: "devices s p = Some D" using assms(2) by (auto split: option.splits)
  then have c: "unat (d_count D) + 1 < 2 ^ 64" using assms(3) by simp
  show ?thesis using retain_count [OF c] D
    by (simp add: xrp_retain_device_def inv_device_count [OF assms(1)])
qed

lemma inv_device_new:
  assumes i: "inv X L s" and p: "p \<noteq> 0" "devices s p = None"
    and m: "m = (devices s)(p \<mapsto> D)" and D: "d_count D = 1" "d_type D = XRP_DEVICE_NEWMODE"
  shows "inv (X(Dev p := 1)) L (s\<lparr>devices := m\<rparr>)"
  unfolding m
proof -
  let ?s = "s\<lparr>devices := (devices s)(p \<mapsto> D)\<rparr>"
  have fin: "finite (dom (devices s))" using invD(1) [OF i] by (simp add: maps_ok_def)
  have z: "X (Dev p) = 0" "irefs (pend L s) s (Dev p) = 0"
    using dead_refs [OF i, of "Dev p"] p by simp_all
  have "irefs (pend L s) ?s ob = irefs (pend L s) s ob" for ob
    using fin p D by (cases ob) (simp_all add: msum_new device_dev_def)
  moreover have "cnt ?s ob = (if ob = Dev p then 1 else cnt s ob)" for ob
    using D by (cases ob) simp_all
  ultimately have "refs_ok (X(Dev p := 1)) (pend L s) ?s"
    using refs_okD [OF invD(9) [OF i]] z by (simp add: refs_ok_def)
  moreover have "devices_ok ?s"
    unfolding devices_ok_def
  proof (intro allI impI)
    fix q D'
    assume "devices ?s q = Some D'" and n: "d_type D' = XRP_DEVICE_NORMAL"
    then have "devices s q = Some D'" using D by (auto split: if_splits)
    from devices_okD [OF invD(3) [OF i] this n]
    show "\<exists>I. devices ?s (inner_device D') = Some I \<and> d_type I = XRP_DEVICE_NEWMODE"
      using p by auto
  qed
  ultimately show "inv (X(Dev p := 1)) L ?s" using invD(1,2,10) [OF i] p D
    by (auto simp: inv_def store_ok_def maps_ok_def counts_ok_def simp del: One_nat_def)
qed

lemma inv_device_gone:
  assumes i: "inv X L s" and p: "devices s p = Some D" "d_count D = 1" and x: "X (Dev p) = 1"
  shows "inv ((if d_type D = XRP_DEVICE_NORMAL
               then X(Dev (inner_device D) := X (Dev (inner_device D)) + 1) else X)(Dev p := 0)) L
           (s\<lparr>devices := (devices s)(p := None)\<rparr>)"
    (is "inv ?X L ?s")
proof -
  have fin: "finite (dom (devices s))" using invD(1) [OF i] by (simp add: maps_ok_def)
  have z: "irefs (pend L s) s (Dev p) = 0"
    using refs_okD [OF invD(9) [OF i], of "Dev p"] p x by simp
  then have no: "device_dev p D' = 0" if "devices s q = Some D'" for q D'
    using msum_zeroD [OF fin _ that, of "device_dev p"] by simp
  have "refs_ok ?X (pend L s) ?s"
    unfolding refs_ok_def
  proof
    fix ob
    have "irefs (pend L s) s ob = irefs (pend L s) ?s ob +
        (case ob of Dev k \<Rightarrow> device_dev k D | _ \<Rightarrow> 0)"
      by (cases ob) (simp_all add: msum_split [OF fin p(1)])
    moreover have "cnt ?s ob = (if ob = Dev p then 0 else cnt s ob)" by (cases ob) simp_all
    moreover have "?X ob + (if ob = Dev p then 1 else 0) =
        X ob + (case ob of Dev k \<Rightarrow> device_dev k D | _ \<Rightarrow> 0)"
      using x no [OF p(1)] by (cases ob) (auto simp: device_dev_def)
    ultimately show "cnt ?s ob = ?X ob + irefs (pend L s) ?s ob"
      using refs_okD [OF invD(9) [OF i], of ob] p z by (auto split: if_splits)
  qed
  moreover have "devices_ok ?s"
    unfolding devices_ok_def
  proof (intro allI impI)
    fix q D'
    assume "devices ?s q = Some D'" and n: "d_type D' = XRP_DEVICE_NORMAL"
    then have q: "devices s q = Some D'" by (auto split: if_splits)
    then have "inner_device D' \<noteq> p" using no n by (auto simp: device_dev_def)
    then show "\<exists>I. devices ?s (inner_device D') = Some I \<and> d_type I = XRP_DEVICE_NEWMODE"
      using devices_okD [OF invD(3) [OF i] q n] by auto
  qed
  ultimately show ?thesis using invD(1,2,10) [OF i]
    by (auto simp: inv_def store_ok_def maps_ok_def counts_ok_def)
qed

lemma release_map_inv:
  assumes i: "inv X L s" and p: "devices s p = Some D" and x: "0 < X (Dev p)"
    and t: "d_count D = 1 \<Longrightarrow> d_type D = XRP_DEVICE_NEWMODE"
  shows "inv (X(Dev p := X (Dev p) - 1)) L (s\<lparr>devices := release_map (devices s) p\<rparr>)"
proof (cases "d_count D = 1")
  case True
  then have "X (Dev p) = 1" using refs_okD [OF invD(9) [OF i], of "Dev p"] p x by simp
  then show ?thesis using inv_device_gone [OF i p True] t True p by (simp add: release_map_def)
next
  case False
  have "d_count D \<noteq> 0" using invD(2) [OF i] p by (auto simp: counts_ok_def)
  from release_count [OF this False] show ?thesis using p x False
    by (simp add: release_map_def) (rule inv_device_count [OF i p]; simp)
qed

lemma released_devices_inv:
  assumes i: "inv X L s" and x: "0 < X (Dev p)"
  shows "inv (X(Dev p := X (Dev p) - 1)) L (s\<lparr>devices := released_devices (devices s) p\<rparr>)"
proof -
  obtain D where p: "devices s p = Some D" using owned_live(1) [OF i x] by blast
  show ?thesis
  proof (cases "d_count D = 1 \<and> d_type D = XRP_DEVICE_NORMAL")
    case False
    then show ?thesis using release_map_inv [OF i p x] p
      by (cases "d_type D") (simp_all add: released_devices_def)
  next
    case True
    define k where "k = inner_device D"
    obtain I where I: "devices s k = Some I" "d_type I = XRP_DEVICE_NEWMODE"
      using devices_okD [OF invD(3) [OF i] p] True by (auto simp: k_def)
    have ne: "k \<noteq> p" using I p True by auto
    have x1: "X (Dev p) = 1" using refs_okD [OF invD(9) [OF i], of "Dev p"] p x True by simp
    have "inv (X(Dev k := X (Dev k) + 1, Dev p := 0)) L (s\<lparr>devices := (devices s)(p := None)\<rparr>)"
      using inv_device_gone [OF i p _ x1] True by (simp add: k_def)
    from release_map_inv [OF this, of k I] I ne
    have "inv (X(Dev k := X (Dev k) + 1, Dev p := 0, Dev k := X (Dev k))) L
        (s\<lparr>devices := release_map ((devices s)(p := None)) k\<rparr>)" by simp
    moreover have "X(Dev k := X (Dev k) + 1, Dev p := 0, Dev k := X (Dev k)) = X(Dev p := 0)"
      using ne by auto
    ultimately show ?thesis using p True x1
      by (simp add: released_devices_def release_map_def k_def)
  qed
qed

lemma release_device_inv:
  assumes i: "inv X L s" and x: "0 < X (Dev p)"
  shows "returns (xrp_release_device E p s) (inv (X(Dev p := X (Dev p) - 1)) L)"
  using released_devices_inv [OF i x] owned_live(1) [OF i x] invD(1,3) [OF i]
  by (auto simp: release_device_eq maps_ok_def)

section \<open>Opening\<close>

lemma decimal_length: "n < 10 ^ Suc k \<Longrightarrow> length (decimal n) \<le> Suc k"
proof (induction k arbitrary: n)
  case 0
  then show ?case by (subst decimal.simps) simp
next
  case (Suc k)
  show ?case
  proof (cases "n < 10")
    case True
    then show ?thesis by (subst decimal.simps) simp
  next
    case False
    have "n div 10 < 10 ^ Suc k" using Suc.prems by (simp add: less_mult_imp_div_less)
    then have "length (decimal (n div 10)) \<le> Suc k" by (rule Suc.IH)
    moreover have "decimal n = decimal (n div 10) @ [char_of (48 + n mod 10)]"
      using False by (subst decimal.simps) simp
    ultimately show ?thesis by simp
  qed
qed

definition open_flags :: "xrp_open_type \<Rightarrow> open_flag list" where
  "open_flags type = (if type = XRP_OPEN_FACEID_TYPE then [O_RDWR, O_CLOEXEC]
                      else [O_RDONLY, O_CLOEXEC])"

lemma open_newmode_cases:
  assumes "xrp_open_device_newmode E idx type s = (d, st, s')"
  obtains (no_fd) n tr where "d = 0" "st = XRP_STATUS_FAILURE" "s' = s\<lparr>allocs := n, trace := tr\<rparr>"
  | (opened) fd n tr where "d \<noteq> 0" "fresh s d" "st = XRP_STATUS_SUCCESS" "fd \<noteq> - 1"
      "n = Suc (allocs s)" "tr = trace s @ [Sys_open (dev_name idx) (open_flags type)]"
      "fd = ans_ret (env_sys E (trace s) (Sys_open (dev_name idx) (open_flags type)))"
      "s' = s\<lparr>allocs := n, trace := tr, devices := (devices s)(d \<mapsto>
         \<lparr>d_count = 1, d_fd = fd, d_generation = 0, d_type = XRP_DEVICE_NEWMODE\<rparr>)\<rparr>"
proof (cases "type = XRP_OPEN_TYPE_MAX")
  case True
  then show thesis using assms no_fd [where n = "allocs s" and tr = "trace s"]
    by (simp add: xrp_open_device_newmode_def)
next
  case False
  define c where "c = Sys_open (dev_name idx) (open_flags type)"
  define fd where "fd = ans_ret (env_sys E (trace s) c)"
  define s1 where "s1 = s\<lparr>trace := trace s @ [c]\<rparr>"
  define p where "p = new_ptr E s"
  have f: "p \<noteq> 0 \<Longrightarrow> fresh s p" using new_ptr_fresh [of E s] by (simp add: p_def)
  have "xrp_open_device_newmode E idx type s =
     (if fd = - 1 then (0, XRP_STATUS_FAILURE, s1)
      else if p = 0 then (0, XRP_STATUS_FAILURE,
        s1\<lparr>allocs := Suc (allocs s1), trace := trace s1 @ [Sys_close fd]\<rparr>)
      else (p, XRP_STATUS_SUCCESS, s1\<lparr>allocs := Suc (allocs s1), devices := (devices s)(p \<mapsto>
         \<lparr>d_count = 1, d_fd = fd, d_generation = 0, d_type = XRP_DEVICE_NEWMODE\<rparr>)\<rparr>))"
    using False unfolding s1_def fd_def c_def
    by (cases type) (simp_all add: xrp_open_device_newmode_def sys_def open_flags_def
      alloc_refcounted_eq p_def Let_def)
  then have eq: "(d, st, s') = (if fd = - 1 then (0, XRP_STATUS_FAILURE, s1)
      else if p = 0 then (0, XRP_STATUS_FAILURE,
        s1\<lparr>allocs := Suc (allocs s1), trace := trace s1 @ [Sys_close fd]\<rparr>)
      else (p, XRP_STATUS_SUCCESS, s1\<lparr>allocs := Suc (allocs s1), devices := (devices s)(p \<mapsto>
         \<lparr>d_count = 1, d_fd = fd, d_generation = 0, d_type = XRP_DEVICE_NEWMODE\<rparr>)\<rparr>))"
    using assms by simp
  consider "fd = - 1" | "fd \<noteq> - 1" "p = 0" | "fd \<noteq> - 1" "p \<noteq> 0" by blast
  then show thesis
  proof cases
    case 1
    with eq show thesis
      by (intro no_fd [where n = "allocs s" and tr = "trace s @ [c]"]) (simp_all add: s1_def)
  next
    case 2
    with eq show thesis
      by (intro no_fd [where n = "Suc (allocs s)" and tr = "trace s @ [c, Sys_close fd]"])
        (simp_all add: s1_def)
  next
    case 3
    with eq f show thesis
      by (intro opened [where n = "Suc (allocs s)" and tr = "trace s @ [c]" and fd = fd])
        (simp_all add: s1_def c_def fd_def)
  qed
qed

lemma open_newmode_inv:
  assumes i: "inv X L s" and o: "xrp_open_device_newmode E idx type s = (d, st, s')"
  shows "if d = 0 then st = XRP_STATUS_FAILURE \<and> inv X L s'
         else st = XRP_STATUS_SUCCESS \<and> fresh s d \<and> inv (X(Dev d := 1)) L s' \<and>
              (\<exists>D. devices s' d = Some D \<and> d_type D = XRP_DEVICE_NEWMODE)"
  using o
proof (cases rule: open_newmode_cases)
  case no_fd
  then show ?thesis using i by simp
next
  case (opened fd n tr)
  have "inv (X(Dev d := 1)) L s'"
    unfolding opened(8)
    by (rule inv_device_new [of X L "s\<lparr>allocs := n, trace := tr\<rparr>" d _ "\<lparr>d_count = 1, d_fd = fd,
        d_generation = 0, d_type = XRP_DEVICE_NEWMODE\<rparr>"])
      (use i opened(1,2) in \<open>simp_all add: fresh_def\<close>)
  then show ?thesis using opened by simp
qed

lemma inv_device_wrap:
  assumes i: "inv X L s" and p: "p \<noteq> 0" "devices s p = None"
    and m: "m = (devices s)(p \<mapsto> D)" and D: "d_count D = 1" "d_type D = XRP_DEVICE_NORMAL"
    and k: "k = inner_device D" "0 < X (Dev k)"
    and I: "devices s k = Some I" "d_type I = XRP_DEVICE_NEWMODE"
  shows "inv (X(Dev p := 1, Dev k := X (Dev k) - 1)) L (s\<lparr>devices := m\<rparr>)"
  unfolding m
proof -
  let ?s = "s\<lparr>devices := (devices s)(p \<mapsto> D)\<rparr>" and ?X = "X(Dev p := 1, Dev k := X (Dev k) - 1)"
  have fin: "finite (dom (devices s))" using invD(1) [OF i] by (simp add: maps_ok_def)
  have ne: "k \<noteq> p" using p I by auto
  have z: "X (Dev p) = 0" "irefs (pend L s) s (Dev p) = 0"
    using dead_refs [OF i, of "Dev p"] p by simp_all
  have "cnt ?s ob = ?X ob + irefs (pend L s) ?s ob" for ob
  proof -
    have "irefs (pend L s) ?s ob = irefs (pend L s) s ob + (if ob = Dev k then 1 else 0)"
      using fin p D k by (cases ob) (simp_all add: msum_new device_dev_def)
    moreover have "cnt ?s ob = (if ob = Dev p then 1 else cnt s ob)"
      using D by (cases ob) simp_all
    ultimately show ?thesis
      using refs_okD [OF invD(9) [OF i], of ob] z k(2) ne
      by (simp del: cnt.simps irefs.simps)
  qed
  then have "refs_ok ?X (pend L s) ?s" by (simp add: refs_ok_def)
  moreover have "devices_ok ?s"
    unfolding devices_ok_def
  proof (intro allI impI)
    fix q D'
    assume "devices ?s q = Some D'" and n: "d_type D' = XRP_DEVICE_NORMAL"
    then have "D' = D \<or> devices s q = Some D'" by (cases "q = p") simp_all
    then show "\<exists>I. devices ?s (inner_device D') = Some I \<and> d_type I = XRP_DEVICE_NEWMODE"
    proof
      assume "D' = D"
      then show ?thesis using I ne k by simp
    next
      assume q: "devices s q = Some D'"
      then show ?thesis using devices_okD [OF invD(3) [OF i] q n] p by auto
    qed
  qed
  ultimately show "inv ?X L ?s" using invD(1,2,10) [OF i] p D
    by (auto simp: inv_def store_ok_def maps_ok_def counts_ok_def simp del: One_nat_def)
qed

lemma sprd_vdsp_open_device_inv:
  assumes i: "inv X L s" and o: "sprd_vdsp_open_device E idx type s = (d, s')"
  shows "if d = 0 then inv X L s'
         else fresh s d \<and> inv (X(Dev d := 1)) L s' \<and>
              (\<exists>D. devices s' d = Some D \<and> d_type D = XRP_DEVICE_NEWMODE)"
proof (cases "type = SPRD_VDSP_WORK_MAXTYPE")
  case True
  then show ?thesis using o i by (simp add: sprd_vdsp_open_device_def)
next
  case False
  define ot where "ot = (if type = SPRD_VDSP_WORK_NORMAL then XRP_OPEN_NORMAL_TYPE
    else XRP_OPEN_FACEID_TYPE)"
  obtain st where "xrp_open_device_newmode E idx ot s = (d, st, s')"
    using False o unfolding ot_def
    by (cases type) (auto simp: sprd_vdsp_open_device_def split: prod.splits)
  from open_newmode_inv [OF i this] show ?thesis by (auto split: if_splits)
qed

text \<open>A handle \<open>sprd_cavdsp_open_device\<close> returns designates a live device that its caller
  owns; without a handle to fill, the device is released again.\<close>

lemma cavdsp_open_inv:
  assumes i: "inv X L s"
  shows "returns (sprd_cavdsp_open_device E type given s) (\<lambda>(r, h, s').
    (r = SPRD_VDSP_RESULT_FAIL \<and> h = None \<and> inv X L s') \<or>
    (given \<and> r = SPRD_VDSP_RESULT_SUCCESS \<and> (\<exists>d D. h = Some (split_handle d) \<and> d \<noteq> 0 \<and>
       fresh s d \<and> devices s' d = Some D \<and> d_type D = XRP_DEVICE_NEWMODE \<and>
       inv (X(Dev d := 1)) L s')))"
proof -
  obtain d s1 where o: "sprd_vdsp_open_device E 0 type s = (d, s1)" by fastforce
  note r = sprd_vdsp_open_device_inv [OF i o]
  show ?thesis
  proof (cases "d = 0 \<or> given")
    case True
    then show ?thesis using r by (auto simp: sprd_cavdsp_open_device_def o split: if_splits)
  next
    case False
    then have x: "X (Dev d) = 0" using r dead_refs(1) [OF i, of "Dev d"] by (simp add: fresh_def)
    have "inv (X(Dev d := 1)) L s1" using r False by simp
    from release_device_inv [OF this, of d E] False x
    have "returns (xrp_release_device E d s1) (inv X L)"
      by (simp add: fun_upd_idem)
    then show ?thesis using False
      by (auto simp: sprd_cavdsp_open_device_def o sprd_vdsp_release_device_def elim: returns_mono)
  qed
qed

lemma cavdsp_close_inv:
  assumes i: "inv X L s" and x: "0 < X (Dev (join_handle h))"
  shows "returns (sprd_cavdsp_close_device (xrp_release_device E) (Some h) s)
    (\<lambda>(r, s'). r = SPRD_VDSP_RESULT_SUCCESS \<and>
       inv (X(Dev (join_handle h) := X (Dev (join_handle h)) - 1)) L s')"
proof -
  have "join_handle h \<noteq> 0" using owned_live(1) [OF i x] invD(1) [OF i] by (auto simp: maps_ok_def)
  then show ?thesis using release_device_inv [OF i x, of E]
    by (simp add: sprd_cavdsp_close_device_def sprd_vdsp_release_device_def Let_def)
qed

text \<open>
  \<open>xrp_open_device\<close>: on success the caller owns the new device, which holds the only
  reference to the device it wraps. When the second allocation fails the wrapped device keeps
  its reference and nobody holds it: the handle is lost and its descriptor stays open.
\<close>

lemma open_device_inv:
  assumes i: "inv X L s"
  shows "returns (xrp_open_device E idx type s) (\<lambda>(d, st, s').
    (d = 0 \<and> st = XRP_STATUS_FAILURE \<and>
       (inv X L s' \<or> (\<exists>k. fresh s k \<and> inv (X(Dev k := 1)) L s'))) \<or>
    (d \<noteq> 0 \<and> st = XRP_STATUS_SUCCESS \<and> X (Dev d) = 0 \<and> inv (X(Dev d := 1)) L s'))"
proof -
  obtain x where ox: "sprd_cavdsp_open_device E (translate_opentype type) True s = Some x"
    and rx: "(case x of (r, h, s1) \<Rightarrow> (r = SPRD_VDSP_RESULT_FAIL \<and> h = None \<and> inv X L s1) \<or>
    (True \<and> r = SPRD_VDSP_RESULT_SUCCESS \<and> (\<exists>k D. h = Some (split_handle k) \<and> k \<noteq> 0 \<and>
       fresh s k \<and> devices s1 k = Some D \<and> d_type D = XRP_DEVICE_NEWMODE \<and>
       inv (X(Dev k := 1)) L s1)))"
    by (rule returnsE [OF cavdsp_open_inv [OF i, of E "translate_opentype type" True]])
  obtain r h s1 where x: "x = (r, h, s1)" by (cases x)
  note o = ox [unfolded x] and r = rx [unfolded x prod.case]
  from r show ?thesis
  proof (elim disjE conjE exE)
    assume "r = SPRD_VDSP_RESULT_FAIL" "h = None" "inv X L s1"
    then show ?thesis by (simp add: xrp_open_device_def o)
  next
    fix k K
    assume h: "r = SPRD_VDSP_RESULT_SUCCESS" "h = Some (split_handle k)" and k: "k \<noteq> 0" "fresh s k"
      and K: "devices s1 k = Some K" "d_type K = XRP_DEVICE_NEWMODE" and i1: "inv (X(Dev k := 1)) L s1"
    define d where "d = new_ptr E s1"
    define D where "D = \<lparr>d_count = 1, d_fd = vh_fd (split_handle k),
      d_generation = vh_generation (split_handle k), d_type = XRP_DEVICE_NORMAL\<rparr>"
    have "device_handle D = split_handle k"
      by (rule vdsp_handle.equality) (simp_all add: D_def device_handle_def)
    then have inner: "inner_device D = k" by (simp add: inner_device_def join_split)
    show ?thesis
    proof (cases "d = 0")
      case True
      then show ?thesis using i1 k
        by (auto simp: xrp_open_device_def o h alloc_refcounted_eq d_def)
    next
      case False
      define s2 where "s2 = s1\<lparr>allocs := Suc (allocs s1)\<rparr>"
      have f: "fresh s1 d" using False new_ptr_fresh [of E s1] by (simp add: d_def)
      have ne: "d \<noteq> k" using f K by (auto simp: fresh_def)
      have xk: "X (Dev k) = 0" using dead_refs(1) [OF i, of "Dev k"] k by (simp add: fresh_def)
      have xd: "X (Dev d) = 0" using dead_refs(1) [OF i1, of "Dev d"] f ne by (simp add: fresh_def)
      have "inv ((X(Dev k := 1))(Dev d := 1, Dev k := (X(Dev k := 1)) (Dev k) - 1)) L
          (s2\<lparr>devices := (devices s2)(d \<mapsto> D)\<rparr>)"
        by (rule inv_device_wrap [OF _ False _ refl])
          (use i1 f K in \<open>simp_all add: s2_def fresh_def D_def inner [unfolded D_def]\<close>)
      moreover have "(X(Dev k := 1))(Dev d := 1, Dev k := (X(Dev k := 1)) (Dev k) - 1) =
          X(Dev d := 1)" using xk ne by auto
      ultimately have "inv (X(Dev d := 1)) L (s2\<lparr>devices := (devices s2)(d \<mapsto> D)\<rparr>)" by simp
      then show ?thesis using False xd
        by (simp add: xrp_open_device_def o h alloc_refcounted_eq d_def [symmetric] s2_def D_def)
    qed
  qed
qed

text \<open>The length of the device name: the buffer of \<open>sizeof("/dev/vdsp") + 4 * sizeof(int)\<close>
  bytes holds it and its terminator.\<close>

lemma dev_name_length: "length (dev_name idx) + 1 \<le> 10 + 4 * 4"
proof -
  have "unat idx < 2 ^ 32" using unsigned_less [of idx] by simp
  then have "unat idx < 10 ^ Suc 9" by simp
  from decimal_length [OF this] show ?thesis by (simp add: dev_name_def)
qed

end
