(* ===== verification/Vdsp_Sample.thy ===== *)
theory Vdsp_Sample
  imports Xrp_State
begin

text \<open>
  A concrete environment the witnesses run in: an allocator that never repeats an address and
  a kernel that grants every request. The witnesses evaluate the operations in it by
  simplification.
\<close>

definition granted :: answer where
  "granted = \<lparr>ans_ret = 3, ans_fd = 7, ans_addr = 0x100000, ans_size = 0\<rparr>"

definition sample_sys :: "syscall list \<Rightarrow> syscall \<Rightarrow> answer" where
  "sample_sys h c = (case c of Sys_ion_version _ \<Rightarrow> granted\<lparr>ans_ret := 0\<rparr> | _ \<Rightarrow> granted)"

definition sample_env :: env where
  "sample_env = \<lparr>env_alloc = (\<lambda>n. 0x1000 * (1 + of_nat n)), env_sys = sample_sys,
     env_pagesize = 0x1000, ION_HEAP_ID_MASK_SYSTEM = 1, ION_FLAG_NO_CLEAR = 0x10000,
     ION_HEAP_ID_MASK_CAM = 2, DMA_BUF_SYNC_READ = 1,
     DMA_BUF_SYNC_RW = 3, DMA_BUF_SYNC_END = 4\<rparr>"

lemma sample_alloc [simp]: "env_alloc sample_env n = 0x1000 * (1 + of_nat n)"
  by (simp add: sample_env_def)

lemma sample_answer:
  "env_sys sample_env h c = (case c of Sys_ion_version _ \<Rightarrow> granted\<lparr>ans_ret := 0\<rparr> | _ \<Rightarrow> granted)"
  by (simp add: sample_env_def sample_sys_def)

end
