(* ===== verification/Vdsp_Ion.thy ===== *)
theory Vdsp_Ion
  imports Vdsp_Sample "HOL-Library.Multiset"
begin

text \<open>
  Ion memory: the class \<open>VdspIon\<close> of VdspIon.cpp (constructor, \<open>mapIonFd\<close>, destructor) and
  the allocation functions of vdsp_ion.cpp over it. The kernel resources a call obtains and
  gives back are read off the trace by \<open>held\<close>; the lemmas say that a failed construction
  gives everything back and that freeing gives back what a construction kept.
\<close>

section \<open>The class VdspIon\<close>

definition NO_CACHING :: u32 where "NO_CACHING = 0x200"
definition DONT_MAP_LOCALLY :: u32 where "DONT_MAP_LOCALLY = 0x100"
definition MAP_FAILED :: ptr where "MAP_FAILED = - 1"

definition Is_ion_legacy :: "env \<Rightarrow> i32 \<Rightarrow> xrp_state \<Rightarrow> bool \<times> xrp_state" where
  "Is_ion_legacy E fd s =
     (if sint fd < 0 then (True, s)
      else let (err, s) = sys E (Sys_ion_version fd) s in (ans_ret err \<noteq> 0, s))"

definition is_ion_legacy :: "env \<Rightarrow> vdsp_ion \<Rightarrow> xrp_state \<Rightarrow> bool \<times> xrp_state" where
  "is_ion_legacy E ion s =
     (let (err, s) = sys E (Sys_ion_version (mIonDeviceFd ion)) s in (ans_ret err \<noteq> 0, s))"

definition ion_data_flags :: "env \<Rightarrow> u32 \<Rightarrow> u32" where
  "ion_data_flags E memory_type =
     (let flags = (if memory_type AND push_bit 31 1 \<noteq> 0
                   then (memory_type AND push_bit 31 1) OR 3 else 0)
      in if memory_type AND ION_FLAG_NO_CLEAR E \<noteq> 0 then flags OR ION_FLAG_NO_CLEAR E else flags)"

text \<open>
  \<open>mapIonFd\<close> in its two halves. Its status is dropped by its only caller, the constructor,
  so the members it leaves are its result.
\<close>

definition mapIonFd_legacy ::
    "env \<Rightarrow> i32 \<Rightarrow> size_t \<Rightarrow> u32 \<Rightarrow> u32 \<Rightarrow> vdsp_ion \<Rightarrow> xrp_state \<Rightarrow> vdsp_ion \<times> xrp_state" where
  "mapIonFd_legacy E fd sz memory_type uflags ion s =
     (let (data, s) = sys E (Sys_ion_alloc fd sz (env_pagesize E) memory_type
                               (ion_data_flags E memory_type)) s
      in if sint (ans_ret data) < 0 then
           (let (_, s) = sys E (Sys_close fd) s in (ion, s))
         else if uflags AND DONT_MAP_LOCALLY = 0 then
           (let (fd_data, s) = sys E (Sys_ion_share fd (ans_fd data)) s
            in if sint (ans_ret fd_data) < 0 then
                 (let (_, s) = sys E (Sys_ion_free fd (ans_fd data)) s;
                      (_, s) = sys E (Sys_close fd) s
                  in (ion, s))
               else
                 (let (base, s) = sys E (Sys_mmap (ans_fd fd_data) sz) s
                  in if ans_addr base = MAP_FAILED then
                       (let (_, s) = sys E (Sys_ion_free fd (ans_fd data)) s;
                            (_, s) = sys E (Sys_close (ans_fd fd_data)) s;
                            (_, s) = sys E (Sys_close fd) s
                        in (ion, s))
                     else (\<lparr>mIonDeviceFd = fd, mIonHandle = ans_fd data,
                             mFD = ans_fd fd_data, mSize = sz, mBase = ans_addr base\<rparr>, s)))
         else (\<lparr>mIonDeviceFd = fd, mIonHandle = ans_fd data, mFD = - 1,
                mSize = sz, mBase = 0\<rparr>, s))"

definition mapIonFd_new ::
    "env \<Rightarrow> i32 \<Rightarrow> size_t \<Rightarrow> u32 \<Rightarrow> vdsp_ion \<Rightarrow> xrp_state \<Rightarrow> vdsp_ion \<times> xrp_state" where
  "mapIonFd_new E fd sz memory_type ion s =
     (let (data, s) = sys E (Sys_ion_new_alloc fd sz memory_type
                               (ion_data_flags E memory_type)) s
      in if sint (ans_ret data) < 0 then
           (let (_, s) = sys E (Sys_close fd) s in (ion, s))
         else
           (let (base, s) = sys E (Sys_mmap (ans_fd data) sz) s
            in if ans_addr base = MAP_FAILED then
                 (let (_, s) = sys E (Sys_close (ans_fd data)) s;
                      (_, s) = sys E (Sys_close fd) s
                  in (ion, s))
               else (ion\<lparr>mIonDeviceFd := fd, mFD := ans_fd data, mSize := sz,
                          mBase := ans_addr base\<rparr>, s)))"

definition mapIonFd ::
    "env \<Rightarrow> i32 \<Rightarrow> size_t \<Rightarrow> u32 \<Rightarrow> u32 \<Rightarrow> vdsp_ion \<Rightarrow> xrp_state \<Rightarrow> vdsp_ion \<times> xrp_state" where
  "mapIonFd E fd sz memory_type uflags ion s =
     (let (legacy, s) = Is_ion_legacy E fd s
      in if legacy then mapIonFd_legacy E fd sz memory_type uflags ion s
         else mapIonFd_new E fd sz memory_type ion s)"

definition empty_ion :: vdsp_ion where
  "empty_ion = \<lparr>mIonDeviceFd = - 1, mIonHandle = - 1, mFD = - 1, mSize = 0, mBase = 0\<rparr>"

definition page_round :: "env \<Rightarrow> size_t \<Rightarrow> size_t" where
  "page_round E sz = (sz + env_pagesize E - 1) AND NOT (env_pagesize E - 1)"

definition VdspIon ::
    "env \<Rightarrow> string \<Rightarrow> size_t \<Rightarrow> u32 \<Rightarrow> u32 \<Rightarrow> xrp_state \<Rightarrow> vdsp_ion \<times> xrp_state" where
  "VdspIon E device sz flags memory_type s =
     (let open_flags = O_RDONLY # (if flags AND NO_CACHING \<noteq> 0 then [O_SYNC] else []);
          (fd, s) = sys E (Sys_open device open_flags) s
      in if 0 \<le> sint (ans_ret fd)
         then mapIonFd E (ans_ret fd) (page_round E sz) memory_type flags empty_ion s
         else (empty_ion, s))"

definition VdspIon_dtor :: "env \<Rightarrow> vdsp_ion \<Rightarrow> xrp_state \<Rightarrow> xrp_state" where
  "VdspIon_dtor E ion s =
     (let (_, s) = sys E (Sys_munmap (mBase ion) (mSize ion)) s;
          s = (if 0 < sint (mIonDeviceFd ion) then
                 (let (legacy, s) = is_ion_legacy E ion s;
                      s = (if legacy
                           then snd (sys E (Sys_ion_free (mIonDeviceFd ion) (mIonHandle ion)) s)
                           else s)
                  in snd (sys E (Sys_close (mIonDeviceFd ion)) s))
               else s)
      in if 0 \<le> sint (mFD ion) then snd (sys E (Sys_close (mFD ion)) s) else s)"

section \<open>vdsp_ion.cpp\<close>

text \<open>\<open>new VdspIon(...)\<close>: the object is allocated (an allocation that fails does not
  return), then constructed.\<close>

definition vdsp_alloc_ionmem ::
    "env \<Rightarrow> u32 \<Rightarrow> byte \<Rightarrow> xrp_state \<Rightarrow> (ptr \<times> i32 \<times> ptr \<times> xrp_state) option" where
  "vdsp_alloc_ionmem E sz iscache s =
     (let (pHeapIon, s) = malloc E s
      in if pHeapIon = 0 then None
         else let (ion, s) =
                (if iscache \<noteq> 0
                 then VdspIon E ''/dev/ion'' (ucast sz) 0
                        (push_bit 31 1 OR ION_HEAP_ID_MASK_SYSTEM E OR ION_FLAG_NO_CLEAR E) s
                 else VdspIon E ''/dev/ion'' (ucast sz) NO_CACHING
                        (ION_HEAP_ID_MASK_SYSTEM E OR ION_FLAG_NO_CLEAR E) s)
              in Some (pHeapIon, mFD ion, mBase ion, s\<lparr>ions := (ions s)(pHeapIon \<mapsto> ion)\<rparr>))"

definition vdsp_free_ionmem :: "env \<Rightarrow> ptr \<Rightarrow> xrp_state \<Rightarrow> (sprd_vdsp_status \<times> xrp_state) option" where
  "vdsp_free_ionmem E handle s =
     (if handle \<noteq> 0 then
        do { ion \<leftarrow> ions s handle;
             let s = VdspIon_dtor E ion s;
             Some (SPRD_XRP_STATUS_SUCCESS, s\<lparr>ions := (ions s)(handle := None)\<rparr>) }
      else Some (SPRD_XRP_STATUS_FAILURE, s))"

section \<open>Kernel resources\<close>

datatype resource = Fd i32 | Ion_handle i32 | Mapping ptr size_t

definition gains :: "env \<Rightarrow> syscall list \<Rightarrow> syscall \<Rightarrow> resource multiset" where
  "gains E h c = (let a = env_sys E h c in case c of
       Sys_open _ _ \<Rightarrow> if 0 \<le> sint (ans_ret a) then {#Fd (ans_ret a)#} else {#}
     | Sys_ion_new_alloc _ _ _ _ \<Rightarrow> if 0 \<le> sint (ans_ret a) then {#Fd (ans_fd a)#} else {#}
     | Sys_ion_alloc _ _ _ _ _ \<Rightarrow>
         if 0 \<le> sint (ans_ret a) then {#Ion_handle (ans_fd a)#} else {#}
     | Sys_ion_share _ _ \<Rightarrow> if 0 \<le> sint (ans_ret a) then {#Fd (ans_fd a)#} else {#}
     | Sys_mmap _ n \<Rightarrow> if ans_addr a \<noteq> MAP_FAILED then {#Mapping (ans_addr a) n#} else {#}
     | _ \<Rightarrow> {#})"

definition losses :: "syscall \<Rightarrow> resource multiset" where
  "losses c = (case c of
       Sys_close fd \<Rightarrow> {#Fd fd#}
     | Sys_ion_free _ h \<Rightarrow> {#Ion_handle h#}
     | Sys_munmap p n \<Rightarrow> {#Mapping p n#}
     | _ \<Rightarrow> {#})"

fun held_rev :: "env \<Rightarrow> syscall list \<Rightarrow> resource multiset" where
  "held_rev E [] = {#}"
| "held_rev E (c # h) = held_rev E h + gains E (rev h) c - losses c"

definition held :: "env \<Rightarrow> syscall list \<Rightarrow> resource multiset" where
  "held E tr = held_rev E (rev tr)"

lemma held_snoc: "held E (tr @ [c]) = held E tr + gains E tr c - losses c"
  by (simp add: held_def)

fun run_held ::
    "env \<Rightarrow> syscall list \<Rightarrow> resource multiset \<Rightarrow> syscall list \<Rightarrow> resource multiset" where
  "run_held E h M [] = M"
| "run_held E h M (c # cs) = run_held E (h @ [c]) (M + gains E h c - losses c) cs"

lemma held_append: "held E (h @ cs) = run_held E h (held E h) cs"
proof (induction cs arbitrary: h)
  case Nil
  then show ?case by simp
next
  case (Cons c cs)
  have "held E (h @ c # cs) = held E ((h @ [c]) @ cs)" by simp
  also have "\<dots> = run_held E (h @ [c]) (held E (h @ [c])) cs" by (rule Cons.IH)
  finally show ?case by (simp add: held_snoc)
qed

text \<open>What an object keeps: nothing when its construction failed.\<close>

definition owned :: "env \<Rightarrow> bool \<Rightarrow> vdsp_ion \<Rightarrow> resource multiset" where
  "owned E legacy ion =
     (if mIonDeviceFd ion = - 1 then {#}
      else {#Fd (mIonDeviceFd ion), Fd (mFD ion), Mapping (mBase ion) (mSize ion)#} +
           (if legacy then {#Ion_handle (mIonHandle ion)#} else {#}))"

lemmas ion_defs = sys_def Let_def mapIonFd_def mapIonFd_legacy_def mapIonFd_new_def
  Is_ion_legacy_def is_ion_legacy_def empty_ion_def


section \<open>Only the trace changes\<close>

definition same_but_trace :: "xrp_state \<Rightarrow> xrp_state \<Rightarrow> bool" where
  "same_but_trace s t \<longleftrightarrow> t = s\<lparr>trace := trace t\<rparr>"

lemma same_but_trace_refl [simp]: "same_but_trace s s"
  by (simp add: same_but_trace_def)

lemma same_but_trace_sys [simp]: "same_but_trace s (t\<lparr>trace := tr\<rparr>) = same_but_trace s t"
  unfolding same_but_trace_def by (cases s, cases t) simp

lemma mapIonFd_legacy_frame:
  "same_but_trace r s \<Longrightarrow> same_but_trace r (snd (mapIonFd_legacy E fd sz mt fl ion s))"
  by (simp add: mapIonFd_legacy_def sys_def Let_def)

lemma mapIonFd_new_frame:
  "same_but_trace r s \<Longrightarrow> same_but_trace r (snd (mapIonFd_new E fd sz mt ion s))"
  by (simp add: mapIonFd_new_def sys_def Let_def)

lemma mapIonFd_frame:
  "same_but_trace r s \<Longrightarrow> same_but_trace r (snd (mapIonFd E fd sz mt fl ion s))"
  by (simp add: mapIonFd_def Is_ion_legacy_def sys_def Let_def mapIonFd_legacy_frame
      mapIonFd_new_frame)

lemma VdspIon_frame: "same_but_trace r s \<Longrightarrow> same_but_trace r (snd (VdspIon E dev sz fl mt s))"
  by (simp add: VdspIon_def sys_def Let_def mapIonFd_frame)

lemma VdspIon_dtor_frame: "same_but_trace s (VdspIon_dtor E ion s)"
  by (simp add: VdspIon_dtor_def ion_defs)

lemma same_but_trace_fields:
  assumes "same_but_trace s t"
  shows "devices t = devices s" "buffers t = buffers s" "groups t = groups s"
    "queues t = queues s" "events t = events s" "requests t = requests s"
    "next_item t = next_item s" "blocks t = blocks s" "ions t = ions s" "mem t = mem s"
    "sync_exit t = sync_exit s" "allocs t = allocs s"
  using assms unfolding same_but_trace_def by (cases s, cases t, simp)+

section \<open>Construction and destruction\<close>

text \<open>What the destructor relies on of the kernel: it answers the version question for a
  descriptor the same way each time, descriptor 0 is in use before the library opens any, and
  a call that succeeds hands out a descriptor that is not negative.\<close>

definition kernel_ok :: "env \<Rightarrow> bool" where
  "kernel_ok E \<longleftrightarrow>
     (\<forall>h h' fd. ans_ret (env_sys E h (Sys_ion_version fd)) =
                ans_ret (env_sys E h' (Sys_ion_version fd))) \<and>
     (\<forall>h d fl. ans_ret (env_sys E h (Sys_open d fl)) \<noteq> 0) \<and>
     (\<forall>h fd n m f. 0 \<le> sint (ans_fd (env_sys E h (Sys_ion_new_alloc fd n m f)))) \<and>
     (\<forall>h fd x. 0 \<le> sint (ans_fd (env_sys E h (Sys_ion_share fd x))))"

definition legacy_fd :: "env \<Rightarrow> i32 \<Rightarrow> bool" where
  "legacy_fd E fd \<longleftrightarrow> ans_ret (env_sys E [] (Sys_ion_version fd)) \<noteq> 0"

lemma legacy_fd_eq:
  "kernel_ok E \<Longrightarrow> ans_ret (env_sys E h (Sys_ion_version fd)) = 0 \<longleftrightarrow> \<not> legacy_fd E fd"
  unfolding kernel_ok_def legacy_fd_def by metis

lemmas held_simps = held_append gains_def losses_def owned_def

lemma mapIonFd_legacy_held:
  assumes fd: "fd \<noteq> - 1" and fl: "fl AND DONT_MAP_LOCALLY = 0"
    and r: "mapIonFd_legacy E fd sz mt fl empty_ion s = (ion, s')"
    and h: "held E (trace s) = add_mset (Fd fd) H"
  shows "held E (trace s') = H + owned E True ion"
  using r fd fl
  by (auto simp: mapIonFd_legacy_def sys_def Let_def held_simps h empty_ion_def
      add_mset_commute split: if_splits)

lemma mapIonFd_new_held:
  assumes fd: "fd \<noteq> - 1"
    and r: "mapIonFd_new E fd sz mt empty_ion s = (ion, s')"
    and h: "held E (trace s) = add_mset (Fd fd) H"
  shows "held E (trace s') = H + owned E False ion"
  using r fd
  by (auto simp: mapIonFd_new_def sys_def Let_def held_simps h empty_ion_def
      add_mset_commute split: if_splits)

lemma mapIonFd_members:
  assumes "kernel_ok E" and "fl AND DONT_MAP_LOCALLY = 0"
    and "mapIonFd E fd sz mt fl empty_ion s = (ion, s')"
  shows "ion = empty_ion \<or> mIonDeviceFd ion = fd \<and> 0 \<le> sint (mFD ion)"
proof -
  have nn: "0 \<le> sint (ans_fd (env_sys E h (Sys_ion_new_alloc d n m f)))"
    "0 \<le> sint (ans_fd (env_sys E h (Sys_ion_share d x)))" for h d n m f x
    using assms(1) by (simp_all add: kernel_ok_def)
  have "mapIonFd_new E d n m empty_ion t = (ion, s') \<Longrightarrow>
      ion = empty_ion \<or> mIonDeviceFd ion = d \<and> 0 \<le> sint (mFD ion)" for d n m t
    by (auto simp: mapIonFd_new_def sys_def Let_def nn split: if_splits)
  moreover have "mapIonFd_legacy E d n m fl empty_ion t = (ion, s') \<Longrightarrow>
      ion = empty_ion \<or> mIonDeviceFd ion = d \<and> 0 \<le> sint (mFD ion)" for d n m t
    using assms(2) by (auto simp: mapIonFd_legacy_def sys_def Let_def nn split: if_splits)
  ultimately show ?thesis using assms(3) by (auto simp: mapIonFd_def split: prod.splits if_splits)
qed

lemma VdspIon_held:
  assumes k: "kernel_ok E" and fl: "fl AND DONT_MAP_LOCALLY = 0"
    and r: "VdspIon E dev sz fl mt s = (ion, s')"
  shows "held E (trace s') = held E (trace s) + owned E (legacy_fd E (mIonDeviceFd ion)) ion"
    and "ion = empty_ion \<or> 0 < sint (mIonDeviceFd ion) \<and> 0 \<le> sint (mFD ion)"
proof -
  define fls where "fls = O_RDONLY # (if fl AND NO_CACHING \<noteq> 0 then [O_SYNC] else [])"
  define fd where "fd = ans_ret (env_sys E (trace s) (Sys_open dev fls))"
  define s1 where "s1 = s\<lparr>trace := trace s @ [Sys_open dev fls]\<rparr>"
  have eq: "(ion, s') = (if 0 \<le> sint fd then mapIonFd E fd (page_round E sz) mt fl empty_ion s1
       else (empty_ion, s1))"
    using r by (simp add: VdspIon_def sys_def Let_def fls_def fd_def s1_def split: if_splits)
  have h1: "held E (trace s1) = held E (trace s) + (if 0 \<le> sint fd then {#Fd fd#} else {#})"
    by (simp add: s1_def held_simps fd_def Let_def)
  have nz: "fd \<noteq> 0" using k by (simp add: kernel_ok_def fd_def)
  have "held E (trace s') = held E (trace s) + owned E (legacy_fd E (mIonDeviceFd ion)) ion \<and>
    (ion = empty_ion \<or> 0 < sint (mIonDeviceFd ion) \<and> 0 \<le> sint (mFD ion))"
  proof (cases "0 \<le> sint fd")
    case False
    then show ?thesis using eq h1 by (simp add: owned_def empty_ion_def)
  next
    case True
    define s2 where "s2 = s1\<lparr>trace := trace s1 @ [Sys_ion_version fd]\<rparr>"
    have m1: "fd \<noteq> - 1" using True by auto
    have h2: "held E (trace s2) = add_mset (Fd fd) (held E (trace s))"
      using h1 True by (simp add: s2_def held_simps Let_def)
    have eq2: "(ion, s') = (if legacy_fd E fd
        then mapIonFd_legacy E fd (page_round E sz) mt fl empty_ion s2
        else mapIonFd_new E fd (page_round E sz) mt empty_ion s2)"
      using eq True by (simp add: mapIonFd_def Is_ion_legacy_def sys_def Let_def s2_def
          legacy_fd_eq [OF k])
    have mem: "ion = empty_ion \<or> mIonDeviceFd ion = fd \<and> 0 \<le> sint (mFD ion)"
      using mapIonFd_members [OF k fl, of fd "page_round E sz" mt s1] eq [symmetric] True by simp
    have "held E (trace s') = held E (trace s) + owned E (legacy_fd E fd) ion"
    proof (cases "legacy_fd E fd")
      case True
      with eq2 [symmetric] show ?thesis
        using mapIonFd_legacy_held [OF m1 fl _ h2, of "page_round E sz" mt ion s'] by simp
    next
      case False
      with eq2 [symmetric] show ?thesis
        using mapIonFd_new_held [OF m1 _ h2, of "page_round E sz" mt ion s'] by simp
    qed
    moreover have "0 < sint fd"
      using True nz by (metis le_neq_trans signed_0 signed_word_eqI)
    ultimately show ?thesis using mem by (auto simp: owned_def empty_ion_def)
  qed
  then show "held E (trace s') = held E (trace s) + owned E (legacy_fd E (mIonDeviceFd ion)) ion"
    and "ion = empty_ion \<or> 0 < sint (mIonDeviceFd ion) \<and> 0 \<le> sint (mFD ion)" by auto
qed

lemma VdspIon_dtor_held:
  assumes k: "kernel_ok E" and ion: "0 < sint (mIonDeviceFd ion)" "0 \<le> sint (mFD ion)"
    and h: "held E (trace s) = H + owned E (legacy_fd E (mIonDeviceFd ion)) ion"
  shows "held E (trace (VdspIon_dtor E ion s)) = H"
proof -
  have "mIonDeviceFd ion \<noteq> - 1" using ion by auto
  then show ?thesis
    using ion by (simp add: VdspIon_dtor_def is_ion_legacy_def sys_def Let_def held_simps h
        legacy_fd_eq [OF k])
qed

lemma VdspIon_dtor_empty:
  assumes "Mapping 0 0 \<notin># held E (trace s)"
  shows "held E (trace (VdspIon_dtor E empty_ion s)) = held E (trace s)"
  using assms by (simp add: VdspIon_dtor_def empty_ion_def sys_def Let_def held_simps)

section \<open>Allocation and release\<close>

lemma vdsp_alloc_ionmemE:
  assumes "vdsp_alloc_ionmem E sz c s = Some (h, fd, va, s1)"
  obtains dev fl mt ion s' where "fl AND DONT_MAP_LOCALLY = 0"
    and "VdspIon E dev (ucast sz) fl mt (s\<lparr>allocs := Suc (allocs s)\<rparr>) = (ion, s')"
    and "s1 = s'\<lparr>ions := (ions s')(h \<mapsto> ion)\<rparr>" and "h \<noteq> 0" and "fresh s h"
    and "fd = mFD ion" and "va = mBase ion"
proof -
  define s0 where "s0 = s\<lparr>allocs := Suc (allocs s)\<rparr>"
  define fl where "fl = (if c \<noteq> 0 then 0 else NO_CACHING)"
  define mt where "mt = (if c \<noteq> 0
      then push_bit 31 1 OR ION_HEAP_ID_MASK_SYSTEM E OR ION_FLAG_NO_CLEAR E
      else ION_HEAP_ID_MASK_SYSTEM E OR ION_FLAG_NO_CLEAR E)"
  obtain p where p: "malloc E s = (p, s0)" "p \<noteq> 0 \<Longrightarrow> fresh s p"
    using new_ptr_fresh [of E s] by (simp add: malloc_def s0_def)
  obtain ion s' where r: "VdspIon E ''/dev/ion'' (ucast sz) fl mt s0 = (ion, s')"
    by (cases "VdspIon E ''/dev/ion'' (ucast sz) fl mt s0")
  have "vdsp_alloc_ionmem E sz c s = (if p = 0 then None
      else Some (p, mFD ion, mBase ion, s'\<lparr>ions := (ions s')(p \<mapsto> ion)\<rparr>))"
    using r by (auto simp: vdsp_alloc_ionmem_def p(1) fl_def mt_def)
  moreover have "fl AND DONT_MAP_LOCALLY = 0"
    by (simp add: fl_def NO_CACHING_def DONT_MAP_LOCALLY_def)
  ultimately show thesis using assms p(2) r that [unfolded s0_def [symmetric]]
    by (auto split: if_splits)
qed

text \<open>
  Property C28: freeing an ion allocation gives back every descriptor, handle and mapping it
  obtained, on every path of the constructor (failures included), and removes the object.
\<close>

theorem vdsp_ionmem_no_leak:
  assumes k: "kernel_ok E" and m: "Mapping 0 0 \<notin># held E (trace s)"
    and a: "vdsp_alloc_ionmem E sz c s = Some (h, fd, va, s1)"
  shows "\<exists>s2. vdsp_free_ionmem E h s1 = Some (SPRD_XRP_STATUS_SUCCESS, s2) \<and>
    held E (trace s2) = held E (trace s) \<and> ions s2 = ions s"
proof -
  define s0 where "s0 = s\<lparr>allocs := Suc (allocs s)\<rparr>"
  obtain dev fl mt ion s' where fl: "fl AND DONT_MAP_LOCALLY = 0"
    and c: "VdspIon E dev (ucast sz) fl mt s0 = (ion, s')"
    and s1: "s1 = s'\<lparr>ions := (ions s')(h \<mapsto> ion)\<rparr>" and h: "h \<noteq> 0" "fresh s h"
    using a by (rule vdsp_alloc_ionmemE) (simp add: s0_def)
  have ions: "ions s' = ions s" and "trace s0 = trace s"
    using VdspIon_frame [of s0 s0 E dev "ucast sz" fl mt] c
    by (auto simp: s0_def dest: same_but_trace_fields)
  note held = VdspIon_held [OF k fl c, unfolded this(2)]
  have "held E (trace (VdspIon_dtor E ion s1)) = held E (trace s)"
  proof (cases "ion = empty_ion")
    case True
    then show ?thesis using held(1) m VdspIon_dtor_empty [of E s1]
      by (simp add: s1 owned_def empty_ion_def)
  next
    case False
    then show ?thesis using held by (intro VdspIon_dtor_held [OF k]) (simp_all add: s1)
  qed
  moreover have "ions (VdspIon_dtor E ion s1) = (ions s)(h \<mapsto> ion)"
    using same_but_trace_fields [OF VdspIon_dtor_frame] ions by (simp add: s1)
  ultimately show ?thesis
    using h by (simp add: vdsp_free_ionmem_def s1 fresh_def ions fun_upd_idem Let_def)
qed

lemma sample_kernel_ok: "kernel_ok sample_env"
  by (auto simp: kernel_ok_def sample_answer granted_def split: syscall.splits)

lemma vdsp_ionmem_no_leak_witness:
  "(let s1 = snd (snd (snd (the (vdsp_alloc_ionmem sample_env 44 0 init_state))))
    in \<exists>s2. vdsp_free_ionmem sample_env 0x1000 s1 = Some (SPRD_XRP_STATUS_SUCCESS, s2) \<and>
      held sample_env (trace s2) = {#} \<and> ions s2 = Map.empty)"
proof -
  have e: "\<exists>s1. vdsp_alloc_ionmem sample_env 44 0 init_state = Some (0x1000, 7, 0x100000, s1)"
    by (simp add: vdsp_alloc_ionmem_def malloc_def new_ptr_def fresh_def init_state_def VdspIon_def
        sys_def mapIonFd_def Is_ion_legacy_def mapIonFd_new_def sample_answer granted_def
        MAP_FAILED_def empty_ion_def Let_def)
  then obtain s1 where s1: "vdsp_alloc_ionmem sample_env 44 0 init_state = Some (0x1000, 7, 0x100000, s1)"
    by blast
  have "Mapping 0 0 \<notin># held sample_env (trace init_state)"
    by (simp add: init_state_def held_def)
  from vdsp_ionmem_no_leak [OF sample_kernel_ok this s1] s1 show ?thesis
    by (simp add: init_state_def held_def)
qed

end
