(* ===== verification/Xrp_Buffer.thy ===== *)
theory Xrp_Buffer
  imports Xrp_Device Vdsp_Ion
begin

text \<open>
  Buffers: creation around host memory or with device memory of their own, reference
  counting, mapping. A mapping counts as a reference the buffer holds on itself
  (\<open>b_map_count\<close> in \<open>irefs\<close>), so \<open>xrp_map_buffer\<close> and \<open>xrp_unmap_buffer\<close> leave the
  clients' references alone.
\<close>

section \<open>Operations\<close>

definition zero_buffer :: xrp_buffer where
  "zero_buffer = \<lparr>b_count = 0, b_device = 0, b_type = XRP_BUFFER_TYPE_HOST, b_ptr = 0, b_apptr = 0,
     b_size = 0, b_map_count = 0, b_map_flags = 0, b_ion_fd = 0, b_ionhandle = 0\<rparr>"

definition put_buffer :: "ptr \<Rightarrow> xrp_buffer \<Rightarrow> xrp_state \<Rightarrow> xrp_state" where
  "put_buffer b B s = s\<lparr>buffers := (buffers s)(b \<mapsto> B)\<rparr>"

definition free_buffer :: "ptr \<Rightarrow> xrp_state \<Rightarrow> xrp_state" where
  "free_buffer b s = s\<lparr>buffers := (buffers s)(b := None)\<rparr>"

definition xrp_impl_create_device_buffer ::
    "env \<Rightarrow> ptr \<Rightarrow> ptr \<Rightarrow> size_t \<Rightarrow> xrp_state \<Rightarrow> (xrp_status \<times> xrp_state) option" where
  "xrp_impl_create_device_buffer E device buffer sz s =
     do { s \<leftarrow> xrp_retain_device device s;
          B \<leftarrow> buffers s buffer;
          let s = put_buffer buffer (B\<lparr>b_device := device\<rparr>) s;
          (ionhandle, fd, viraddr, s) \<leftarrow> vdsp_alloc_ionmem E (ucast sz) 1 s;
          B \<leftarrow> buffers s buffer;
          if ionhandle = 0
          then do { s \<leftarrow> xrp_release_device E (b_device B) s; Some (XRP_STATUS_FAILURE, s) }
          else Some (XRP_STATUS_SUCCESS,
                 put_buffer buffer (B\<lparr>b_ptr := viraddr, b_ionhandle := ionhandle,
                   b_ion_fd := fd, b_size := sz\<rparr>) s) }"

definition xrp_impl_release_device_buffer :: "env \<Rightarrow> ptr \<Rightarrow> xrp_state \<Rightarrow> xrp_state option" where
  "xrp_impl_release_device_buffer E buffer s =
     do { B \<leftarrow> buffers s buffer;
          (_, s) \<leftarrow> vdsp_free_ionmem E (b_ionhandle B) s;
          xrp_release_device E (b_device B) s }"

text \<open>The last assignment of the function runs on every path, so a device allocation that
  fails ends in a write through the null pointer \<open>buf\<close>.\<close>

definition xrp_create_buffer ::
    "env \<Rightarrow> ptr \<Rightarrow> size_t \<Rightarrow> ptr \<Rightarrow> i32 \<Rightarrow> xrp_state \<Rightarrow> (ptr \<times> xrp_status \<times> xrp_state) option" where
  "xrp_create_buffer E device sz host_ptr fd s =
     (if host_ptr = 0 \<and> device = 0 then Some (0, XRP_STATUS_FAILURE, s)
      else (let (buf, count, s) = alloc_refcounted E s
            in if buf = 0 then Some (0, XRP_STATUS_FAILURE, s)
               else do {
                 let s = put_buffer buf (zero_buffer\<lparr>b_count := count\<rparr>) s;
                 (buf, status, s) \<leftarrow>
                   (if fd \<noteq> - 1
                    then do { B \<leftarrow> buffers s buf;
                              Some (buf, XRP_STATUS_SUCCESS,
                                put_buffer buf (B\<lparr>b_type := XRP_BUFFER_TYPE_HOST,
                                  b_ptr := host_ptr, b_size := sz, b_ion_fd := fd\<rparr>) s) }
                    else do { B \<leftarrow> buffers s buf;
                              let s = put_buffer buf (B\<lparr>b_type := XRP_BUFFER_TYPE_DEVICE\<rparr>) s;
                              (st, s) \<leftarrow> xrp_impl_create_device_buffer E device buf sz s;
                              if st \<noteq> XRP_STATUS_SUCCESS then Some (0, st, free_buffer buf s)
                              else Some (buf, st, s) });
                 B \<leftarrow> buffers s buf;
                 Some (buf, status, put_buffer buf (B\<lparr>b_apptr := 0\<rparr>) s) }))"

definition xrp_retain_buffer :: "ptr \<Rightarrow> xrp_state \<Rightarrow> xrp_state option" where
  "xrp_retain_buffer buffer s =
     do { B \<leftarrow> buffers s buffer;
          Some (put_buffer buffer (B\<lparr>b_count := retain_refcounted (b_count B)\<rparr>) s) }"

definition xrp_release_buffer :: "env \<Rightarrow> ptr \<Rightarrow> xrp_state \<Rightarrow> xrp_state option" where
  "xrp_release_buffer E buffer s =
     do { B \<leftarrow> buffers s buffer;
          let (last, c) = last_release_refcounted (b_count B);
          let s = put_buffer buffer (B\<lparr>b_count := c\<rparr>) s;
          if last
          then do { s \<leftarrow> (if b_type B = XRP_BUFFER_TYPE_DEVICE
                         then xrp_impl_release_device_buffer E buffer s else Some s);
                    Some (free_buffer buffer s) }
          else Some s }"

definition xrp_map_buffer ::
    "ptr \<Rightarrow> size_t \<Rightarrow> size_t \<Rightarrow> u32 \<Rightarrow> xrp_state \<Rightarrow> (ptr \<times> xrp_status \<times> xrp_state) option" where
  "xrp_map_buffer buffer offset sz map_flags s =
     do { B \<leftarrow> buffers s buffer;
          if offset \<le> b_size B \<and> sz \<le> b_size B - offset
          then Some (b_ptr B + offset, XRP_STATUS_SUCCESS,
                 put_buffer buffer (B\<lparr>b_count := retain_refcounted (b_count B),
                   b_map_count := b_map_count B + 1,
                   b_map_flags := b_map_flags B OR map_flags\<rparr>) s)
          else Some (0, XRP_STATUS_FAILURE, s) }"

definition xrp_unmap_buffer ::
    "env \<Rightarrow> ptr \<Rightarrow> ptr \<Rightarrow> xrp_state \<Rightarrow> (xrp_status \<times> xrp_state) option" where
  "xrp_unmap_buffer E buffer p s =
     do { B \<leftarrow> buffers s buffer;
          if p \<ge> b_ptr B \<and> p - b_ptr B \<le> b_size B
          then do { s \<leftarrow> xrp_release_buffer E buffer
                           (put_buffer buffer (B\<lparr>b_map_count := b_map_count B - 1\<rparr>) s);
                    Some (XRP_STATUS_SUCCESS, s) }
          else Some (XRP_STATUS_FAILURE, s) }"

datatype xrp_buffer_info = XRP_BUFFER_SIZE_SIZE_T | XRP_BUFFER_HOST_POINTER_PTR

text \<open>\<open>info\<close> is \<^const>\<open>None\<close> for any other value of the enum's type; the result carries the
  eight bytes copied out as one word.\<close>

definition xrp_buffer_get_info ::
    "ptr \<Rightarrow> xrp_buffer_info option \<Rightarrow> size_t \<Rightarrow> xrp_state \<Rightarrow> (64 word option \<times> xrp_status) option" where
  "xrp_buffer_get_info buffer info out_sz s = (case info of
       None \<Rightarrow> Some (None, XRP_STATUS_FAILURE)
     | Some i \<Rightarrow>
         do { B \<leftarrow> buffers s buffer;
              let v = (case i of XRP_BUFFER_SIZE_SIZE_T \<Rightarrow> b_size B
                | XRP_BUFFER_HOST_POINTER_PTR \<Rightarrow>
                    if b_type B \<noteq> XRP_BUFFER_TYPE_HOST then 0 else b_ptr B);
              if out_sz = 8 then Some (Some v, XRP_STATUS_SUCCESS)
              else Some (None, XRP_STATUS_FAILURE) })"

text \<open>\<open>sprd_xrp_set_apptr\<close> of xrp_interface.c.\<close>

definition sprd_xrp_set_apptr :: "ptr \<Rightarrow> ptr \<Rightarrow> xrp_state \<Rightarrow> xrp_state option" where
  "sprd_xrp_set_apptr buffer apptr s =
     (if apptr \<noteq> 0 then do { B \<leftarrow> buffers s buffer; Some (put_buffer buffer (B\<lparr>b_apptr := apptr\<rparr>) s) }
      else Some s)"

section \<open>Changing, adding and removing a buffer\<close>

lemma inv_buffer_upd:
  assumes i: "inv X L s" and p: "buffers s p = Some B" and c: "b_count B' \<noteq> 0"
    and same: "b_type B' = b_type B" "b_device B' = b_device B" "b_ionhandle B' = b_ionhandle B"
    and n: "unat (b_count B') + X (Buf p) + unat (b_map_count B) =
            unat (b_count B) + n + unat (b_map_count B')"
  shows "inv (X(Buf p := n)) L (put_buffer p B' s)"
proof -
  let ?s = "put_buffer p B' s"
  have "cnt ?s ob = (X(Buf p := n)) ob + irefs (pend L s) ?s ob" for ob
  proof (cases "ob = Buf p")
    case True
    then show ?thesis using refs_okD [OF invD(9) [OF i], of ob] p n
      by (simp add: put_buffer_def map_refs_def)
  next
    case False
    then have "cnt ?s ob = cnt s ob" by (simp add: put_buffer_def cnt_other)
    moreover have "irefs (pend L s) ?s ob = irefs (pend L s) s ob"
      using False p same
      by (cases ob) (simp_all add: put_buffer_def map_refs_def msum_upd_same buffer_dev_def)
    ultimately show ?thesis using refs_okD [OF invD(9) [OF i], of ob] False by simp
  qed
  then have "refs_ok (X(Buf p := n)) (pend L ?s) ?s" by (simp add: refs_ok_def put_buffer_def)
  moreover have "buffers_ok ?s"
    using invD(4) [OF i] p same unfolding buffers_ok_def put_buffer_def by (auto split: if_splits)
  ultimately show ?thesis using invD(1,2,10) [OF i] p c
    by (auto simp: inv_def store_ok_def maps_ok_def counts_ok_def put_buffer_def)
qed

lemma inv_buffer_new:
  assumes i: "inv X L s" and p: "p \<noteq> 0" "buffers s p = None"
    and B: "b_count B = 1" "b_map_count B = 0"
    and dev: "b_type B = XRP_BUFFER_TYPE_DEVICE \<Longrightarrow>
      0 < X (Dev (b_device B)) \<and> b_ionhandle B \<noteq> 0 \<and> ions s (b_ionhandle B) = None"
    and io: "io = (if b_type B = XRP_BUFFER_TYPE_DEVICE then (ions s)(b_ionhandle B \<mapsto> ion)
                   else ions s)"
  shows "inv ((if b_type B = XRP_BUFFER_TYPE_DEVICE
               then X(Dev (b_device B) := X (Dev (b_device B)) - 1) else X)(Buf p := 1)) L
           (put_buffer p B (s\<lparr>ions := io\<rparr>))"
    (is "inv ?X L ?s")
proof -
  have fin: "finite (dom (buffers s))" using invD(1) [OF i] by (simp add: maps_ok_def)
  have z: "X (Buf p) = 0" "irefs (pend L s) s (Buf p) = 0"
    using dead_refs [OF i, of "Buf p"] p by simp_all
  have "cnt ?s ob = ?X ob + irefs (pend L s) ?s ob" for ob
  proof (cases ob)
    case (Dev d)
    have "irefs (pend L s) ?s ob = irefs (pend L s) s ob + buffer_dev d B"
      using fin p Dev by (simp add: put_buffer_def msum_new)
    moreover have "?X ob + buffer_dev d B = X ob"
      using dev Dev by (auto simp: buffer_dev_def)
    ultimately show ?thesis
      using refs_okD [OF invD(9) [OF i], of ob] Dev by (simp add: put_buffer_def)
  next
    case (Buf b)
    then show ?thesis using refs_okD [OF invD(9) [OF i], of ob] p B z
      by (auto simp: put_buffer_def map_refs_def)
  qed (use refs_okD [OF invD(9) [OF i], of ob] in \<open>simp_all add: put_buffer_def\<close>)
  then have "refs_ok ?X (pend L ?s) ?s" by (simp add: refs_ok_def put_buffer_def)
  moreover have "buffers_ok ?s"
    using invD(4) [OF i] p dev unfolding buffers_ok_def put_buffer_def io
    by (auto split: if_splits) (metis option.distinct(1))+
  ultimately show ?thesis using invD(1,2,10) [OF i] p B
    by (auto simp: inv_def store_ok_def maps_ok_def counts_ok_def put_buffer_def)
qed

lemma inv_buffer_gone:
  assumes i: "inv X L s" and p: "buffers s p = Some B" "b_count B = 1" and x: "X (Buf p) = 1"
    and io: "io = (if b_type B = XRP_BUFFER_TYPE_DEVICE then (ions s)(b_ionhandle B := None)
                   else ions s)"
  shows "inv ((if b_type B = XRP_BUFFER_TYPE_DEVICE
               then X(Dev (b_device B) := X (Dev (b_device B)) + 1) else X)(Buf p := 0)) L
           (free_buffer p (s\<lparr>ions := io\<rparr>))"
    (is "inv ?X L ?s")
proof -
  have fin: "finite (dom (buffers s))" using invD(1) [OF i] by (simp add: maps_ok_def)
  have z: "irefs (pend L s) s (Buf p) = 0"
    using refs_okD [OF invD(9) [OF i], of "Buf p"] p x by simp
  have "cnt ?s ob = ?X ob + irefs (pend L s) ?s ob" for ob
  proof (cases ob)
    case (Dev d)
    have "irefs (pend L s) s ob = irefs (pend L s) ?s ob + buffer_dev d B"
      using Dev by (simp add: free_buffer_def msum_split [OF fin p(1)])
    moreover have "?X ob = X ob + buffer_dev d B"
      using Dev by (auto simp: buffer_dev_def)
    ultimately show ?thesis
      using refs_okD [OF invD(9) [OF i], of ob] Dev by (simp add: free_buffer_def)
  next
    case (Buf b)
    then show ?thesis using refs_okD [OF invD(9) [OF i], of ob] p z
      by (auto simp: free_buffer_def map_refs_def)
  qed (use refs_okD [OF invD(9) [OF i], of ob] in \<open>simp_all add: free_buffer_def\<close>)
  then have "refs_ok ?X (pend L ?s) ?s" by (simp add: refs_ok_def free_buffer_def)
  moreover have "buffers_ok ?s"
    using invD(4) [OF i] p unfolding buffers_ok_def free_buffer_def io
    by (auto split: if_splits)
  ultimately show ?thesis using invD(1,2,10) [OF i]
    by (auto simp: inv_def store_ok_def maps_ok_def counts_ok_def free_buffer_def)
qed

section \<open>Retaining and releasing\<close>

lemma retain_buffer_inv:
  assumes i: "inv X L s" and "0 < cnt s (Buf p)" and "cnt s (Buf p) + 1 < 2 ^ 64"
  shows "returns (xrp_retain_buffer p s) (inv (X(Buf p := X (Buf p) + 1)) L)"
proof -
  obtain B where B: "buffers s p = Some B" using assms(2) by (auto split: option.splits)
  then have c: "unat (b_count B) + 1 < 2 ^ 64" using assms(3) by simp
  show ?thesis using retain_count [OF c] B
    by (simp add: xrp_retain_buffer_def) (rule inv_buffer_upd [OF i B]; simp)
qed

text \<open>The store a release leaves, in terms of the one it finds.\<close>

definition released_buffer :: "env \<Rightarrow> xrp_buffer \<Rightarrow> ptr \<Rightarrow> xrp_state \<Rightarrow> xrp_state" where
  "released_buffer E B p s =
     (if b_count B \<noteq> 1 then put_buffer p (B\<lparr>b_count := b_count B - 1\<rparr>) s
      else if b_type B = XRP_BUFFER_TYPE_HOST then free_buffer p s
      else free_buffer p (s\<lparr>ions := (ions s)(b_ionhandle B := None),
        devices := released_devices (devices s) (b_device B),
        trace := trace (VdspIon_dtor E (the (ions s (b_ionhandle B))) s) @
                 released_calls (devices s) (b_device B)\<rparr>))"

lemma VdspIon_dtor_trace:
  "VdspIon_dtor E ion s = s\<lparr>trace := trace (VdspIon_dtor E ion s)\<rparr>"
  using VdspIon_dtor_frame [of s E ion] by (simp add: same_but_trace_def)

lemma VdspIon_dtor_buffers [simp]:
  "trace (VdspIon_dtor E ion (s\<lparr>buffers := bf\<rparr>)) = trace (VdspIon_dtor E ion s)"
  by (simp add: VdspIon_dtor_def is_ion_legacy_def sys_def Let_def)

text \<open>What a release relies on when it is the last one of a device buffer.\<close>

definition releasable :: "xrp_state \<Rightarrow> xrp_buffer \<Rightarrow> bool" where
  "releasable s B \<longleftrightarrow> devices_ok s \<and> devices s 0 = None \<and> (b_type B = XRP_BUFFER_TYPE_DEVICE \<longrightarrow>
     b_ionhandle B \<noteq> 0 \<and> ions s (b_ionhandle B) \<noteq> None \<and> devices s (b_device B) \<noteq> None)"

lemma releasable_inv:
  assumes i: "inv X L s" and p: "buffers s p = Some B"
  shows "releasable s B"
proof -
  have fin: "finite (dom (buffers s))" using invD(1) [OF i] by (simp add: maps_ok_def)
  have "devices s (b_device B) \<noteq> None" if "b_type B = XRP_BUFFER_TYPE_DEVICE"
  proof -
    have "buffer_dev (b_device B) B \<le> msum (buffers s) (buffer_dev (b_device B))"
      by (rule msum_ge [OF fin p])
    then have "0 < cnt s (Dev (b_device B))"
      using refs_okD [OF invD(9) [OF i], of "Dev (b_device B)"] that by (simp add: buffer_dev_def)
    then show ?thesis by (auto split: option.splits)
  qed
  then show ?thesis using invD(1,3,4) [OF i] p
    unfolding releasable_def buffers_ok_def maps_ok_def by blast
qed

lemma release_buffer_eq_raw:
  assumes r: "releasable s B" and p: "buffers s p = Some B"
  shows "xrp_release_buffer E p s = Some (released_buffer E B p s)"
proof (cases "b_count B = 1 \<and> b_type B = XRP_BUFFER_TYPE_DEVICE")
  case False
  then show ?thesis using p
    by (cases "b_type B") (auto simp: xrp_release_buffer_def last_release_refcounted_def
        released_buffer_def put_buffer_def free_buffer_def)
next
  case True
  then obtain ion D where h: "b_ionhandle B \<noteq> 0" "ions s (b_ionhandle B) = Some ion"
    and D: "devices s (b_device B) = Some D" and ok: "devices_ok s" "devices s 0 = None"
    using r by (auto simp: releasable_def)
  define s1 where "s1 = put_buffer p (B\<lparr>b_count := 0\<rparr>) s"
  define s2 where "s2 = s1\<lparr>ions := (ions s1)(b_ionhandle B := None),
    trace := trace (VdspIon_dtor E ion s1)\<rparr>"
  have free: "vdsp_free_ionmem E (b_ionhandle B) s1 = Some (SPRD_XRP_STATUS_SUCCESS, s2)"
    using h VdspIon_dtor_trace [of E ion s1]
    by (simp add: vdsp_free_ionmem_def s1_def s2_def put_buffer_def Let_def)
  have rel: "xrp_release_device E (b_device B) s2 =
      Some (s2\<lparr>devices := released_devices (devices s2) (b_device B),
               trace := trace s2 @ released_calls (devices s2) (b_device B)\<rparr>)"
    using D ok by (intro release_device_eq) (simp_all add: s2_def s1_def put_buffer_def)
  show ?thesis using True p h free rel
    by (simp add: xrp_release_buffer_def last_release_refcounted_def
        xrp_impl_release_device_buffer_def s1_def [symmetric] released_buffer_def)
      (simp add: s1_def s2_def put_buffer_def free_buffer_def)
qed

lemma release_buffer_eq:
  assumes "inv X L s" and "buffers s p = Some B"
  shows "xrp_release_buffer E p s = Some (released_buffer E B p s)"
  using release_buffer_eq_raw [OF releasable_inv [OF assms] assms(2)] .

lemma released_buffer_inv:
  assumes i: "inv X L s" and p: "buffers s p = Some B" and x: "0 < X (Buf p)"
  shows "inv (X(Buf p := X (Buf p) - 1)) L (released_buffer E B p s)"
proof (cases "b_count B = 1")
  case False
  have "b_count B \<noteq> 0" using invD(2) [OF i] p by (auto simp: counts_ok_def)
  from release_count [OF this False] show ?thesis using False x
    by (simp add: released_buffer_def) (rule inv_buffer_upd [OF i p]; simp)
next
  case True
  have x1: "X (Buf p) = 1" using refs_okD [OF invD(9) [OF i], of "Buf p"] p x True by simp
  show ?thesis
  proof (cases "b_type B")
    case XRP_BUFFER_TYPE_HOST
    then show ?thesis using inv_buffer_gone [OF i p True x1 refl] True x1
      by (simp add: released_buffer_def)
  next
    case XRP_BUFFER_TYPE_DEVICE
    let ?d = "b_device B" and ?X = "X(Dev (b_device B) := X (Dev (b_device B)) + 1, Buf p := 0)"
    let ?s = "free_buffer p (s\<lparr>ions := (ions s)(b_ionhandle B := None)\<rparr>)"
    have "inv ?X L ?s"
      using inv_buffer_gone [OF i p True x1 refl] XRP_BUFFER_TYPE_DEVICE by simp
    from released_devices_inv [OF this, of ?d]
    have "inv (?X(Dev ?d := X (Dev ?d))) L (?s\<lparr>devices := released_devices (devices ?s) ?d\<rparr>)"
      by simp
    moreover have "?X(Dev ?d := X (Dev ?d)) = X(Buf p := 0)" by auto
    ultimately have "inv (X(Buf p := 0)) L
        (?s\<lparr>devices := released_devices (devices ?s) ?d, trace := tr\<rparr>)" for tr
      by simp
    moreover have "released_buffer E B p s =
        ?s\<lparr>devices := released_devices (devices ?s) ?d,
           trace := trace (VdspIon_dtor E (the (ions s (b_ionhandle B))) s) @
                    released_calls (devices s) (b_device B)\<rparr>"
      using True XRP_BUFFER_TYPE_DEVICE by (simp add: released_buffer_def free_buffer_def)
    ultimately show ?thesis using x1 by simp
  qed
qed

lemma release_buffer_inv:
  assumes i: "inv X L s" and x: "0 < X (Buf p)"
  shows "returns (xrp_release_buffer E p s) (inv (X(Buf p := X (Buf p) - 1)) L)"
  using owned_live(2) [OF i x] released_buffer_inv [OF i _ x] by (auto simp: release_buffer_eq [OF i])

section \<open>Creation\<close>

text \<open>\<open>new VdspIon\<close> aborts when it gets no memory: the address it is given is null, in use,
  or the one just handed out for the buffer.\<close>

definition new_fails :: "env \<Rightarrow> ptr \<Rightarrow> xrp_state \<Rightarrow> bool" where
  "new_fails E b s = (let p = env_alloc E (Suc (allocs s)) in p = 0 \<or> \<not> fresh s p \<or> p = b)"

lemma alloc_ionmem_none: "vdsp_alloc_ionmem E sz c s = None \<longleftrightarrow> new_ptr E s = 0"
  by (auto simp: vdsp_alloc_ionmem_def malloc_def split: prod.splits)

lemma alloc_ionmem_frame:
  assumes "vdsp_alloc_ionmem E sz c s = Some (h, fd, va, s1)"
  obtains ion tr where "s1 = s\<lparr>allocs := Suc (allocs s), trace := tr, ions := (ions s)(h \<mapsto> ion)\<rparr>"
    and "h \<noteq> 0" and "fresh s h" and "fd = mFD ion" and "va = mBase ion"
proof -
  obtain dev fl mt ion s' where c: "VdspIon E dev (ucast sz) fl mt (s\<lparr>allocs := Suc (allocs s)\<rparr>) = (ion, s')"
    and s1: "s1 = s'\<lparr>ions := (ions s')(h \<mapsto> ion)\<rparr>" and h: "h \<noteq> 0" "fresh s h"
    and fd: "fd = mFD ion" "va = mBase ion"
    using assms by (rule vdsp_alloc_ionmemE)
  have "same_but_trace (s\<lparr>allocs := Suc (allocs s)\<rparr>) s'"
    using VdspIon_frame [OF same_but_trace_refl, of "s\<lparr>allocs := Suc (allocs s)\<rparr>"] c
    by (metis snd_conv)
  then have s': "s' = s\<lparr>allocs := Suc (allocs s), trace := trace s'\<rparr>"
    by (simp add: same_but_trace_def)
  have "s1 = s\<lparr>allocs := Suc (allocs s), trace := trace s', ions := (ions s)(h \<mapsto> ion)\<rparr>"
    unfolding s1 by (subst (1 2) s') simp
  then show thesis using h fd by (rule that)
qed

text \<open>The store a successful creation leaves.\<close>

definition new_device_buffer ::
    "ptr \<Rightarrow> size_t \<Rightarrow> ptr \<Rightarrow> vdsp_ion \<Rightarrow> xrp_buffer" where
  "new_device_buffer d sz h ion = zero_buffer\<lparr>b_count := 1, b_device := d,
     b_type := XRP_BUFFER_TYPE_DEVICE, b_ptr := mBase ion, b_size := sz, b_ion_fd := mFD ion,
     b_ionhandle := h\<rparr>"

definition new_host_buffer :: "size_t \<Rightarrow> ptr \<Rightarrow> i32 \<Rightarrow> xrp_buffer" where
  "new_host_buffer sz p fd = zero_buffer\<lparr>b_count := 1, b_ptr := p, b_size := sz, b_ion_fd := fd\<rparr>"

lemma create_host_buffer_eq:
  assumes "fd \<noteq> - 1" and "host_ptr \<noteq> 0 \<or> device \<noteq> 0"
  shows "xrp_create_buffer E device sz host_ptr fd s =
    (let b = new_ptr E s; s = s\<lparr>allocs := Suc (allocs s)\<rparr>
     in Some (if b = 0 then (0, XRP_STATUS_FAILURE, s)
        else (b, XRP_STATUS_SUCCESS, put_buffer b (new_host_buffer sz host_ptr fd) s)))"
  using assms
  by (auto simp: xrp_create_buffer_def alloc_refcounted_eq Let_def put_buffer_def zero_buffer_def
      new_host_buffer_def)

lemma create_device_buffer_cases:
  assumes d: "devices s d = Some D" "d \<noteq> 0" and b: "new_ptr E s = b" "b \<noteq> 0"
  obtains (aborts) "new_fails E b s" "xrp_create_buffer E d sz host_ptr (- 1) s = None"
  | (created) h ion tr where "\<not> new_fails E b s" "h \<noteq> 0" "fresh s h" "h \<noteq> b"
      "xrp_create_buffer E d sz host_ptr (- 1) s = Some (b, XRP_STATUS_SUCCESS,
         put_buffer b (new_device_buffer d sz h ion) (s\<lparr>allocs := allocs s + 2, trace := tr,
           devices := (devices s)(d \<mapsto> D\<lparr>d_count := retain_refcounted (d_count D)\<rparr>),
           ions := (ions s)(h \<mapsto> ion)\<rparr>))"
proof -
  define B0 where "B0 = zero_buffer\<lparr>b_count := 1, b_type := XRP_BUFFER_TYPE_DEVICE, b_device := d\<rparr>"
  define s2 where "s2 = put_buffer b B0 (s\<lparr>allocs := Suc (allocs s),
    devices := (devices s)(d \<mapsto> D\<lparr>d_count := retain_refcounted (d_count D)\<rparr>)\<rparr>)"
  have fr: "fresh s2 p \<longleftrightarrow> fresh s p \<and> p \<noteq> b" for p
    using d by (auto simp: fresh_def s2_def put_buffer_def)
  have nf: "new_ptr E s2 = 0 \<longleftrightarrow> new_fails E b s"
  proof -
    have "allocs s2 = Suc (allocs s)" by (simp add: s2_def put_buffer_def)
    then show ?thesis by (simp add: new_ptr_def new_fails_def Let_def fr)
  qed
  note defs = xrp_create_buffer_def alloc_refcounted_eq xrp_impl_create_device_buffer_def Let_def
    xrp_retain_device_def put_buffer_def
  show thesis
  proof (cases "vdsp_alloc_ionmem E (ucast sz) 1 s2")
    case None
    then show thesis using nf alloc_ionmem_none [THEN iffD1, OF None]
        d b None [unfolded s2_def B0_def put_buffer_def]
      by (intro aborts) (simp, simp add: defs)
  next
    case (Some a)
    obtain h fd va s3 where a: "a = (h, fd, va, s3)" by (cases a)
    obtain ion tr where s3: "s3 = s2\<lparr>allocs := Suc (allocs s2), trace := tr, ions := (ions s2)(h \<mapsto> ion)\<rparr>"
      and h: "h \<noteq> 0" "fresh s2 h" and m: "fd = mFD ion" "va = mBase ion"
      using Some unfolding a by (rule alloc_ionmem_frame)
    have "\<not> new_fails E b s" using Some nf alloc_ionmem_none by (metis option.distinct(1))
    then show thesis
    proof (rule created)
      show "h \<noteq> 0" "fresh s h" "h \<noteq> b" using h fr by auto
      show "xrp_create_buffer E d sz host_ptr (- 1) s = Some (b, XRP_STATUS_SUCCESS,
         put_buffer b (new_device_buffer d sz h ion) (s\<lparr>allocs := allocs s + 2, trace := tr,
           devices := (devices s)(d \<mapsto> D\<lparr>d_count := retain_refcounted (d_count D)\<rparr>),
           ions := (ions s)(h \<mapsto> ion)\<rparr>))"
        using d b h Some [unfolded a s2_def B0_def put_buffer_def]
        by (simp add: defs s3 s2_def new_device_buffer_def m B0_def zero_buffer_def)
    qed
  qed
qed

text \<open>What a caller gets: a failure that changes nothing it sees, or a buffer it owns.\<close>

definition created_buffer :: "refs \<Rightarrow> (ptr \<Rightarrow> ptr list) \<Rightarrow> size_t \<Rightarrow> ptr \<times> xrp_status \<times> xrp_state \<Rightarrow> bool" where
  "created_buffer X L sz r = (case r of (b, st, s') \<Rightarrow>
     (b = 0 \<and> st = XRP_STATUS_FAILURE \<and> inv X L s') \<or>
     (b \<noteq> 0 \<and> st = XRP_STATUS_SUCCESS \<and> X (Buf b) = 0 \<and> inv (X(Buf b := 1)) L s' \<and>
      (\<exists>B. buffers s' b = Some B \<and> b_size B = sz \<and> b_count B = 1)))"

lemma create_host_buffer_inv:
  assumes i: "inv X L s" and fd: "fd \<noteq> - 1"
  shows "returns (xrp_create_buffer E device sz host_ptr fd s) (created_buffer X L sz)"
proof (cases "host_ptr = 0 \<and> device = 0")
  case True
  then show ?thesis using i by (simp add: xrp_create_buffer_def created_buffer_def)
next
  case False
  define b where "b = new_ptr E s"
  define s1 where "s1 = s\<lparr>allocs := Suc (allocs s)\<rparr>"
  have i1: "inv X L s1" using i by (simp add: s1_def)
  have "inv (X(Buf b := 1)) L (put_buffer b (new_host_buffer sz host_ptr fd) s1)" and "X (Buf b) = 0"
    if "b \<noteq> 0"
  proof -
    have f: "buffers s1 b = None" using that new_ptr_fresh [of E s]
      by (simp add: b_def s1_def fresh_def)
    then show "X (Buf b) = 0" using dead_refs(1) [OF i1, of "Buf b"] by simp
    show "inv (X(Buf b := 1)) L (put_buffer b (new_host_buffer sz host_ptr fd) s1)"
      using inv_buffer_new [OF i1 that f, of "new_host_buffer sz host_ptr fd" "ions s1" undefined]
      by (simp add: new_host_buffer_def zero_buffer_def)
  qed
  then show ?thesis using i1 False fd
    by (simp add: create_host_buffer_eq Let_def b_def [symmetric] s1_def [symmetric]
        created_buffer_def put_buffer_def new_host_buffer_def)
qed

lemma create_device_buffer_inv:
  assumes i: "inv X L s" and d: "0 < cnt s (Dev d)" "cnt s (Dev d) + 1 < 2 ^ 64"
  shows "returns_unless (new_fails E (new_ptr E s) s) (xrp_create_buffer E d sz host_ptr (- 1) s)
    (created_buffer X L sz)"
proof -
  obtain D where D: "devices s d = Some D" using d(1) by (auto split: option.splits)
  have d0: "d \<noteq> 0" using D invD(1) [OF i] by (auto simp: maps_ok_def)
  define b where "b = new_ptr E s"
  show ?thesis
  proof (cases "b = 0")
    case True
    then show ?thesis using d0 i
      by (simp add: xrp_create_buffer_def alloc_refcounted_eq b_def created_buffer_def)
  next
    case False
    have f: "buffers s b = None" "fresh s b" using False new_ptr_fresh [of E s]
      by (simp_all add: b_def fresh_def)
    from D d0 b_def [symmetric] False show ?thesis
    proof (cases rule: create_device_buffer_cases [where host_ptr = host_ptr and sz = sz])
      case aborts
      then show ?thesis by (simp add: b_def)
    next
      case (created h ion tr)
      define m where "m = (devices s)(d \<mapsto> D\<lparr>d_count := retain_refcounted (d_count D)\<rparr>)"
      define s1 where "s1 = s\<lparr>allocs := allocs s + 2, trace := tr, devices := m\<rparr>"
      have "inv (X(Dev d := X (Dev d) + 1)) L (s\<lparr>devices := m\<rparr>)"
        using retain_device_inv [OF i d] D by (simp add: xrp_retain_device_def m_def)
      moreover have "s1 = (s\<lparr>devices := m\<rparr>)\<lparr>allocs := allocs s + 2, trace := tr\<rparr>"
        by (simp add: s1_def)
      ultimately have i1: "inv (X(Dev d := X (Dev d) + 1)) L s1" by simp
      have "inv ((X(Dev d := X (Dev d) + 1))(Dev d := X (Dev d), Buf b := 1)) L
          (put_buffer b (new_device_buffer d sz h ion) (s1\<lparr>ions := (ions s1)(h \<mapsto> ion)\<rparr>))"
        using inv_buffer_new [OF i1 False, of "new_device_buffer d sz h ion" _ ion] created(2,3) f
        by (simp add: new_device_buffer_def zero_buffer_def s1_def fresh_def)
      then have "inv (X(Buf b := 1)) L
          (put_buffer b (new_device_buffer d sz h ion) (s1\<lparr>ions := (ions s1)(h \<mapsto> ion)\<rparr>))"
        by simp
      moreover have "X (Buf b) = 0" using dead_refs(1) [OF i, of "Buf b"] f by simp
      ultimately show ?thesis using created(5) False
        by (simp add: created_buffer_def s1_def m_def put_buffer_def new_device_buffer_def)
    qed
  qed
qed

section \<open>Mapping\<close>

text \<open>A successful map lies inside the buffer; its reference is the buffer's own.\<close>

lemma map_buffer_inv:
  assumes i: "inv X L s" and p: "0 < cnt s (Buf p)" "cnt s (Buf p) + 1 < 2 ^ 64"
  shows "returns (xrp_map_buffer p off sz fl s) (\<lambda>(q, st, s'). inv X L s' \<and>
    (\<exists>B. buffers s p = Some B \<and>
      (if unat off + unat sz \<le> unat (b_size B)
       then st = XRP_STATUS_SUCCESS \<and> q = b_ptr B + off else st = XRP_STATUS_FAILURE \<and> q = 0 \<and> s' = s)))"
proof -
  obtain B where B: "buffers s p = Some B" using p(1) by (auto split: option.splits)
  have c: "unat (b_count B) + 1 < 2 ^ 64" using p(2) B by simp
  have "msum (groups s) (group_buf p) + unat (b_map_count B) \<le> unat (b_count B)"
    using refs_okD [OF invD(9) [OF i], of "Buf p"] B by (simp add: map_refs_def)
  then have m: "unat (b_map_count B + 1) = unat (b_map_count B) + 1" using c by (intro unat_inc) simp
  have b: "off \<le> b_size B \<and> sz \<le> b_size B - off \<longleftrightarrow> unat off + unat sz \<le> unat (b_size B)"
    by (auto simp: word_le_nat_alt unat_sub)
  define B' where "B' = B\<lparr>b_count := retain_refcounted (b_count B), b_map_count := b_map_count B + 1,
    b_map_flags := b_map_flags B OR fl\<rparr>"
  have "inv (X(Buf p := X (Buf p))) L (put_buffer p B' s)"
    by (rule inv_buffer_upd [OF i B]) (use retain_count [OF c] m in \<open>simp_all add: B'_def\<close>)
  then show ?thesis using B i by (simp add: xrp_map_buffer_def b B'_def)
qed

text \<open>Unmapping takes back what a map took, for a pointer inside the buffer.\<close>

lemma unmap_buffer_inv:
  assumes i: "inv X L s" and B: "buffers s p = Some B" and m: "b_map_count B \<noteq> 0"
  shows "returns (xrp_unmap_buffer E p q s) (\<lambda>(st, s'). inv X L s' \<and>
    (st = XRP_STATUS_SUCCESS \<longleftrightarrow> b_ptr B \<le> q \<and> q - b_ptr B \<le> b_size B) \<and>
    (st \<noteq> XRP_STATUS_SUCCESS \<longrightarrow> s' = s))"
proof (cases "b_ptr B \<le> q \<and> q - b_ptr B \<le> b_size B")
  case False
  then show ?thesis using i B by (auto simp: xrp_unmap_buffer_def)
next
  case True
  define s1 where "s1 = put_buffer p (B\<lparr>b_map_count := b_map_count B - 1\<rparr>) s"
  have "b_count B \<noteq> 0" using invD(2) [OF i] B by (auto simp: counts_ok_def)
  moreover have "0 < unat (b_map_count B)" using m by (simp add: unat_gt_0)
  ultimately have i1: "inv (X(Buf p := X (Buf p) + 1)) L s1"
    unfolding s1_def by (intro inv_buffer_upd [OF i B]) (simp_all add: unat_dec [OF m])
  have "returns (xrp_release_buffer E p s1) (inv X L)"
    using release_buffer_inv [OF i1, of p E] by (simp del: One_nat_def)
  then show ?thesis using True B
    by (simp add: xrp_unmap_buffer_def s1_def [symmetric])
qed

lemma set_apptr_inv:
  assumes i: "inv X L s" and p: "0 < cnt s (Buf p)"
  shows "returns (sprd_xrp_set_apptr p a s) (inv X L)"
proof -
  obtain B where B: "buffers s p = Some B" using p by (auto split: option.splits)
  then have "b_count B \<noteq> 0" using invD(2) [OF i] by (auto simp: counts_ok_def)
  then have "inv (X(Buf p := X (Buf p))) L (put_buffer p (B\<lparr>b_apptr := a\<rparr>) s)"
    by (intro inv_buffer_upd [OF i B]) simp_all
  then show ?thesis using i B by (simp add: sprd_xrp_set_apptr_def)
qed

end
