(* ===== verification/Xrp_Group.thy ===== *)
theory Xrp_Group
  imports Xrp_Buffer
begin

text \<open>
  Buffer groups: a growing array of buffer references under a mutex. A group holds one
  reference to every buffer in it; the last release of the group gives them back. The group
  is refined to the list of its records: adding appends, setting updates one place, getting
  reads it.
\<close>

section \<open>Operations\<close>

definition put_group :: "ptr \<Rightarrow> xrp_buffer_group \<Rightarrow> xrp_state \<Rightarrow> xrp_state" where
  "put_group g G s = s\<lparr>groups := (groups s)(g \<mapsto> G)\<rparr>"

definition free_group :: "ptr \<Rightarrow> xrp_state \<Rightarrow> xrp_state" where
  "free_group g s = s\<lparr>groups := (groups s)(g := None)\<rparr>"

definition xrp_create_buffer_group :: "env \<Rightarrow> xrp_state \<Rightarrow> ptr \<times> xrp_status \<times> xrp_state" where
  "xrp_create_buffer_group E s =
     (let (grp, count, s) = alloc_refcounted E s
      in if grp \<noteq> 0
         then (grp, XRP_STATUS_SUCCESS, put_group grp \<lparr>g_count = count, g_mutex = False,
                 g_n_buffers = 0, g_capacity = 0, g_buffer = []\<rparr> s)
         else (0, XRP_STATUS_FAILURE, s))"

definition xrp_retain_buffer_group :: "ptr \<Rightarrow> xrp_state \<Rightarrow> xrp_state option" where
  "xrp_retain_buffer_group grp s =
     do { G \<leftarrow> groups s grp;
          Some (put_group grp (G\<lparr>g_count := retain_refcounted (g_count G)\<rparr>) s) }"

text \<open>The record in a slot of the array: a slot outside the allocation, or never written,
  has none.\<close>

definition slot :: "xrp_buffer_group \<Rightarrow> size_t \<Rightarrow> xrp_buffer_group_record option" where
  "slot G i = (if unat i < length (g_buffer G) then g_buffer G ! unat i else None)"

text \<open>The loop over the buffers, from index \<open>i\<close> on; the group is not touched by it.\<close>

fun release_members ::
    "env \<Rightarrow> xrp_buffer_group \<Rightarrow> nat \<Rightarrow> size_t \<Rightarrow> xrp_state \<Rightarrow> xrp_state option" where
  "release_members E G 0 i s = Some s"
| "release_members E G (Suc k) i s =
     do { r \<leftarrow> slot G i;
          s \<leftarrow> xrp_release_buffer E (gr_buffer r) s;
          release_members E G k (i + 1) s }"

definition xrp_release_buffer_group :: "env \<Rightarrow> ptr \<Rightarrow> xrp_state \<Rightarrow> xrp_state option" where
  "xrp_release_buffer_group E grp s =
     do { G \<leftarrow> groups s grp;
          let (last, c) = last_release_refcounted (g_count G);
          let G = G\<lparr>g_count := c\<rparr>;
          if last
          then do { m \<leftarrow> xrp_mutex_lock (g_mutex G);
                    let G = G\<lparr>g_mutex := m\<rparr>;
                    s \<leftarrow> release_members E G (unat (g_n_buffers G)) 0 (put_group grp G s);
                    G \<leftarrow> groups s grp;
                    m \<leftarrow> xrp_mutex_unlock (g_mutex G);
                    Some (free_group grp s) }
          else Some (put_group grp G s) }"

text \<open>\<open>realloc\<close> moves the array to \<open>sz\<close> bytes: as many records of sixteen bytes as fit, the
  old ones kept.\<close>

definition realloc_records ::
    "xrp_buffer_group_record option list \<Rightarrow> size_t \<Rightarrow> xrp_buffer_group_record option list" where
  "realloc_records bf sz = (let n = unat sz div 16 in take n (bf @ replicate n None))"

definition xrp_add_buffer_to_group ::
    "env \<Rightarrow> ptr \<Rightarrow> ptr \<Rightarrow> u32 \<Rightarrow> xrp_state \<Rightarrow> (size_t \<times> xrp_status \<times> xrp_state) option" where
  "xrp_add_buffer_to_group E grp buffer access_flags s =
     do { G \<leftarrow> groups s grp;
          m \<leftarrow> xrp_mutex_lock (g_mutex G);
          let G = G\<lparr>g_mutex := m\<rparr>;
          let (grown, G, s) =
            (if g_n_buffers G = g_capacity G
             then (let (r, s) = malloc E s
                   in if r = 0 then (False, G, s)
                      else (True, G\<lparr>g_capacity := (g_capacity G + 2) * 2,
                              g_buffer := realloc_records (g_buffer G) (16 * ((g_capacity G + 2) * 2))\<rparr>, s))
             else (True, G, s));
          if \<not> grown
          then do { m \<leftarrow> xrp_mutex_unlock (g_mutex G);
                    Some (- 1, XRP_STATUS_FAILURE, put_group grp (G\<lparr>g_mutex := m\<rparr>) s) }
          else do { s \<leftarrow> xrp_retain_buffer buffer s;
                    let n = g_n_buffers G;
                    _ \<leftarrow> (if unat n < length (g_buffer G) then Some () else None);
                    let G = G\<lparr>g_buffer := (g_buffer G)[unat n :=
                                Some \<lparr>gr_buffer = buffer, gr_access_flags = access_flags\<rparr>],
                              g_n_buffers := n + 1\<rparr>;
                    m \<leftarrow> xrp_mutex_unlock (g_mutex G);
                    Some (n, XRP_STATUS_SUCCESS, put_group grp (G\<lparr>g_mutex := m\<rparr>) s) } }"

definition xrp_set_buffer_in_group ::
    "env \<Rightarrow> ptr \<Rightarrow> size_t \<Rightarrow> ptr \<Rightarrow> u32 \<Rightarrow> xrp_state \<Rightarrow> (xrp_status \<times> xrp_state) option" where
  "xrp_set_buffer_in_group E grp index buffer access_flags s =
     do { s \<leftarrow> xrp_retain_buffer buffer s;
          G \<leftarrow> groups s grp;
          m \<leftarrow> xrp_mutex_lock (g_mutex G);
          let G = G\<lparr>g_mutex := m\<rparr>;
          (old_buffer, status, G) \<leftarrow>
            (if index < g_n_buffers G
             then do { r \<leftarrow> slot G index;
                       Some (gr_buffer r, XRP_STATUS_SUCCESS,
                         G\<lparr>g_buffer := (g_buffer G)[unat index :=
                           Some \<lparr>gr_buffer = buffer, gr_access_flags = access_flags\<rparr>]\<rparr>) }
             else Some (buffer, XRP_STATUS_FAILURE, G));
          m \<leftarrow> xrp_mutex_unlock (g_mutex G);
          s \<leftarrow> xrp_release_buffer E old_buffer (put_group grp (G\<lparr>g_mutex := m\<rparr>) s);
          Some (status, s) }"

definition xrp_get_buffer_from_group ::
    "ptr \<Rightarrow> size_t \<Rightarrow> xrp_state \<Rightarrow> (ptr \<times> xrp_status \<times> xrp_state) option" where
  "xrp_get_buffer_from_group grp idx s =
     do { G \<leftarrow> groups s grp;
          m \<leftarrow> xrp_mutex_lock (g_mutex G);
          let G = G\<lparr>g_mutex := m\<rparr>;
          (buffer, status, s) \<leftarrow>
            (if idx < g_n_buffers G
             then do { r \<leftarrow> slot G idx;
                       s \<leftarrow> xrp_retain_buffer (gr_buffer r) s;
                       Some (gr_buffer r, XRP_STATUS_SUCCESS, s) }
             else Some (0, XRP_STATUS_FAILURE, s));
          m \<leftarrow> xrp_mutex_unlock (g_mutex G);
          Some (buffer, status, put_group grp (G\<lparr>g_mutex := m\<rparr>) s) }"

datatype xrp_buffer_group_info =
  XRP_BUFFER_GROUP_BUFFER_FLAGS_ENUM | XRP_BUFFER_GROUP_SIZE_SIZE_T

text \<open>The result carries the bytes copied out as one word: four for the flags, eight for the
  number of buffers. \<open>info\<close> is \<^const>\<open>None\<close> for any other value of the enum's type.\<close>

definition xrp_buffer_group_get_info ::
    "ptr \<Rightarrow> xrp_buffer_group_info option \<Rightarrow> size_t \<Rightarrow> size_t \<Rightarrow> xrp_state
       \<Rightarrow> (64 word option \<times> xrp_status \<times> xrp_state) option" where
  "xrp_buffer_group_get_info grp info idx out_sz s =
     do { G \<leftarrow> groups s grp;
          m \<leftarrow> xrp_mutex_lock (g_mutex G);
          let G = G\<lparr>g_mutex := m\<rparr>;
          field \<leftarrow> (case info of
              Some XRP_BUFFER_GROUP_BUFFER_FLAGS_ENUM \<Rightarrow>
                (if idx \<ge> g_n_buffers G then Some None
                 else do { r \<leftarrow> slot G idx; Some (Some (4, ucast (gr_access_flags r))) })
            | Some XRP_BUFFER_GROUP_SIZE_SIZE_T \<Rightarrow> Some (Some (8, g_n_buffers G))
            | None \<Rightarrow> Some None);
          let out = (case field of None \<Rightarrow> (None, XRP_STATUS_FAILURE)
            | Some (sz, v) \<Rightarrow> if sz = out_sz then (Some v, XRP_STATUS_SUCCESS)
                              else (None, XRP_STATUS_FAILURE));
          m \<leftarrow> xrp_mutex_unlock (g_mutex G);
          Some (fst out, snd out, put_group grp (G\<lparr>g_mutex := m\<rparr>) s) }"

section \<open>The records of a group\<close>

lemma slot_record:
  assumes "group_ok G" and "i < g_n_buffers G"
  shows "slot G i = Some (group_records G ! unat i)" and "unat i < length (group_records G)"
    and "unat i < length (g_buffer G)"
proof -
  have l: "unat i < unat (g_n_buffers G)" "unat (g_n_buffers G) \<le> length (g_buffer G)"
    using assms by (simp_all add: group_ok_def word_less_nat_alt word_le_nat_alt)
  then show "unat i < length (g_buffer G)" by simp
  show "unat i < length (group_records G)" using l by (simp add: group_records_def)
  have "g_buffer G ! unat i \<noteq> None" using assms(1) l by (simp add: group_ok_def)
  then show "slot G i = Some (group_records G ! unat i)"
    using l by (simp add: slot_def group_records_def)
qed

lemma group_records_length: "group_ok G \<Longrightarrow> length (group_records G) = unat (g_n_buffers G)"
  by (simp add: group_records_def group_ok_def word_le_nat_alt)

lemma group_records_simps [simp]:
  "group_records (G\<lparr>g_mutex := m\<rparr>) = group_records G"
  "group_records (G\<lparr>g_count := c\<rparr>) = group_records G"
  "group_records (G\<lparr>g_capacity := k\<rparr>) = group_records G"
  "group_bufs (G\<lparr>g_mutex := m\<rparr>) = group_bufs G" "group_bufs (G\<lparr>g_count := c\<rparr>) = group_bufs G"
  "group_buf b (G\<lparr>g_mutex := m\<rparr>) = group_buf b G" "group_buf b (G\<lparr>g_count := c\<rparr>) = group_buf b G"
  by (simp_all add: group_records_def group_bufs_def group_buf_def)

lemma group_ok_unlocked: "group_ok G \<Longrightarrow> G\<lparr>g_mutex := False\<rparr> = G"
  by (cases G) (simp add: group_ok_def)

lemma slot_simps [simp]:
  "slot (G\<lparr>g_mutex := m\<rparr>) i = slot G i" "slot (G\<lparr>g_count := c\<rparr>) i = slot G i"
  by (simp_all add: slot_def)

section \<open>Changing, adding and removing a group\<close>

lemma groups_ok_upd: "groups_ok s \<Longrightarrow> group_ok G \<Longrightarrow> groups_ok (put_group g G s)"
  by (simp add: groups_ok_def put_group_def)

text \<open>A group that changes trades references with the clients: what it no longer holds they
  hold, and the other way round.\<close>

definition traded :: "(ptr \<Rightarrow> nat) \<Rightarrow> (ptr \<Rightarrow> nat) \<Rightarrow> refs \<Rightarrow> refs \<Rightarrow> bool" where
  "traded old new X X' \<longleftrightarrow> (\<forall>b. X' (Buf b) + new b = X (Buf b) + old b) \<and>
     (\<forall>ob. (\<forall>b. ob \<noteq> Buf b) \<longrightarrow> X' ob = X ob)"

lemma inv_group_upd:
  assumes i: "inv X L s" and g: "groups s g = Some G" and G': "group_ok G'" "g_count G' = g_count G"
    and X': "traded (\<lambda>b. group_buf b G) (\<lambda>b. group_buf b G') X X'"
  shows "inv X' L (put_group g G' s)"
proof -
  let ?s = "put_group g G' s"
  have fin: "finite (dom (groups s))" using invD(1) [OF i] by (simp add: maps_ok_def)
  have "cnt ?s ob = X' ob + irefs (pend L s) ?s ob" for ob
  proof (cases ob)
    case (Buf b)
    have "group_buf b G \<le> msum (groups s) (group_buf b)" by (rule msum_ge [OF fin g])
    moreover have "X' (Buf b) + group_buf b G' = X (Buf b) + group_buf b G"
      using X' by (simp add: traded_def)
    ultimately show ?thesis
      using refs_okD [OF invD(9) [OF i], of ob] Buf
      by (simp add: put_group_def msum_upd [OF fin g])
  qed (use refs_okD [OF invD(9) [OF i], of ob] X' g G' in \<open>auto simp: put_group_def traded_def\<close>)
  then have "refs_ok X' (pend L ?s) ?s" by (simp add: refs_ok_def put_group_def)
  moreover have "g_count G' \<noteq> 0" using G' g invD(2) [OF i] by (auto simp: counts_ok_def)
  ultimately show ?thesis using invD(1,2,5,10) [OF i] g groups_ok_upd [OF invD(5) [OF i] G'(1), of g]
    by (auto simp: inv_def store_ok_def maps_ok_def counts_ok_def put_group_def)
qed

lemma inv_group_new:
  assumes i: "inv X L s" and g: "g \<noteq> 0" "groups s g = None"
    and G: "group_ok G" "g_count G = 1" "group_records G = []"
  shows "inv (X(Grp g := 1)) L (put_group g G s)"
proof -
  let ?s = "put_group g G s"
  have fin: "finite (dom (groups s))" using invD(1) [OF i] by (simp add: maps_ok_def)
  have z: "X (Grp g) = 0" "irefs (pend L s) s (Grp g) = 0"
    using dead_refs [OF i, of "Grp g"] g by simp_all
  have "cnt ?s ob = (X(Grp g := 1)) ob + irefs (pend L s) ?s ob" for ob
  proof (cases ob)
    case (Buf b)
    then show ?thesis using refs_okD [OF invD(9) [OF i], of ob] G
      by (simp add: put_group_def msum_new [OF fin g(2)] group_buf_def group_bufs_def)
  qed (use refs_okD [OF invD(9) [OF i], of ob] G z in \<open>auto simp: put_group_def\<close>)
  then have "refs_ok (X(Grp g := 1)) (pend L ?s) ?s" by (simp add: refs_ok_def put_group_def)
  then show ?thesis using invD(1,2,5,10) [OF i] g G groups_ok_upd [OF invD(5) [OF i] G(1), of g]
    by (auto simp: inv_def store_ok_def maps_ok_def counts_ok_def put_group_def simp del: One_nat_def)
qed

lemma inv_group_gone:
  assumes i: "inv X L s" and g: "groups s g = Some G" and x: "X (Grp g) = 1" "g_count G = 1"
    and X': "traded (\<lambda>b. group_buf b G) (\<lambda>_. 0) X X'"
  shows "inv (X'(Grp g := 0)) L (free_group g s)"
proof -
  let ?s = "free_group g s"
  have fin: "finite (dom (groups s))" using invD(1) [OF i] by (simp add: maps_ok_def)
  have z: "irefs (pend L s) s (Grp g) = 0"
    using refs_okD [OF invD(9) [OF i], of "Grp g"] g x by simp
  have "cnt ?s ob = (X'(Grp g := 0)) ob + irefs (pend L s) ?s ob" for ob
  proof (cases ob)
    case (Buf b)
    then show ?thesis using refs_okD [OF invD(9) [OF i], of ob] X' msum_split [OF fin g, of "group_buf b"]
      by (simp add: free_group_def traded_def)
  qed (use refs_okD [OF invD(9) [OF i], of ob] X' z in \<open>auto simp: free_group_def traded_def\<close>)
  then have "refs_ok (X'(Grp g := 0)) (pend L ?s) ?s" by (simp add: refs_ok_def free_group_def)
  then show ?thesis using invD(1,2,5,10) [OF i]
    by (auto simp: inv_def store_ok_def maps_ok_def counts_ok_def groups_ok_def free_group_def)
qed

section \<open>Releasing the members\<close>

text \<open>The operations of this theory and the ones below it leave queues, events and requests
  alone.\<close>

definition keeps :: "xrp_state \<Rightarrow> xrp_state \<Rightarrow> bool" where
  "keeps s t \<longleftrightarrow> queues t = queues s \<and> events t = events s \<and> requests t = requests s \<and>
     next_item t = next_item s \<and> blocks t = blocks s \<and> sync_exit t = sync_exit s \<and> mem t = mem s"

lemma keeps_refl [simp]: "keeps s s"
  by (simp add: keeps_def)

lemma keeps_trans: "keeps s t \<Longrightarrow> keeps t u \<Longrightarrow> keeps s u"
  by (simp add: keeps_def)

lemma keeps_upd [simp]:
  "keeps s (t\<lparr>devices := d\<rparr>) = keeps s t" "keeps s (t\<lparr>buffers := b\<rparr>) = keeps s t"
  "keeps s (t\<lparr>groups := gs\<rparr>) = keeps s t" "keeps s (t\<lparr>ions := io\<rparr>) = keeps s t"
  "keeps s (t\<lparr>allocs := n\<rparr>) = keeps s t" "keeps s (t\<lparr>trace := tr\<rparr>) = keeps s t"
  "keeps s (put_buffer p B t) = keeps s t" "keeps s (free_buffer p t) = keeps s t"
  "keeps s (put_group g G t) = keeps s t" "keeps s (free_group g t) = keeps s t"
  by (simp_all add: keeps_def put_buffer_def free_buffer_def put_group_def free_group_def)

lemma released_buffer_keeps: "keeps s (released_buffer E B p s)"
  by (simp add: released_buffer_def)

lemma released_buffer_groups:
  "groups (released_buffer E B p s) = groups s"
  "released_buffer E B p (s\<lparr>groups := m\<rparr>) = (released_buffer E B p s)\<lparr>groups := m\<rparr>"
  by (cases s; simp add: released_buffer_def put_buffer_def free_buffer_def VdspIon_dtor_def
      is_ion_legacy_def sys_def Let_def)+

lemma release_buffer_groups:
  assumes i: "inv X L s" and p: "buffers s p = Some B"
  shows "xrp_release_buffer E p (s\<lparr>groups := m\<rparr>) = Some ((released_buffer E B p s)\<lparr>groups := m\<rparr>)"
proof -
  have "releasable (s\<lparr>groups := m\<rparr>) B"
    using releasable_inv [OF i p] by (simp add: releasable_def)
  from release_buffer_eq_raw [OF this, of p E] p show ?thesis by (simp add: released_buffer_groups)
qed

fun release_each :: "env \<Rightarrow> ptr list \<Rightarrow> xrp_state \<Rightarrow> xrp_state option" where
  "release_each E [] s = Some s"
| "release_each E (b # bs) s = do { s \<leftarrow> xrp_release_buffer E b s; release_each E bs s }"

lemma release_members_each:
  "(\<And>j. j < k \<Longrightarrow> slot G (i + of_nat j) = Some (rs ! j)) \<Longrightarrow> length rs = k \<Longrightarrow>
   release_members E G k i s = release_each E (map gr_buffer rs) s"
proof (induction k arbitrary: i rs s)
  case 0
  then show ?case by simp
next
  case (Suc k)
  then obtain r rs' where rs: "rs = r # rs'" by (cases rs) auto
  have h: "slot G i = Some r" using Suc.prems(1) [of 0] by (simp add: rs)
  have "slot G (i + 1 + of_nat j) = Some (rs' ! j)" if "j < k" for j
    using Suc.prems(1) [of "Suc j"] that by (simp add: rs add.assoc)
  from Suc.IH [OF this] Suc.prems(2)
  have "release_members E G k (i + 1) t = release_each E (map gr_buffer rs') t" for t
    by (simp add: rs)
  then show ?case using h by (simp add: rs cong: Option.bind_cong)
qed

lemma slot_of_nat:
  assumes "group_ok G" and "j < unat (g_n_buffers G)"
  shows "slot G (0 + of_nat j) = Some (group_records G ! j)"
proof -
  have "unat (g_n_buffers G) < 2 ^ 64" using unsigned_less [of "g_n_buffers G"] by simp
  then have "j < 2 ^ 64" using assms(2) by simp
  then have "unat (of_nat j :: size_t) = j" by (simp add: unat_of_nat)
  moreover from this have "of_nat j < g_n_buffers G" using assms(2) by (simp add: word_less_nat_alt)
  ultimately show ?thesis using slot_record(1) [OF assms(1), of "of_nat j"] by simp
qed

lemma release_members_group:
  assumes "group_ok G"
  shows "release_members E (G\<lparr>g_count := c, g_mutex := m\<rparr>) (unat (g_n_buffers G)) 0 s =
    release_each E (group_bufs G) s"
proof -
  have "slot (G\<lparr>g_count := c, g_mutex := m\<rparr>) (0 + of_nat j) = Some (group_records G ! j)"
    if "j < unat (g_n_buffers G)" for j
    using slot_of_nat [OF assms that] by simp
  from release_members_each [OF this group_records_length [OF assms]]
  show ?thesis by (simp add: group_bufs_def)
qed

text \<open>Giving back one reference to every buffer of a list, whatever the groups hold meanwhile.\<close>

lemma release_each_inv:
  "inv X L s \<Longrightarrow> traded (\<lambda>_. 0) (count_list bs) X X' \<Longrightarrow>
   \<exists>t. release_each E bs (s\<lparr>groups := m\<rparr>) = Some (t\<lparr>groups := m\<rparr>) \<and> groups t = groups s \<and>
       keeps s t \<and> inv X' L t"
proof (induction bs arbitrary: X s)
  case Nil
  then have "X' ob = X ob" for ob by (cases ob) (auto simp: traded_def)
  then have "X' = X" by auto
  then show ?case using Nil by auto
next
  case (Cons b bs)
  have tr: "X' (Buf c) + count_list (b # bs) c = X (Buf c)" for c
    using Cons.prems(2) unfolding traded_def by simp
  from tr [of b] have "X' (Buf b) + count_list bs b + 1 = X (Buf b)" by simp
  then have x: "0 < X (Buf b)" by simp
  obtain B where B: "buffers s b = Some B" using owned_live(2) [OF Cons.prems(1) x] by blast
  let ?t = "released_buffer E B b s" and ?X = "X(Buf b := X (Buf b) - 1)"
  have "traded (\<lambda>_. 0) (count_list bs) ?X X'"
    unfolding traded_def
  proof (intro conjI allI impI)
    fix c
    show "X' (Buf c) + count_list bs c = ?X (Buf c) + 0" using tr [of c] by (cases "c = b") auto
  next
    fix ob
    assume "\<forall>c. ob \<noteq> Buf c"
    then show "X' ob = ?X ob" using Cons.prems(2) by (auto simp: traded_def)
  qed
  from Cons.IH [OF released_buffer_inv [OF Cons.prems(1) B x] this]
  obtain t where t: "release_each E bs (?t\<lparr>groups := m\<rparr>) = Some (t\<lparr>groups := m\<rparr>)"
    "groups t = groups ?t" "keeps ?t t" "inv X' L t" by blast
  have "release_each E (b # bs) (s\<lparr>groups := m\<rparr>) = Some (t\<lparr>groups := m\<rparr>)"
    by (simp add: release_buffer_groups [OF Cons.prems(1) B] t(1))
  then show ?case using t keeps_trans [OF released_buffer_keeps t(3)]
    by (auto simp: released_buffer_groups)
qed

section \<open>The operations keep the invariant\<close>

lemma create_group_inv:
  assumes i: "inv X L s" and r: "xrp_create_buffer_group E s = (g, st, s')"
  shows "(g = 0 \<and> st = XRP_STATUS_FAILURE \<and> inv X L s' \<or>
    g \<noteq> 0 \<and> st = XRP_STATUS_SUCCESS \<and> X (Grp g) = 0 \<and> inv (X(Grp g := 1)) L s' \<and>
    (\<exists>G. groups s' g = Some G \<and> group_records G = [])) \<and> keeps s s'"
proof -
  define p where "p = new_ptr E s"
  define s1 where "s1 = s\<lparr>allocs := Suc (allocs s)\<rparr>"
  define G0 where "G0 = \<lparr>g_count = 1, g_mutex = False, g_n_buffers = 0, g_capacity = 0, g_buffer = []\<rparr>"
  have i1: "inv X L s1" using i by (simp add: s1_def)
  have eq: "(g, st, s') = (if p \<noteq> 0 then (p, XRP_STATUS_SUCCESS, put_group p G0 s1)
      else (0, XRP_STATUS_FAILURE, s1))"
    using r by (auto simp: xrp_create_buffer_group_def alloc_refcounted_eq p_def s1_def G0_def
      split: if_splits)
  show ?thesis
  proof (cases "p = 0")
    case True
    then show ?thesis using eq i1 by (simp add: s1_def)
  next
    case False
    have f: "groups s1 p = None" using False new_ptr_fresh [of E s]
      by (simp add: p_def s1_def fresh_def)
    have "group_ok G0" "g_count G0 = 1" "group_records G0 = []"
      by (simp_all add: G0_def group_ok_def group_records_def)
    moreover from this inv_group_new [OF i1 False f] have "inv (X(Grp p := 1)) L (put_group p G0 s1)"
      by blast
    moreover have "X (Grp p) = 0" using dead_refs(1) [OF i1, of "Grp p"] f by simp
    ultimately show ?thesis using eq False by (simp add: put_group_def s1_def)
  qed
qed

lemma retain_group_inv:
  assumes i: "inv X L s" and p: "0 < cnt s (Grp p)" "cnt s (Grp p) + 1 < 2 ^ 64"
  shows "returns (xrp_retain_buffer_group p s) (\<lambda>t. inv (X(Grp p := X (Grp p) + 1)) L t \<and> keeps s t)"
proof -
  obtain G where G: "groups s p = Some G" using p(1) by (auto split: option.splits)
  have c: "unat (g_count G) + 1 < 2 ^ 64" using p(2) G by simp
  show ?thesis using retain_count [OF c] G inv_group_count [OF i G, of "retain_refcounted (g_count G)"]
    by (simp add: xrp_retain_buffer_group_def) (simp add: put_group_def)
qed

lemma live_group_ok: "inv X L s \<Longrightarrow> groups s g = Some G \<Longrightarrow> group_ok G \<and> g_count G \<noteq> 0"
  using invD(2,5) by (auto simp: groups_ok_def counts_ok_def)

lemma release_group_inv:
  assumes i: "inv X L s" and x: "0 < X (Grp g)"
  shows "returns (xrp_release_buffer_group E g s)
    (\<lambda>t. inv (X(Grp g := X (Grp g) - 1)) L t \<and> keeps s t)"
proof -
  obtain G where G: "groups s g = Some G" "g_count G \<noteq> 0" using owned_live(3) [OF i x] by blast
  have ok: "group_ok G" using live_group_ok [OF i G(1)] by blast
  show ?thesis
  proof (cases "g_count G = 1")
    case False
    have "unat (g_count G - 1) + X (Grp g) = unat (g_count G) + (X (Grp g) - 1)"
      using release_count [OF G(2) False] x by simp
    from inv_group_count [OF i G(1) _ this] False
    have "inv (X(Grp g := X (Grp g) - 1)) L (put_group g (G\<lparr>g_count := g_count G - 1\<rparr>) s)"
      by (simp add: put_group_def)
    then show ?thesis using G False
      by (simp add: xrp_release_buffer_group_def last_release_refcounted_def Let_def)
  next
    case True
    define m where "m = (groups s)(g \<mapsto> G\<lparr>g_count := 0, g_mutex := True\<rparr>)"
    define s0 where "s0 = free_group g s"
    define Y where "Y = (\<lambda>ob. case ob of Buf b \<Rightarrow> X ob + count_list (group_bufs G) b | _ \<Rightarrow> X ob)"
    have x1: "X (Grp g) = 1" using refs_okD [OF invD(9) [OF i], of "Grp g"] G x True by simp
    have "traded (\<lambda>b. group_buf b G) (\<lambda>_. 0) X Y"
      unfolding traded_def by (auto simp: Y_def group_buf_def split: obj.splits)
    from inv_group_gone [OF i G(1) x1 True this] have i0: "inv (Y(Grp g := 0)) L s0"
      by (simp add: s0_def)
    have "traded (\<lambda>_. 0) (count_list (group_bufs G)) (Y(Grp g := 0)) (X(Grp g := 0))"
      unfolding traded_def by (auto simp: Y_def split: obj.splits)
    from release_each_inv [OF i0 this, of E m] obtain t where
      t: "release_each E (group_bufs G) (s0\<lparr>groups := m\<rparr>) = Some (t\<lparr>groups := m\<rparr>)"
      "groups t = groups s0" "keeps s0 t" "inv (X(Grp g := 0)) L t" by blast
    have s0m: "put_group g (G\<lparr>g_count := 0, g_mutex := True\<rparr>) s = s0\<lparr>groups := m\<rparr>"
      by (simp add: put_group_def s0_def free_group_def m_def)
    have "free_group g (t\<lparr>groups := m\<rparr>) = t"
      using t(2) by (cases t) (simp add: free_group_def m_def s0_def)
    moreover have "keeps s t" using t(3) by (simp add: s0_def keeps_def free_group_def)
    ultimately show ?thesis using G(1) True x1 t ok
      by (simp add: xrp_release_buffer_group_def last_release_refcounted_def Let_def lock_defs
          release_members_group s0m)
        (simp add: group_ok_def m_def)
  qed
qed

section \<open>The array\<close>

text \<open>A group with room takes a record at its end.\<close>

definition append_record :: "xrp_buffer_group_record \<Rightarrow> xrp_buffer_group \<Rightarrow> xrp_buffer_group" where
  "append_record r G = G\<lparr>g_buffer := (g_buffer G)[unat (g_n_buffers G) := Some r],
     g_n_buffers := g_n_buffers G + 1\<rparr>"

lemma append_record:
  assumes ok: "group_ok G" and room: "g_n_buffers G < g_capacity G"
  shows "group_ok (append_record r G)" and "group_records (append_record r G) = group_records G @ [r]"
    and "unat (g_n_buffers G) < length (g_buffer G)"
proof -
  have n: "unat (g_n_buffers G) < unat (g_capacity G)" using room by (simp add: word_less_nat_alt)
  have "unat (g_capacity G) < 2 ^ 64" using unsigned_less [of "g_capacity G"] by simp
  then have n1: "unat (g_n_buffers G + 1) = unat (g_n_buffers G) + 1" using n by (intro unat_inc) simp
  show l: "unat (g_n_buffers G) < length (g_buffer G)" using ok n by (simp add: group_ok_def)
  show "group_records (append_record r G) = group_records G @ [r]"
    using l by (simp add: group_records_def append_record_def n1 take_Suc_conv_app_nth)
  show "group_ok (append_record r G)"
    using ok n l by (auto simp: group_ok_def append_record_def n1 word_le_nat_alt nth_list_update less_Suc_eq)
qed

text \<open>Growing keeps the records and makes room, as long as the size of the allocation does not
  wrap around: \<open>2 ^ 58\<close> records take \<open>2 ^ 62\<close> bytes.\<close>

definition grow :: "xrp_buffer_group \<Rightarrow> xrp_buffer_group" where
  "grow G = G\<lparr>g_capacity := (g_capacity G + 2) * 2,
     g_buffer := realloc_records (g_buffer G) (16 * ((g_capacity G + 2) * 2))\<rparr>"

lemma grow:
  assumes ok: "group_ok G" and full: "g_n_buffers G = g_capacity G" and c: "unat (g_capacity G) < 2 ^ 58"
  shows "group_ok (grow G)" and "group_records (grow G) = group_records G"
    and "g_n_buffers (grow G) < g_capacity (grow G)"
proof -
  have a: "unat (g_capacity G + 2) = unat (g_capacity G) + 2" using c by (simp add: unat_word_ariths)
  have b: "unat ((g_capacity G + 2) * 2) = (unat (g_capacity G) + 2) * 2"
    unfolding unat_word_ariths(2) a using c by simp
  have "unat (16 * ((g_capacity G + 2) * 2)) = 16 * ((unat (g_capacity G) + 2) * 2)"
    unfolding unat_word_ariths(2) [of 16] b using c by simp
  then have bf: "g_buffer (grow G) = g_buffer G @ replicate (unat (g_capacity G) + 4) None"
    using ok by (simp add: grow_def realloc_records_def group_ok_def min_def)
  have n: "g_n_buffers (grow G) = g_n_buffers G" by (simp add: grow_def)
  have cap: "unat (g_capacity (grow G)) = unat (g_capacity G) + (unat (g_capacity G) + 4)"
  proof -
    have "g_capacity (grow G) = (g_capacity G + 2) * 2" by (simp add: grow_def)
    then show ?thesis using b by (metis add.assoc add.commute distrib_right mult_2_right numeral_Bit0)
  qed
  show lt: "g_n_buffers (grow G) < g_capacity (grow G)"
    unfolding word_less_nat_alt cap by (simp add: n full)
  have l: "length (g_buffer G) = unat (g_capacity G)" using ok by (simp add: group_ok_def)
  have m: "\<not> g_mutex (grow G)" using ok by (simp add: grow_def group_ok_def)
  show "group_records (grow G) = group_records G" using l by (simp add: group_records_def bf n full)
  show "group_ok (grow G)"
    unfolding group_ok_def bf n cap
    using ok lt m l full by (simp add: group_ok_def n nth_append)
qed

text \<open>Replacing the record at an index in use.\<close>

definition replace_record :: "size_t \<Rightarrow> xrp_buffer_group_record \<Rightarrow> xrp_buffer_group \<Rightarrow> xrp_buffer_group" where
  "replace_record i r G = G\<lparr>g_buffer := (g_buffer G)[unat i := Some r]\<rparr>"

lemma replace_record:
  assumes ok: "group_ok G" and i: "i < g_n_buffers G"
  shows "group_ok (replace_record i r G)"
    and "group_records (replace_record i r G) = (group_records G)[unat i := r]"
proof -
  have l: "unat i < unat (g_n_buffers G)" using i by (simp add: word_less_nat_alt)
  show "group_records (replace_record i r G) = (group_records G)[unat i := r]"
    using l by (simp add: group_records_def replace_record_def take_update_swap map_update)
  have "unat i < length (g_buffer G)" using l ok by (simp add: group_ok_def word_le_nat_alt)
  then show "group_ok (replace_record i r G)"
    using ok by (auto simp: group_ok_def replace_record_def nth_list_update)
qed

lemma count_list_update:
  "i < length xs \<Longrightarrow> count_list (xs[i := y]) z + of_bool (xs ! i = z) = count_list xs z + of_bool (y = z)"
proof (induction xs arbitrary: i)
  case (Cons x xs)
  then show ?case by (cases i) auto
qed simp

section \<open>Adding, setting and getting\<close>

lemma retain_buffer_eq:
  "buffers s b = Some B \<Longrightarrow>
   xrp_retain_buffer b s = Some (put_buffer b (B\<lparr>b_count := retain_refcounted (b_count B)\<rparr>) s)"
  by (simp add: xrp_retain_buffer_def)

lemma retain_buffer_keeps: "xrp_retain_buffer b s = Some t \<Longrightarrow> keeps s t \<and> groups t = groups s"
  by (cases "buffers s b") (auto simp: xrp_retain_buffer_def put_buffer_def keeps_def)

text \<open>The three cases of an addition, in terms of the group it changes.\<close>

lemma add_buffer_eq:
  assumes ok: "group_ok G" and g: "groups s g = Some G" and b: "buffers s b = Some B"
    and c: "unat (g_n_buffers G) < 2 ^ 58"
  shows "xrp_add_buffer_to_group E g b fl s =
    (let r = \<lparr>gr_buffer = b, gr_access_flags = fl\<rparr>; full = (g_n_buffers G = g_capacity G);
         s1 = (if full then s\<lparr>allocs := Suc (allocs s)\<rparr> else s);
         G1 = (if full then grow G else G)
     in if full \<and> new_ptr E s = 0 then Some (- 1, XRP_STATUS_FAILURE, put_group g G s1)
        else Some (g_n_buffers G, XRP_STATUS_SUCCESS, put_group g (append_record r G1)
               (put_buffer b (B\<lparr>b_count := retain_refcounted (b_count B)\<rparr>) s1)))"
proof -
  have um: "\<not> g_mutex G" "\<not> g_mutex (grow G)" using ok by (simp_all add: group_ok_def grow_def)
  have un: "G\<lparr>g_mutex := False\<rparr> = G" using ok by (rule group_ok_unlocked)
  show ?thesis
  proof (cases "g_n_buffers G = g_capacity G")
    case False
    then have room: "g_n_buffers G < g_capacity G" using ok by (auto simp: group_ok_def)
    have ng: "G\<lparr>g_buffer := x, g_n_buffers := y, g_mutex := False\<rparr> = G\<lparr>g_buffer := x, g_n_buffers := y\<rparr>" for x y
      using um by (cases G) simp
    show ?thesis using False g b um append_record(3) [OF ok room]
      by (simp add: ng xrp_add_buffer_to_group_def lock_defs retain_buffer_eq append_record_def Let_def)
  next
    case True
    note gr = grow [OF ok True, unfolded True [symmetric], OF c]
    have gg: "G\<lparr>g_capacity := k, g_buffer := x, g_n_buffers := y, g_mutex := False\<rparr> =
        G\<lparr>g_capacity := k, g_buffer := x, g_n_buffers := y\<rparr>" for k x y
      using um by (cases G) simp
    have n: "g_n_buffers (grow G) = g_n_buffers G" by (simp add: grow_def)
    have l: "unat (g_capacity G) < length (g_buffer (grow G))"
      using append_record(3) [OF gr(1,3)] True n by simp
    show ?thesis using True g b um l
      by (simp add: gg un xrp_add_buffer_to_group_def lock_defs retain_buffer_eq append_record_def grow_def
          Let_def malloc_def)
  qed
qed

lemma add_buffer_inv:
  assumes i: "inv X L s" and g: "groups s g = Some G" and b: "0 < cnt s (Buf b)" "cnt s (Buf b) + 1 < 2 ^ 64"
    and c: "unat (g_n_buffers G) < 2 ^ 58"
  shows "returns (xrp_add_buffer_to_group E g b fl s) (\<lambda>(n, st, t). inv X L t \<and> keeps s t \<and>
    devices t = devices s \<and> (\<exists>G'. groups t = (groups s)(g \<mapsto> G') \<and> g_count G' = g_count G \<and>
      (st = XRP_STATUS_FAILURE \<and> n = - 1 \<and> G' = G \<or>
       st = XRP_STATUS_SUCCESS \<and> unat n = length (group_records G) \<and>
       group_records G' = group_records G @ [\<lparr>gr_buffer = b, gr_access_flags = fl\<rparr>])))"
proof -
  have ok: "group_ok G" using live_group_ok [OF i g] by blast
  obtain B where B: "buffers s b = Some B" using b(1) by (auto split: option.splits)
  define full where "full = (g_n_buffers G = g_capacity G)"
  define s1 where "s1 = (if full then s\<lparr>allocs := Suc (allocs s)\<rparr> else s)"
  define G1 where "G1 = (if full then grow G else G)"
  define r where "r = \<lparr>gr_buffer = b, gr_access_flags = fl\<rparr>"
  define s2 where "s2 = put_buffer b (B\<lparr>b_count := retain_refcounted (b_count B)\<rparr>) s1"
  have eq: "xrp_add_buffer_to_group E g b fl s =
      (if full \<and> new_ptr E s = 0 then Some (- 1, XRP_STATUS_FAILURE, put_group g G s1)
       else Some (g_n_buffers G, XRP_STATUS_SUCCESS, put_group g (append_record r G1) s2))"
    using add_buffer_eq [OF ok g B c] by (simp add: full_def s1_def G1_def r_def s2_def Let_def)
  have i1: "inv X L s1" and gs1: "groups s1 = groups s" "devices s1 = devices s" and k1: "keeps s s1"
    using i by (simp_all add: s1_def)
  have G1: "group_ok G1" "group_records G1 = group_records G" "g_n_buffers G1 < g_capacity G1"
    "g_n_buffers G1 = g_n_buffers G" "g_count G1 = g_count G"
  proof -
    have "g_n_buffers G < g_capacity G" if "\<not> full" using ok that by (auto simp: group_ok_def full_def)
    then show "group_ok G1" "group_records G1 = group_records G" "g_n_buffers G1 < g_capacity G1"
      "g_n_buffers G1 = g_n_buffers G" "g_count G1 = g_count G"
      using grow [OF ok] c ok by (auto simp: G1_def full_def) (simp_all add: grow_def)
  qed
  note ap = append_record(1,2) [OF G1(1,3), of r, unfolded G1(2)]
  have cs1: "cnt s1 = cnt s" by (simp add: s1_def)
  have B1: "buffers s1 b = Some B" using B by (simp add: s1_def)
  from retain_buffer_inv [OF i1, of b] b
  have i2: "inv (X(Buf b := X (Buf b) + 1)) L s2"
    unfolding cs1 by (simp add: retain_buffer_eq [OF B1] s2_def)
  have gs2: "groups s2 = groups s" "devices s2 = devices s" "keeps s s2"
    using gs1 k1 by (simp_all add: s2_def) (simp_all add: put_buffer_def)
  have "traded (\<lambda>b. group_buf b G) (\<lambda>c. group_buf c (append_record r G1)) (X(Buf b := X (Buf b) + 1)) X"
    using ap(2) by (simp add: traded_def group_buf_def group_bufs_def r_def)
  moreover have "g_count (append_record r G1) = g_count G" using G1(5) by (simp add: append_record_def)
  ultimately have i3: "inv X L (put_group g (append_record r G1) s2)"
    using inv_group_upd [OF i2, of g G "append_record r G1"] g gs2 ap(1) by simp
  have "put_group g G s1 = s1" using g gs1 by (cases s1) (simp add: put_group_def fun_upd_idem)
  moreover have "groups (put_group g (append_record r G1) s2) = (groups s)(g \<mapsto> append_record r G1)"
    "devices (put_group g (append_record r G1) s2) = devices s" "g_count (append_record r G1) = g_count G"
    using gs2 G1(5) by (simp_all add: put_group_def append_record_def)
  ultimately show ?thesis
    using i1 i3 k1 gs1 gs2(3) ap(2) g group_records_length [OF ok]
    by (auto simp: eq r_def fun_upd_idem)
qed

lemma put_group_idem: "groups s g = Some G \<Longrightarrow> put_group g G s = s"
  by (cases s) (simp add: put_group_def fun_upd_idem)

text \<open>Setting a buffer: the record at an index in use is replaced, the group's reference moves
  from the old buffer to the new one; any other index changes nothing.\<close>

lemma set_buffer_inv:
  assumes i: "inv X L s" and g: "groups s g = Some G" and b: "0 < cnt s (Buf b)" "cnt s (Buf b) + 1 < 2 ^ 64"
  shows "returns (xrp_set_buffer_in_group E g idx b fl s) (\<lambda>(st, t). inv X L t \<and> keeps s t \<and>
    (if idx < g_n_buffers G
     then st = XRP_STATUS_SUCCESS \<and> (\<exists>G'. groups t = (groups s)(g \<mapsto> G') \<and>
       group_records G' = (group_records G)[unat idx := \<lparr>gr_buffer = b, gr_access_flags = fl\<rparr>])
     else st = XRP_STATUS_FAILURE \<and> groups t = groups s))"
proof -
  have ok: "group_ok G" using live_group_ok [OF i g] by blast
  obtain B where B: "buffers s b = Some B" using b(1) by (auto split: option.splits)
  define r where "r = \<lparr>gr_buffer = b, gr_access_flags = fl\<rparr>"
  define s1 where "s1 = put_buffer b (B\<lparr>b_count := retain_refcounted (b_count B)\<rparr>) s"
  define G' where "G' = (if idx < g_n_buffers G then replace_record idx r G else G)"
  define old where "old = (if idx < g_n_buffers G then gr_buffer (group_records G ! unat idx) else b)"
  have i1: "inv (X(Buf b := X (Buf b) + 1)) L s1"
    using retain_buffer_inv [OF i b] by (simp add: retain_buffer_eq [OF B] s1_def)
  have g1: "groups s1 g = Some G" "groups s1 = groups s" and k1: "keeps s s1"
    using g by (simp_all add: s1_def) (simp_all add: put_buffer_def)
  have G': "group_ok G'" "g_count G' = g_count G"
    using ok replace_record(1) [OF ok, of idx r] by (simp_all add: G'_def replace_record_def)
  have key: "group_buf c G' + of_bool (old = c) = group_buf c G + of_bool (b = c)" for c
  proof (cases "idx < g_n_buffers G")
    case True
    have l: "unat idx < length (group_bufs G)"
      using slot_record(2) [OF ok True] by (simp add: group_bufs_def)
    have "group_bufs G' = (group_bufs G)[unat idx := b]" "group_bufs G ! unat idx = old"
      using True l replace_record(2) [OF ok True, of r]
      by (simp_all add: group_bufs_def G'_def map_update r_def old_def)
    then show ?thesis using count_list_update [OF l, of b c] by (simp add: group_buf_def)
  qed (simp add: G'_def old_def)
  have "traded (\<lambda>b. group_buf b G) (\<lambda>b. group_buf b G') (X(Buf b := X (Buf b) + 1))
      (X(Buf old := X (Buf old) + 1))"
    unfolding traded_def
  proof (intro conjI allI impI)
    fix c
    show "(X(Buf old := X (Buf old) + 1)) (Buf c) + group_buf c G' =
        (X(Buf b := X (Buf b) + 1)) (Buf c) + group_buf c G"
      using key [of c] by (cases "old = c"; cases "b = c") auto
  qed auto
  from inv_group_upd [OF i1 g1(1) G' this]
  have i2: "inv (X(Buf old := X (Buf old) + 1)) L (put_group g G' s1)" .
  let ?s2 = "put_group g G' s1"
  obtain Bo where Bo: "buffers ?s2 old = Some Bo" using owned_live(2) [OF i2, of old] by auto
  define t where "t = released_buffer E Bo old ?s2"
  have rel: "xrp_release_buffer E old ?s2 = Some t"
    using release_buffer_eq [OF i2 Bo] by (simp add: t_def)
  have "inv ((X(Buf old := X (Buf old) + 1))(Buf old := X (Buf old))) L t"
    using released_buffer_inv [OF i2 Bo] by (simp add: t_def)
  then have i3: "inv X L t" by simp
  have gt: "groups t = (groups s)(g \<mapsto> G')" using g1 by (simp add: t_def released_buffer_groups put_group_def)
  have kt: "keeps s t"
    using keeps_trans [OF _ released_buffer_keeps, of s ?s2 E Bo old] k1 by (simp add: t_def)
  have um: "\<not> g_mutex G" using ok by (simp add: group_ok_def)
  have un: "G\<lparr>g_mutex := False\<rparr> = G" "G\<lparr>g_buffer := x, g_mutex := False\<rparr> = G\<lparr>g_buffer := x\<rparr>" for x
    using um by (cases G; simp)+
  have "xrp_set_buffer_in_group E g idx b fl s =
      Some (if idx < g_n_buffers G then XRP_STATUS_SUCCESS else XRP_STATUS_FAILURE, t)"
  proof (cases "idx < g_n_buffers G")
    case True
    have "G' = G\<lparr>g_buffer := (g_buffer G)[unat idx := Some r]\<rparr>" "old = gr_buffer (group_records G ! unat idx)"
      using True by (simp_all add: G'_def replace_record_def old_def)
    then show ?thesis using True g1 um rel slot_record(1) [OF ok True]
      by (simp add: xrp_set_buffer_in_group_def retain_buffer_eq [OF B] s1_def [symmetric] lock_defs
          un r_def [symmetric])
  next
    case False
    have "G' = G" "old = b" using False by (simp_all add: G'_def old_def)
    then show ?thesis using False g1 um rel
      by (simp add: xrp_set_buffer_in_group_def retain_buffer_eq [OF B] s1_def [symmetric] lock_defs un)
  qed
  then show ?thesis using i3 gt kt g replace_record(2) [OF ok, of idx r]
    by (auto simp: G'_def r_def fun_upd_idem)
qed

lemma get_buffer_inv:
  assumes i: "inv X L s" and g: "groups s g = Some G"
    and c: "idx < g_n_buffers G \<Longrightarrow> cnt s (Buf (gr_buffer (group_records G ! unat idx))) + 1 < 2 ^ 64"
  shows "returns (xrp_get_buffer_from_group g idx s) (\<lambda>(b, st, t). keeps s t \<and> groups t = groups s \<and>
    (if idx < g_n_buffers G
     then st = XRP_STATUS_SUCCESS \<and> b = gr_buffer (group_records G ! unat idx) \<and>
          inv (X(Buf b := X (Buf b) + 1)) L t
     else st = XRP_STATUS_FAILURE \<and> b = 0 \<and> t = s))"
proof -
  have ok: "group_ok G" using live_group_ok [OF i g] by blast
  have um: "\<not> g_mutex G" and un: "G\<lparr>g_mutex := False\<rparr> = G"
    using ok by (auto simp: group_ok_def intro: group_ok_unlocked [OF ok])
  show ?thesis
  proof (cases "idx < g_n_buffers G")
    case False
    then show ?thesis using g um
      by (simp add: xrp_get_buffer_from_group_def lock_defs un put_group_idem)
  next
    case True
    define b where "b = gr_buffer (group_records G ! unat idx)"
    have fin: "finite (dom (groups s))" using invD(1) [OF i] by (simp add: maps_ok_def)
    have "b \<in> set (group_bufs G)"
      using slot_record(2) [OF ok True] by (simp add: b_def group_bufs_def)
    then have "0 < group_buf b G" using count_list_0_iff [of "group_bufs G" b] by (simp add: group_buf_def)
    with msum_pos [OF fin g, of "group_buf b"] have "0 < cnt s (Buf b)"
      using refs_okD [OF invD(9) [OF i], of "Buf b"] by simp
    from retain_buffer_inv [OF i this] obtain t where
      t: "xrp_retain_buffer b s = Some t" "inv (X(Buf b := X (Buf b) + 1)) L t"
      using c [OF True] by (auto simp: b_def elim: returnsE)
    note k = retain_buffer_keeps [OF t(1)]
    show ?thesis using True g um slot_record(1) [OF ok True] t k
      by (simp add: xrp_get_buffer_from_group_def lock_defs un b_def [symmetric] put_group_idem)
  qed
qed

lemma group_get_info_eq:
  assumes i: "inv X L s" and g: "groups s g = Some G"
  shows "xrp_buffer_group_get_info g info idx sz s = Some (case info of
      Some XRP_BUFFER_GROUP_BUFFER_FLAGS_ENUM \<Rightarrow>
        if idx < g_n_buffers G \<and> sz = 4
        then (Some (ucast (gr_access_flags (group_records G ! unat idx))), XRP_STATUS_SUCCESS, s)
        else (None, XRP_STATUS_FAILURE, s)
    | Some XRP_BUFFER_GROUP_SIZE_SIZE_T \<Rightarrow>
        if sz = 8 then (Some (of_nat (length (group_records G))), XRP_STATUS_SUCCESS, s)
        else (None, XRP_STATUS_FAILURE, s)
    | None \<Rightarrow> (None, XRP_STATUS_FAILURE, s))"
proof -
  have ok: "group_ok G" using live_group_ok [OF i g] by blast
  have um: "\<not> g_mutex G" and un: "G\<lparr>g_mutex := False\<rparr> = G"
    using ok by (auto simp: group_ok_def intro: group_ok_unlocked [OF ok])
  show ?thesis using g um slot_record(1) [OF ok, of idx] group_records_length [OF ok]
    by (auto simp: xrp_buffer_group_get_info_def lock_defs un put_group_idem not_less
        split: option.splits xrp_buffer_group_info.splits)
qed

end
