(* ===== verification/Vdsp_Direct.thy ===== *)
theory Vdsp_Direct
  imports Xrp_Group
begin

text \<open>
  Commands that go to the kernel in the caller's thread: \<open>xrp_run_command_directly\<close> and
  \<open>xrp_run_faceid_command_directly\<close> of xrp_linux.c, \<open>sprd_vdsp_send_command_directly\<close>, the
  library commands and the power hint of vdsp_interface_internal.c, \<open>set_powerhint_flag\<close> of
  vdsp_dvfs.cpp. A command builds a group around the caller's buffers, hands the driver a
  description of it, and takes everything down again.
\<close>

section \<open>Access flags\<close>

text \<open>\<open>enum sprd_vdsp_bufflag\<close> is stored in a 32-bit field the caller fills.\<close>

definition SPRD_VDSP_XRP_READ :: u32 where "SPRD_VDSP_XRP_READ = 0"
definition SPRD_VDSP_XRP_WRITE :: u32 where "SPRD_VDSP_XRP_WRITE = 1"
definition SPRD_VDSP_XRP_READ_WRITE :: u32 where "SPRD_VDSP_XRP_READ_WRITE = 2"
definition SPRD_VDSP_XRP_ACCESS_MAX :: u32 where "SPRD_VDSP_XRP_ACCESS_MAX = 3"

lemmas flag_defs = SPRD_VDSP_XRP_READ_def SPRD_VDSP_XRP_WRITE_def SPRD_VDSP_XRP_READ_WRITE_def
  SPRD_VDSP_XRP_ACCESS_MAX_def XRP_READ_def XRP_WRITE_def XRP_READ_WRITE_def

text \<open>The two static functions of this name: the one of vdsp_interface_internal.c (here with
  a suffix) reads a client's flag, the one of xrp_linux.c writes it.\<close>

definition translate_access_flag_internal :: "u32 \<Rightarrow> u32" where
  "translate_access_flag_internal inflag =
     (if inflag = SPRD_VDSP_XRP_READ then XRP_READ
      else if inflag = SPRD_VDSP_XRP_WRITE then XRP_WRITE
      else if inflag = SPRD_VDSP_XRP_READ_WRITE then XRP_READ_WRITE
      else XRP_READ)"

definition translate_access_flag :: "u32 \<Rightarrow> u32" where
  "translate_access_flag flag =
     (if flag = XRP_READ then SPRD_VDSP_XRP_READ
      else if flag = XRP_WRITE then SPRD_VDSP_XRP_WRITE
      else if flag = XRP_READ_WRITE then SPRD_VDSP_XRP_READ_WRITE
      else SPRD_VDSP_XRP_ACCESS_MAX)"

section \<open>Running a command\<close>

text \<open>The description of a group's buffers, from index \<open>i\<close> on.\<close>

fun describe_buffers ::
    "xrp_state \<Rightarrow> xrp_buffer_group \<Rightarrow> nat \<Rightarrow> size_t \<Rightarrow> xrp_ioctl_buffer list option" where
  "describe_buffers s G 0 i = Some []"
| "describe_buffers s G (Suc k) i =
     do { r \<leftarrow> slot G i;
          B \<leftarrow> buffers s (gr_buffer r);
          rest \<leftarrow> describe_buffers s G k (i + 1);
          Some (\<lparr>ib_flags = gr_access_flags r, ib_size = ucast (b_size B), ib_addr = b_ptr B,
                 ib_fd = b_ion_fd B\<rparr> # rest) }"

definition xrp_run_command_directly ::
    "env \<Rightarrow> ptr \<Rightarrow> byte list \<Rightarrow> u32 \<Rightarrow> ptr \<Rightarrow> i32 \<Rightarrow> size_t \<Rightarrow> ptr \<Rightarrow> i32 \<Rightarrow> size_t \<Rightarrow> ptr \<Rightarrow> xrp_state
       \<Rightarrow> (xrp_status \<times> xrp_state) option" where
  "xrp_run_command_directly E device nsid priority in_data in_data_fd in_data_size
       out_data out_data_fd out_data_size buffer_group s =
     do { (n_buffers, ioctl_buffer) \<leftarrow>
            (if buffer_group \<noteq> 0
             then do { G \<leftarrow> groups s buffer_group;
                       bs \<leftarrow> describe_buffers s G (unat (g_n_buffers G)) 0;
                       Some (g_n_buffers G, bs) }
             else Some (0, []));
          D \<leftarrow> devices s device;
          let ioctl_queue = \<lparr>
              iq_flags = XRP_QUEUE_FLAG_NSID OR
                 (push_bit XRP_QUEUE_FLAG_PRIO_SHIFT priority AND XRP_QUEUE_FLAG_PRIO),
              iq_in_data_size = ucast in_data_size, iq_out_data_size = ucast out_data_size,
              iq_buffer_size = ucast (n_buffers * 24),
              iq_in_data_addr = in_data, iq_in_data_fd = in_data_fd,
              iq_out_data_addr = out_data, iq_out_data_fd = out_data_fd,
              iq_buffers = ioctl_buffer, iq_nsid = nsid\<rparr>;
          let (ret, s) = sys E (Sys_ioctl_queue (d_fd D) ioctl_queue) s;
          Some (if sint (ans_ret ret) < 0 then XRP_STATUS_FAILURE else XRP_STATUS_SUCCESS, s) }"

definition xrp_run_faceid_command_directly ::
    "env \<Rightarrow> ptr \<Rightarrow> i32 \<Rightarrow> i32 \<Rightarrow> xrp_state \<Rightarrow> (xrp_status \<times> xrp_state) option" where
  "xrp_run_faceid_command_directly E device in_fd out_fd s =
     do { D \<leftarrow> devices s device;
          let (ret, s) = sys E (Sys_ioctl_faceid (d_fd D) in_fd out_fd) s;
          Some (if sint (ans_ret ret) < 0 then XRP_STATUS_FAILURE else XRP_STATUS_SUCCESS, s) }"

section \<open>sprd_vdsp_send_command_directly\<close>

definition release_xrp_buffers :: "env \<Rightarrow> ptr list \<Rightarrow> u32 \<Rightarrow> xrp_state \<Rightarrow> xrp_state option" where
  "release_xrp_buffers E buf num s =
     (if unat num \<le> length buf then release_each E (take (unat num) buf) s else None)"

text \<open>
  The loop that wraps the caller's buffers and adds them to the group, shared by
  \<open>sprd_vdsp_send_command\<close> and \<open>sprd_vdsp_send_command_directly\<close>, which differ in the access
  flag they pass (\<open>access\<close>). \<open>buf\<close> holds the buffers of the rounds that succeeded: when a round
  fails, also in its second half, the cleanup releases those (\<open>release_xrp_buffers(buf, i)\<close>).
\<close>

fun wrap_buffers ::
    "env \<Rightarrow> ptr \<Rightarrow> ptr \<Rightarrow> (u32 \<Rightarrow> u32) \<Rightarrow> sprd_vdsp_inout list \<Rightarrow> nat \<Rightarrow> ptr list \<Rightarrow> xrp_state
       \<Rightarrow> (bool \<times> ptr list \<times> xrp_state) option" where
  "wrap_buffers E device grp access buffer 0 buf s = Some (True, buf, s)"
| "wrap_buffers E device grp access buffer (Suc k) buf s =
     (case buffer of [] \<Rightarrow> None
      | io # rest \<Rightarrow>
          do { (b, status, s) \<leftarrow>
                 xrp_create_buffer E device (ucast (io_size io)) (io_vir_addr io) (io_fd io) s;
               if status \<noteq> XRP_STATUS_SUCCESS then Some (False, buf, s)
               else do { (_, status, s) \<leftarrow>
                           xrp_add_buffer_to_group E grp b (access (io_flag io)) s;
                         if status \<noteq> XRP_STATUS_SUCCESS then Some (False, buf, s)
                         else wrap_buffers E device grp access rest k (buf @ [b]) s } })"

definition inout_vir :: "sprd_vdsp_inout option \<Rightarrow> ptr" where
  "inout_vir x = (case x of None \<Rightarrow> 0 | Some io \<Rightarrow> io_vir_addr io)"

definition inout_fd :: "sprd_vdsp_inout option \<Rightarrow> i32" where
  "inout_fd x = (case x of None \<Rightarrow> - 1 | Some io \<Rightarrow> io_fd io)"

definition inout_size :: "sprd_vdsp_inout option \<Rightarrow> u32" where
  "inout_size x = (case x of None \<Rightarrow> 0 | Some io \<Rightarrow> io_size io)"

text \<open>\<open>"faceid_fw"\<close>.\<close>

definition FACEID_NSID :: "byte list" where
  "FACEID_NSID = [0x66, 0x61, 0x63, 0x65, 0x69, 0x64, 0x5f, 0x66, 0x77]"

text \<open>\<open>ns_id\<close>: zeroed, then the characters of the string copied in.\<close>

definition copy_nsid :: "byte list \<Rightarrow> nat \<Rightarrow> byte list" where
  "copy_nsid nsid len = take len nsid @ replicate (XRP_NAMESPACE_ID_SIZE - len) 0"

text \<open>The table of buffer pointers is an array of the call's own; the model keeps its contents
  as a list and only asks the allocator whether there is room for it.\<close>

definition sprd_vdsp_send_command_directly ::
    "env \<Rightarrow> ptr \<Rightarrow> byte list \<Rightarrow> sprd_vdsp_inout option \<Rightarrow> sprd_vdsp_inout option
       \<Rightarrow> sprd_vdsp_inout list \<Rightarrow> u32 \<Rightarrow> u32 \<Rightarrow> xrp_state \<Rightarrow> (sprd_vdsp_status \<times> xrp_state) option" where
  "sprd_vdsp_send_command_directly E device nsid input output buffer buf_num priority s =
     do { len \<leftarrow> c_strlen nsid;
          if len > XRP_NAMESPACE_ID_SIZE - 1 then Some (SPRD_XRP_STATUS_FAILURE, s)
          else
            (let ns_id = copy_nsid nsid len
             in if take 9 ns_id = FACEID_NSID
                then (if inout_vir input \<noteq> 0
                      then do { (status, s) \<leftarrow> xrp_run_faceid_command_directly E device
                                                 (inout_fd input) (inout_fd output) s;
                                Some (if status \<noteq> XRP_STATUS_SUCCESS then SPRD_XRP_STATUS_FAILURE
                                      else SPRD_XRP_STATUS_SUCCESS, s) }
                      else Some (SPRD_XRP_STATUS_FAILURE, s))
                else
                  (let (buf, s) = malloc E s
                   in if buf = 0 then Some (SPRD_XRP_STATUS_FAILURE, s)
                      else
                        (let (grp, status, s) = xrp_create_buffer_group E s
                         in if status \<noteq> XRP_STATUS_SUCCESS then Some (SPRD_XRP_STATUS_FAILURE, s)
                            else do {
                              (wrapped, buf, s) \<leftarrow> wrap_buffers E device grp
                                 translate_access_flag_internal buffer (unat buf_num) [] s;
                              if \<not> wrapped
                              then do { s \<leftarrow> xrp_release_buffer_group E grp s;
                                        s \<leftarrow> release_xrp_buffers E buf (of_nat (length buf)) s;
                                        Some (SPRD_XRP_STATUS_FAILURE, s) }
                              else do {
                                (status, s) \<leftarrow> xrp_run_command_directly E device ns_id priority
                                   (inout_vir input) (inout_fd input) (ucast (inout_size input))
                                   (inout_vir output) (inout_fd output) (ucast (inout_size output))
                                   grp s;
                                s \<leftarrow> xrp_release_buffer_group E grp s;
                                s \<leftarrow> release_xrp_buffers E buf buf_num s;
                                Some (if status \<noteq> XRP_STATUS_SUCCESS then SPRD_XRP_STATUS_FAILURE
                                      else SPRD_XRP_STATUS_SUCCESS, s) } }))) }"

section \<open>Library commands and power hints\<close>

definition USER_LIBRARY_CMD_LOAD_UNLOAD_INPUTSIZE :: u32 where
  "USER_LIBRARY_CMD_LOAD_UNLOAD_INPUTSIZE = 44"

text \<open>\<open>"system cmd"\<close>, padded to sixteen bytes.\<close>

definition XRP_EXAMPLE_V3_NSID :: "byte list" where
  "XRP_EXAMPLE_V3_NSID = [0x73, 0x79, 0x73, 0x74, 0x65, 0x6d, 0x20, 0x63, 0x6d, 0x64,
                          0, 0, 0, 0, 0, 0]"

text \<open>The first byte of the input says load or unload, the name follows with its terminator;
  the write goes through the address of the mapping, null when it failed.\<close>

definition library_command ::
    "env \<Rightarrow> ptr \<Rightarrow> byte \<Rightarrow> byte list \<Rightarrow> sprd_vdsp_inout list \<Rightarrow> u32 \<Rightarrow> u32 \<Rightarrow> xrp_state
       \<Rightarrow> (sprd_vdsp_status \<times> xrp_state) option" where
  "library_command E device flag libname buffer buf_num priority s =
     do { (inputhandle, fd, inputaddr, s) \<leftarrow>
            vdsp_alloc_ionmem E USER_LIBRARY_CMD_LOAD_UNLOAD_INPUTSIZE 0 s;
          if inputhandle = 0 then Some (SPRD_XRP_STATUS_FAILURE, s)
          else do {
            let input = \<lparr>io_fd = fd, io_vir_addr = inputaddr, io_phy_addr = 0,
                         io_size = USER_LIBRARY_CMD_LOAD_UNLOAD_INPUTSIZE, io_flag = 0\<rparr>;
            _ \<leftarrow> (if inputaddr = 0 then None else Some ());
            len \<leftarrow> c_strlen libname;
            let s = s\<lparr>mem := write_bytes (mem s) inputaddr (flag # take len libname @ [0])\<rparr>;
            (ret, s) \<leftarrow> sprd_vdsp_send_command_directly E device XRP_EXAMPLE_V3_NSID
                          (Some input) None buffer buf_num priority s;
            (_, s) \<leftarrow> vdsp_free_ionmem E inputhandle s;
            Some (ret, s) } }"

definition sprd_vdsp_load_library ::
    "env \<Rightarrow> ptr \<Rightarrow> sprd_vdsp_inout list \<Rightarrow> byte list \<Rightarrow> u32 \<Rightarrow> xrp_state
       \<Rightarrow> (sprd_vdsp_status \<times> xrp_state) option" where
  "sprd_vdsp_load_library E device buffer libname priority s =
     library_command E device 1 libname buffer 1 priority s"

definition sprd_vdsp_unload_library ::
    "env \<Rightarrow> ptr \<Rightarrow> byte list \<Rightarrow> u32 \<Rightarrow> xrp_state \<Rightarrow> (sprd_vdsp_status \<times> xrp_state) option" where
  "sprd_vdsp_unload_library E device libname priority s =
     library_command E device 2 libname [] 0 priority s"

definition sprd_vdsp_power_hint_direct ::
    "env \<Rightarrow> ptr \<Rightarrow> i32 \<Rightarrow> u32 \<Rightarrow> xrp_state \<Rightarrow> (i32 \<times> xrp_state) option" where
  "sprd_vdsp_power_hint_direct E handle level acquire_release s =
     do { D \<leftarrow> devices s handle;
          let (ret, s) = sys E (Sys_ioctl_powerhint (d_fd D) level acquire_release) s;
          Some (ans_ret ret, s) }"

definition set_powerhint_flag ::
    "env \<Rightarrow> ptr \<Rightarrow> i32 \<Rightarrow> u32 \<Rightarrow> xrp_state \<Rightarrow> (i32 \<times> xrp_state) option" where
  "set_powerhint_flag E device level acquire_release s =
     do { dev \<leftarrow> devices s device;
          let (ret, s) = sys E (Sys_ioctl_powerhint (d_fd dev) level acquire_release) s;
          Some (ans_ret ret, s) }"

section \<open>Access flags translate back\<close>

lemma translate_flags:
  "fl \<in> {XRP_READ, XRP_WRITE, XRP_READ_WRITE} \<Longrightarrow>
     translate_access_flag_internal (translate_access_flag fl) = fl"
  "fl \<notin> {XRP_READ, XRP_WRITE, XRP_READ_WRITE} \<Longrightarrow>
     translate_access_flag_internal (translate_access_flag fl) = XRP_READ"
  by (auto simp: translate_access_flag_def translate_access_flag_internal_def flag_defs)

section \<open>Creation of a buffer, both kinds\<close>

lemma create_buffer_frame:
  assumes r: "xrp_create_buffer E d sz hp fd s = Some (b, st, t)"
    and d: "fd = - 1 \<Longrightarrow> d \<noteq> 0 \<and> devices s d = Some D"
  shows "keeps s t \<and> groups t = groups s \<and> (devices t = devices s \<or>
    fd = - 1 \<and> devices t = (devices s)(d \<mapsto> D\<lparr>d_count := retain_refcounted (d_count D)\<rparr>))"
proof (cases "fd = - 1")
  case False
  show ?thesis
  proof (cases "hp = 0 \<and> d = 0")
    case True
    then show ?thesis using r by (simp add: xrp_create_buffer_def)
  next
    case False
    then show ?thesis using r \<open>fd \<noteq> - 1\<close>
      by (auto simp: create_host_buffer_eq Let_def put_buffer_def keeps_def split: if_splits)
  qed
next
  case True
  then have D: "devices s d = Some D" "d \<noteq> 0" using d by auto
  show ?thesis
  proof (cases "new_ptr E s = 0")
    case True
    then show ?thesis using r D by (auto simp: xrp_create_buffer_def alloc_refcounted_eq keeps_def)
  next
    case False
    from D refl False show ?thesis
    proof (cases rule: create_device_buffer_cases [where host_ptr = hp and sz = sz and E = E])
      case aborts
      then show ?thesis using r True by simp
    next
      case (created h ion tr)
      then show ?thesis using r True by (auto simp: put_buffer_def keeps_def)
    qed
  qed
qed

lemma create_buffer_inv:
  assumes i: "inv X L s" and d: "fd = - 1 \<Longrightarrow> 0 < cnt s (Dev d) \<and> cnt s (Dev d) + 1 < 2 ^ 64"
  shows "returns_unless (fd = - 1) (xrp_create_buffer E d sz hp fd s) (\<lambda>r. created_buffer X L sz r \<and>
    keeps s (snd (snd r)) \<and> groups (snd (snd r)) = groups s \<and>
    (\<forall>p. cnt s (Dev p) \<le> cnt (snd (snd r)) (Dev p) \<and> cnt (snd (snd r)) (Dev p) \<le> cnt s (Dev p) + 1))"
proof -
  have dev: "\<exists>D. d \<noteq> 0 \<and> devices s d = Some D" if "fd = - 1"
    using d [OF that] invD(1) [OF i] by (auto simp: maps_ok_def split: option.splits)
  have c: "returns_unless (fd = - 1) (xrp_create_buffer E d sz hp fd s) (created_buffer X L sz)"
  proof (cases "fd = - 1")
    case False
    then show ?thesis using create_host_buffer_inv [OF i False] by simp
  next
    case True
    then show ?thesis using create_device_buffer_inv [OF i, of d E sz hp] d [OF True]
      by (cases "xrp_create_buffer E d sz hp fd s") simp_all
  qed
  have "keeps s t \<and> groups t = groups s \<and>
      (\<forall>p. cnt s (Dev p) \<le> cnt t (Dev p) \<and> cnt t (Dev p) \<le> cnt s (Dev p) + 1)"
    if r: "xrp_create_buffer E d sz hp fd s = Some (b, st, t)" for b st t
  proof -
    obtain D where D: "fd = - 1 \<Longrightarrow> d \<noteq> 0 \<and> devices s d = Some D" using dev by blast
    note fr = create_buffer_frame [OF r D]
    have "cnt s (Dev p) \<le> cnt t (Dev p) \<and> cnt t (Dev p) \<le> cnt s (Dev p) + 1" for p
    proof (cases "devices t = devices s")
      case False
      then have fd: "fd = - 1" and t: "devices t = (devices s)(d \<mapsto> D\<lparr>d_count := retain_refcounted (d_count D)\<rparr>)"
        using fr by auto
      have "unat (d_count D) + 1 < 2 ^ 64" using D [OF fd] d [OF fd] by simp
      then show ?thesis using retain_count(2) [of "d_count D"] D [OF fd] t by simp
    qed simp
    then show ?thesis using fr by blast
  qed
  then show ?thesis using c by (cases "xrp_create_buffer E d sz hp fd s") auto
qed

section \<open>Describing a group\<close>

definition describe :: "xrp_state \<Rightarrow> xrp_buffer_group_record \<Rightarrow> xrp_ioctl_buffer" where
  "describe s r = (let B = the (buffers s (gr_buffer r))
     in \<lparr>ib_flags = gr_access_flags r, ib_size = ucast (b_size B), ib_addr = b_ptr B, ib_fd = b_ion_fd B\<rparr>)"

lemma describe_buffers_eq:
  "(\<And>j. j < k \<Longrightarrow> slot G (i + of_nat j) = Some (rs ! j)) \<Longrightarrow> length rs = k \<Longrightarrow>
   (\<And>r. r \<in> set rs \<Longrightarrow> buffers s (gr_buffer r) \<noteq> None) \<Longrightarrow>
   describe_buffers s G k i = Some (map (describe s) rs)"
proof (induction k arbitrary: i rs)
  case 0
  then show ?case by simp
next
  case (Suc k)
  then obtain r rs' where rs: "rs = r # rs'" by (cases rs) auto
  have h: "slot G i = Some r" using Suc.prems(1) [of 0] by (simp add: rs)
  have t: "slot G (i + 1 + of_nat j) = Some (rs' ! j)" if "j < k" for j
    using Suc.prems(1) [of "Suc j"] that by (simp add: rs add.assoc)
  have "describe_buffers s G k (i + 1) = Some (map (describe s) rs')"
    using Suc.prems(2,3) by (intro Suc.IH t) (auto simp: rs)
  moreover obtain B where "buffers s (gr_buffer r) = Some B" using Suc.prems(3) [of r] by (auto simp: rs)
  ultimately show ?case using h by (simp add: rs describe_def)
qed

lemma member_live:
  assumes i: "inv X L s" and g: "groups s g = Some G" and r: "r \<in> set (group_records G)"
  shows "buffers s (gr_buffer r) \<noteq> None"
proof -
  have fin: "finite (dom (groups s))" using invD(1) [OF i] by (simp add: maps_ok_def)
  have "gr_buffer r \<in> set (group_bufs G)" using r by (simp add: group_bufs_def)
  then have "0 < group_buf (gr_buffer r) G"
    using count_list_0_iff [of "group_bufs G" "gr_buffer r"] by (simp add: group_buf_def)
  with msum_pos [OF fin g, of "group_buf (gr_buffer r)"] have "0 < cnt s (Buf (gr_buffer r))"
    using refs_okD [OF invD(9) [OF i], of "Buf (gr_buffer r)"] by simp
  then show ?thesis by (auto split: option.splits)
qed

section \<open>Wrapping the caller's buffers\<close>

text \<open>The references of a caller that also holds one to every buffer of a list.\<close>

definition hold :: "refs \<Rightarrow> ptr list \<Rightarrow> refs" where
  "hold X bs = (\<lambda>ob. case ob of Buf b \<Rightarrow> X ob + count_list bs b | _ \<Rightarrow> X ob)"

lemma hold_simps [simp]:
  "hold X bs (Buf b) = X (Buf b) + count_list bs b" "hold X bs (Dev d) = X (Dev d)"
  "hold X bs (Grp g) = X (Grp g)" "hold X bs (Que q) = X (Que q)" "hold X bs (Evt v) = X (Evt v)"
  "hold X [] = X"
  by (simp_all add: hold_def) (auto split: obj.splits)

lemma hold_snoc: "hold X bs (Buf b) = 0 \<Longrightarrow> (hold X bs)(Buf b := 1) = hold X (bs @ [b])"
  by (rule ext) (auto simp: hold_def split: obj.splits)

lemma hold_group: "(hold X bs)(Grp g := n) = hold (X(Grp g := n)) bs"
  by (rule ext) (auto simp: hold_def split: obj.splits)

lemma traded_hold: "traded (\<lambda>_. 0) (count_list bs) (hold X (bs @ cs)) (hold X cs)"
  unfolding traded_def by (auto simp: hold_def split: obj.splits)

definition needs_memory :: "sprd_vdsp_inout list \<Rightarrow> nat \<Rightarrow> bool" where
  "needs_memory buffer k \<longleftrightarrow> (\<exists>io\<in>set (take k buffer). io_fd io = - 1)"

lemma returns_unless_case:
  "returns_unless ab m P \<Longrightarrow> (ab \<Longrightarrow> ab') \<Longrightarrow>
   (\<And>x. m = Some x \<Longrightarrow> P x \<Longrightarrow> returns_unless ab' (f x) Q) \<Longrightarrow> returns_unless ab' (Option.bind m f) Q"
  by (cases m) simp_all

text \<open>
  The loop keeps the invariant with one reference of the caller to every buffer of \<open>buf\<close>.
  \<open>lost\<close> is what the caller also keeps without knowing: the buffer whose addition failed.
\<close>

definition wrapped ::
    "refs \<Rightarrow> (ptr \<Rightarrow> ptr list) \<Rightarrow> xrp_state \<Rightarrow> ptr \<Rightarrow> ptr list \<Rightarrow> nat \<Rightarrow> bool \<times> ptr list \<times> xrp_state \<Rightarrow> bool"
  where
  "wrapped X L s d buf k r = (case r of (ok, buf', t) \<Rightarrow>
     keeps s t \<and> cnt s (Dev d) \<le> cnt t (Dev d) \<and> (\<exists>new lost. buf' = buf @ new \<and>
       length new + length lost \<le> k \<and> (ok \<longrightarrow> lost = [] \<and> length new = k) \<and> length lost \<le> 1 \<and>
       inv (hold X (buf' @ lost)) L t))"

lemma wrapped_fail:
  "keeps s t \<Longrightarrow> cnt s (Dev d) \<le> cnt t (Dev d) \<Longrightarrow> length lost \<le> 1 \<Longrightarrow> inv (hold X (buf @ lost)) L t \<Longrightarrow>
   wrapped X L s d buf (Suc k) (False, buf, t)"
  unfolding wrapped_def prod.case by (intro conjI exI [of _ "[]"] exI [of _ lost]) auto

lemma wrapped_step:
  assumes "keeps s t" and "cnt s (Dev d) \<le> cnt t (Dev d)" and "wrapped X L t d (buf @ [b]) k z"
  shows "wrapped X L s d buf (Suc k) z"
proof -
  obtain ok buf' u where z: "z = (ok, buf', u)" by (cases z)
  obtain new lost where "buf' = (buf @ [b]) @ new" "length new + length lost \<le> k"
    "ok \<longrightarrow> lost = [] \<and> length new = k" "length lost \<le> 1" "inv (hold X (buf' @ lost)) L u"
    and u: "keeps t u" "cnt t (Dev d) \<le> cnt u (Dev d)"
    using assms(3) unfolding wrapped_def z by auto
  then have "buf' = buf @ (b # new) \<and> length (b # new) + length lost \<le> Suc k \<and>
      (ok \<longrightarrow> lost = [] \<and> length (b # new) = Suc k) \<and> length lost \<le> 1 \<and> inv (hold X (buf' @ lost)) L u"
    by auto
  moreover have "keeps s u" "cnt s (Dev d) \<le> cnt u (Dev d)"
    using keeps_trans [OF assms(1) u(1)] assms(2) u(2) by simp_all
  ultimately show ?thesis unfolding wrapped_def z prod.case by blast
qed

text \<open>One addition of a fresh buffer.\<close>

lemma add_fresh_buffer:
  assumes i: "inv (hold X buf) L s" and g: "groups s g = Some G"
    and n: "length (group_records G) < 2 ^ 58"
    and cb: "created_buffer (hold X buf) L sz (b, XRP_STATUS_SUCCESS, s1)" and g1: "groups s1 = groups s"
  obtains n st s2 G' where "xrp_add_buffer_to_group E g b fl s1 = Some (n, st, s2)"
    and "inv (hold X (buf @ [b])) L s2" and "keeps s1 s2" and "devices s2 = devices s1"
    and "groups s2 g = Some G'"
    and "st = XRP_STATUS_SUCCESS \<Longrightarrow> length (group_records G') = Suc (length (group_records G))"
proof -
  obtain B where new: "(hold X buf) (Buf b) = 0" and B: "buffers s1 b = Some B" "b_count B = 1"
    and i0: "inv ((hold X buf)(Buf b := 1)) L s1"
    using cb by (auto simp: created_buffer_def)
  then have i1: "inv (hold X (buf @ [b])) L s1" by (metis hold_snoc)
  have G: "groups s1 g = Some G" using g g1 by simp
  have "group_ok G" using live_group_ok [OF i1 G] by blast
  then have l: "unat (g_n_buffers G) < 2 ^ 58" using n group_records_length by metis
  have c: "0 < cnt s1 (Buf b)" "cnt s1 (Buf b) + 1 < 2 ^ 64" using B by simp_all
  show thesis
  proof (rule returnsE [OF add_buffer_inv [OF i1 G c l, of E fl]])
    fix y
    assume y: "xrp_add_buffer_to_group E g b fl s1 = Some y" and
      py: "case y of (n, st, t) \<Rightarrow> inv (hold X (buf @ [b])) L t \<and> keeps s1 t \<and>
          devices t = devices s1 \<and> (\<exists>G'. groups t = (groups s1)(g \<mapsto> G') \<and> g_count G' = g_count G \<and>
          (st = XRP_STATUS_FAILURE \<and> n = - 1 \<and> G' = G \<or>
           st = XRP_STATUS_SUCCESS \<and> unat n = length (group_records G) \<and>
           group_records G' = group_records G @ [\<lparr>gr_buffer = b, gr_access_flags = fl\<rparr>]))"
    obtain n st s2 where ys: "y = (n, st, s2)" by (cases y)
    obtain G' where "inv (hold X (buf @ [b])) L s2" "keeps s1 s2" "devices s2 = devices s1"
      "groups s2 = (groups s1)(g \<mapsto> G')"
      "st = XRP_STATUS_SUCCESS \<Longrightarrow> group_records G' = group_records G @ [\<lparr>gr_buffer = b, gr_access_flags = fl\<rparr>]"
      using py unfolding ys by auto
    then show thesis using y [unfolded ys] by (intro that [of n st s2 G']) simp_all
  qed
qed

lemma wrap_buffers_inv:
  assumes "inv (hold X buf) L s" and "groups s g = Some G"
    and "length (group_records G) = length buf" and "length buf + k < 2 ^ 58" and "k \<le> length buffer"
    and "0 < cnt s (Dev d)" and "needs_memory buffer k \<longrightarrow> cnt s (Dev d) + k < 2 ^ 64"
  shows "returns_unless (needs_memory buffer k) (wrap_buffers E d g acc buffer k buf s)
    (wrapped X L s d buf k)"
  using assms
proof (induction k arbitrary: buffer buf s G)
  case 0
  then show ?case by (auto simp: wrapped_def)
next
  case (Suc k)
  obtain io rest where buffer: "buffer = io # rest" using Suc.prems(5) by (cases buffer) auto
  have nm: "needs_memory buffer (Suc k) \<longleftrightarrow> io_fd io = - 1 \<or> needs_memory rest k"
    by (auto simp: needs_memory_def buffer)
  have dev: "0 < cnt s (Dev d) \<and> cnt s (Dev d) + 1 < 2 ^ 64" if "io_fd io = - 1"
    using Suc.prems(6,7) that nm buffer by simp
  note cr = create_buffer_inv [OF Suc.prems(1), of "io_fd io" d E "ucast (io_size io)" "io_vir_addr io", OF dev]
  show ?case
    unfolding buffer wrap_buffers.simps(2) list.case
  proof (rule returns_unless_case [OF cr])
    show "needs_memory (io # rest) (Suc k)" if "io_fd io = - 1" using that nm buffer by simp
  next
    fix x
    assume x: "created_buffer (hold X buf) L (ucast (io_size io)) x \<and> keeps s (snd (snd x)) \<and>
      groups (snd (snd x)) = groups s \<and>
      (\<forall>p. cnt s (Dev p) \<le> cnt (snd (snd x)) (Dev p) \<and> cnt (snd (snd x)) (Dev p) \<le> cnt s (Dev p) + 1)"
    obtain b st s1 where xs: "x = (b, st, s1)" by (cases x)
    have fr: "keeps s s1" "groups s1 = groups s" and
      dc: "cnt s (Dev d) \<le> cnt s1 (Dev d)" "cnt s1 (Dev d) \<le> cnt s (Dev d) + 1"
      using x unfolding xs by auto
    have cb: "created_buffer (hold X buf) L (ucast (io_size io)) (b, st, s1)" using x unfolding xs by blast
    show "returns_unless (needs_memory (io # rest) (Suc k)) (case x of (b, status, s) \<Rightarrow>
        if status \<noteq> XRP_STATUS_SUCCESS then Some (False, buf, s)
        else do { (_, status, s) \<leftarrow> xrp_add_buffer_to_group E g b (acc (io_flag io)) s;
                  if status \<noteq> XRP_STATUS_SUCCESS then Some (False, buf, s)
                  else wrap_buffers E d g acc rest k (buf @ [b]) s })
      (wrapped X L s d buf (Suc k))"
    proof (cases "st = XRP_STATUS_SUCCESS")
      case False
      then have "inv (hold X (buf @ [])) L s1" using cb by (auto simp: created_buffer_def)
      from wrapped_fail [OF fr(1) dc(1) _ this] False show ?thesis by (simp add: xs)
    next
      case True
      have n: "length (group_records G) < 2 ^ 58" using Suc.prems(3,4) by simp
      obtain n st2 s2 G' where add: "xrp_add_buffer_to_group E g b (acc (io_flag io)) s1 = Some (n, st2, s2)"
        and i2: "inv (hold X (buf @ [b])) L s2" and k1: "keeps s1 s2" and dv: "devices s2 = devices s1"
        and g2: "groups s2 g = Some G'"
        and len: "st2 = XRP_STATUS_SUCCESS \<Longrightarrow> length (group_records G') = Suc (length (group_records G))"
        using add_fresh_buffer [OF Suc.prems(1,2) n cb [unfolded True] fr(2)] by metis
      have k2: "keeps s s2" by (rule keeps_trans [OF fr(1) k1])
      have dc2: "cnt s (Dev d) \<le> cnt s2 (Dev d)" "cnt s2 (Dev d) \<le> cnt s (Dev d) + 1"
        using dc dv by simp_all
      show ?thesis
      proof (cases "st2 = XRP_STATUS_SUCCESS")
        case False
        with wrapped_fail [OF k2 dc2(1) _ i2] True add show ?thesis by (simp add: xs)
      next
        case ok: True
        have room: "needs_memory rest k \<longrightarrow> cnt s2 (Dev d) + k < 2 ^ 64"
          using Suc.prems(7) nm buffer dc2(2) by (simp del: cnt.simps) linarith
        have "returns_unless (needs_memory rest k) (wrap_buffers E d g acc rest k (buf @ [b]) s2)
            (wrapped X L s2 d (buf @ [b]) k)"
          by (rule Suc.IH [OF i2 g2]) (use len [OF ok] Suc.prems(3-6) dc2 room in \<open>simp_all add: buffer\<close>)
        then have "returns_unless (needs_memory (io # rest) (Suc k))
            (wrap_buffers E d g acc rest k (buf @ [b]) s2) (wrapped X L s d buf (Suc k))"
          by (rule returns_unless_mono) (use nm buffer wrapped_step [OF k2 dc2(1)] in auto)
        then show ?thesis using True ok add by (simp add: xs)
      qed
    qed
  qed
qed

section \<open>The whole command\<close>

text \<open>What the driver is asked to do for a group with the records \<open>rs\<close>.\<close>

definition queue_command ::
    "byte list \<Rightarrow> u32 \<Rightarrow> ptr \<Rightarrow> i32 \<Rightarrow> u32 \<Rightarrow> ptr \<Rightarrow> i32 \<Rightarrow> u32 \<Rightarrow> xrp_ioctl_buffer list \<Rightarrow> xrp_ioctl_queue" where
  "queue_command nsid priority inp infd insz out outfd outsz bs = \<lparr>
     iq_flags = XRP_QUEUE_FLAG_NSID OR (push_bit XRP_QUEUE_FLAG_PRIO_SHIFT priority AND XRP_QUEUE_FLAG_PRIO),
     iq_in_data_size = insz, iq_out_data_size = outsz, iq_buffer_size = of_nat (24 * length bs),
     iq_in_data_addr = inp, iq_in_data_fd = infd, iq_out_data_addr = out, iq_out_data_fd = outfd,
     iq_buffers = bs, iq_nsid = nsid\<rparr>"

lemma of_nat_ucast: "ucast (of_nat n :: 64 word) = (of_nat n :: 32 word)"
  by transfer (simp add: take_bit_of_nat min_def)

lemma run_directly_raw:
  assumes g: "g \<noteq> 0" "groups s g = Some G" "group_ok G" and D: "devices s d = Some D"
    and live: "\<And>r. r \<in> set (group_records G) \<Longrightarrow> buffers s (gr_buffer r) \<noteq> None"
  shows "xrp_run_command_directly E d nsid priority inp infd insz out outfd outsz g s =
    (let c = Sys_ioctl_queue (d_fd D) (queue_command nsid priority inp infd (ucast insz) out outfd
               (ucast outsz) (map (describe s) (group_records G)))
     in Some (if sint (ans_ret (env_sys E (trace s) c)) < 0 then XRP_STATUS_FAILURE
              else XRP_STATUS_SUCCESS, s\<lparr>trace := trace s @ [c]\<rparr>))"
proof -
  have "g_n_buffers G * 24 = of_nat (24 * length (group_records G))"
    using group_records_length [OF g(3)] by simp
  then have "ucast (g_n_buffers G * 24) = (of_nat (24 * length (group_records G)) :: u32)"
    by (metis of_nat_ucast)
  moreover have "describe_buffers s G (unat (g_n_buffers G)) 0 = Some (map (describe s) (group_records G))"
    by (rule describe_buffers_eq) (use slot_of_nat [OF g(3)] group_records_length [OF g(3)] live in auto)
  ultimately show ?thesis
    by (simp add: xrp_run_command_directly_def g D sys_def queue_command_def Let_def)
qed

lemma run_directly_eq:
  assumes i: "inv X L s" and g: "groups s g = Some G" and D: "devices s d = Some D"
  shows "xrp_run_command_directly E d nsid priority inp infd insz out outfd outsz g s =
    (let c = Sys_ioctl_queue (d_fd D) (queue_command nsid priority inp infd (ucast insz) out outfd
               (ucast outsz) (map (describe s) (group_records G)))
     in Some (if sint (ans_ret (env_sys E (trace s) c)) < 0 then XRP_STATUS_FAILURE
              else XRP_STATUS_SUCCESS, s\<lparr>trace := trace s @ [c]\<rparr>))"
  using invD(1) [OF i] g live_group_ok [OF i g] D
  by (intro run_directly_raw member_live [OF i g]) (auto simp: maps_ok_def)

lemma release_each_plain:
  assumes "inv (hold X (bs @ cs)) L s"
  shows "returns (release_each E bs s) (\<lambda>t. inv (hold X cs) L t \<and> keeps s t \<and> groups t = groups s)"
proof -
  have "s\<lparr>groups := groups s\<rparr> = s" by simp
  moreover obtain t where "release_each E bs (s\<lparr>groups := groups s\<rparr>) = Some (t\<lparr>groups := groups s\<rparr>)"
    "groups t = groups s" "keeps s t" "inv (hold X cs) L t"
    using release_each_inv [OF assms traded_hold, of E "groups s"] by blast
  moreover from this(2) have "t\<lparr>groups := groups s\<rparr> = t" by (cases t) simp
  ultimately show ?thesis by simp
qed

lemma release_buffers_all:
  "unat num = length bs \<Longrightarrow> release_xrp_buffers E bs num s = release_each E bs s"
  by (simp add: release_xrp_buffers_def)

text \<open>Taking the group down and then the buffers the caller still holds.\<close>

lemma take_down:
  assumes i: "inv (hold (X(Grp g := 1)) (bs @ cs)) L s" and x: "X (Grp g) = 0" and n: "unat num = length bs"
  shows "returns (xrp_release_buffer_group E g s) (\<lambda>t. returns (release_xrp_buffers E bs num t)
    (\<lambda>u. inv (hold X cs) L u \<and> keeps s u))"
proof -
  have "0 < hold (X(Grp g := 1)) (bs @ cs) (Grp g)" by simp
  then show ?thesis
  proof (rule returns_mono [OF release_group_inv [OF i]])
    fix t
    assume t: "inv ((hold (X(Grp g := 1)) (bs @ cs))(Grp g := hold (X(Grp g := 1)) (bs @ cs) (Grp g) - 1)) L t \<and>
      keeps s t"
    have "(X(Grp g := 1))(Grp g := 0) = X" using x by auto
    then have "inv (hold X (bs @ cs)) L t" using t by (simp add: hold_group)
    from release_each_plain [OF this, of E] keeps_trans [of s t] t
    show "returns (release_xrp_buffers E bs num t) (\<lambda>u. inv (hold X cs) L u \<and> keeps s u)"
      by (auto simp: release_buffers_all [OF n] elim: returns_mono)
  qed
qed

lemma returns_twice:
  "returns m (\<lambda>v. returns (f v) Q) \<Longrightarrow> returns_unless ab m (\<lambda>v. returns_unless ab (f v) Q)"
  by (cases m) (auto simp: returns_iff)

definition sent :: "refs \<Rightarrow> (ptr \<Rightarrow> ptr list) \<Rightarrow> xrp_state \<Rightarrow> sprd_vdsp_status \<times> xrp_state \<Rightarrow> bool" where
  "sent X L s r = (case r of (st, t) \<Rightarrow> keeps s t \<and> (\<exists>lost. length lost \<le> 1 \<and>
     inv (hold X lost) L t \<and> (st = SPRD_XRP_STATUS_SUCCESS \<longrightarrow> lost = [])))"

lemma sent_unchanged: "inv X L t \<Longrightarrow> keeps s t \<Longrightarrow> sent X L s (st, t)"
  unfolding sent_def prod.case by (intro conjI exI [of _ "[]"]) auto

text \<open>The part after the group is created.\<close>

lemma send_with_group:
  assumes i: "inv (X(Grp g := 1)) L s" and x: "X (Grp g) = 0"
    and g: "groups s g = Some G" "group_records G = []"
    and dev: "0 < cnt s (Dev d)" "needs_memory buffer (unat num) \<longrightarrow> cnt s (Dev d) + unat num < 2 ^ 64"
    and n: "unat num \<le> length buffer"
  shows "returns_unless (needs_memory buffer (unat num)) (do {
      (wrapped, buf, s) \<leftarrow> wrap_buffers E d g translate_access_flag_internal buffer (unat num) [] s;
      if \<not> wrapped
      then do { s \<leftarrow> xrp_release_buffer_group E g s;
                s \<leftarrow> release_xrp_buffers E buf (of_nat (length buf)) s;
                Some (SPRD_XRP_STATUS_FAILURE, s) }
      else do {
        (status, s) \<leftarrow> xrp_run_command_directly E d nsid priority inp infd insz out outfd outsz g s;
        s \<leftarrow> xrp_release_buffer_group E g s;
        s \<leftarrow> release_xrp_buffers E buf num s;
        Some (if status \<noteq> XRP_STATUS_SUCCESS then SPRD_XRP_STATUS_FAILURE
              else SPRD_XRP_STATUS_SUCCESS, s) } }) (sent X L s)"
    (is "returns_unless ?ab (Option.bind _ ?k) _")
proof -
  let ?X = "X(Grp g := 1)"
  have num: "unat num < 2 ^ 32" using unsigned_less [of num] by simp
  have w: "returns_unless ?ab (wrap_buffers E d g translate_access_flag_internal buffer (unat num) [] s)
      (wrapped ?X L s d [] (unat num))"
    by (rule wrap_buffers_inv [where G = G]) (use i g dev n num in simp_all)
  show ?thesis
  proof (rule returns_unless_case [OF w])
    fix z
    assume z: "wrapped ?X L s d [] (unat num) z"
    obtain ok buf t where zs: "z = (ok, buf, t)" by (cases z)
    obtain lost where k: "keeps s t" and c: "cnt s (Dev d) \<le> cnt t (Dev d)"
      and len: "length buf + length lost \<le> unat num" "ok \<longrightarrow> lost = [] \<and> length buf = unat num" "length lost \<le> 1"
      and it: "inv (hold ?X (buf @ lost)) L t"
      using z unfolding zs wrapped_def by auto
    have down: "returns (xrp_release_buffer_group E g u) (\<lambda>v. returns (release_xrp_buffers E buf m v)
        (\<lambda>w. sent X L s (st, w)))"
      if "keeps s u" "inv (hold ?X (buf @ lost)) L u" "unat m = length buf"
         "st = SPRD_XRP_STATUS_SUCCESS \<longrightarrow> lost = []" for u st and m :: u32
      by (rule returns_mono [OF take_down [OF that(2) x that(3)]], erule returns_mono)
        (use that(1,4) len(3) keeps_trans in \<open>auto simp: sent_def\<close>)
    show "returns_unless ?ab (?k z) (sent X L s)"
    proof (cases ok)
      case False
      have "unat (of_nat (length buf) :: u32) = length buf"
        using len(1) num by (simp add: unat_of_nat)
      from down [OF k it this, of SPRD_XRP_STATUS_FAILURE] False show ?thesis
        by (simp add: zs returns_twice)
    next
      case True
      have "0 < hold ?X (buf @ lost) (Grp g)" by simp
      then obtain G' where G': "groups t g = Some G'" using owned_live(3) [OF it] by blast
      obtain D where D: "devices t d = Some D" using c dev(1) by (auto split: option.splits)
      have "inv (hold ?X (buf @ lost)) L (t\<lparr>trace := tr\<rparr>)" "keeps s (t\<lparr>trace := tr\<rparr>)" for tr
        using it k by simp_all
      from down [OF this(2,1), of num] len(2) True
      have "returns (xrp_release_buffer_group E g (t\<lparr>trace := tr\<rparr>))
          (\<lambda>v. returns (release_xrp_buffers E buf num v) (\<lambda>w. sent X L s (st, w)))" for tr st
        by simp
      then show ?thesis using True
        by (simp add: zs run_directly_eq [OF it G' D] Let_def returns_twice)
    qed
  qed simp
qed

lemma send_directly_inv:
  assumes i: "inv X L s" and dev: "0 < cnt s (Dev d)"
      "needs_memory buffer (unat num) \<longrightarrow> cnt s (Dev d) + unat num < 2 ^ 64"
    and n: "unat num \<le> length buffer" and ns: "0 \<in> set nsid"
  shows "returns_unless (needs_memory buffer (unat num))
    (sprd_vdsp_send_command_directly E d nsid input output buffer num priority s) (sent X L s)"
proof -
  define len where "len = length (takeWhile (\<lambda>b. b \<noteq> 0) nsid)"
  have len: "c_strlen nsid = Some len" using ns by (simp add: c_strlen_def len_def)
  obtain D where D: "devices s d = Some D" using dev(1) by (auto split: option.splits)
  note def = sprd_vdsp_send_command_directly_def xrp_run_faceid_command_directly_def sys_def Let_def
  consider (long) "len > XRP_NAMESPACE_ID_SIZE - 1"
    | (faceid) "len \<le> XRP_NAMESPACE_ID_SIZE - 1" "take 9 (copy_nsid nsid len) = FACEID_NSID"
    | (no_room) "len \<le> XRP_NAMESPACE_ID_SIZE - 1" "take 9 (copy_nsid nsid len) \<noteq> FACEID_NSID" "new_ptr E s = 0"
    | (cmd) "len \<le> XRP_NAMESPACE_ID_SIZE - 1" "take 9 (copy_nsid nsid len) \<noteq> FACEID_NSID" "new_ptr E s \<noteq> 0"
    by linarith
  then show ?thesis
  proof cases
    case long
    then show ?thesis using i by (simp add: def len sent_unchanged)
  next
    case faceid
    then show ?thesis using i D by (simp add: def len sent_unchanged)
  next
    case no_room
    then show ?thesis using i by (simp add: def len malloc_def sent_unchanged)
  next
    case cmd
    define s1 where "s1 = s\<lparr>allocs := Suc (allocs s)\<rparr>"
    have i1: "inv X L s1" using i by (simp add: s1_def)
    obtain g st s2 where gr: "xrp_create_buffer_group E s1 = (g, st, s2)"
      by (cases "xrp_create_buffer_group E s1")
    note cg = create_group_inv [OF i1 gr]
    have k2: "keeps s s2" using cg by (simp add: s1_def keeps_def)
    have dv: "devices s2 = devices s1"
      using gr by (auto simp: xrp_create_buffer_group_def alloc_refcounted_eq put_group_def split: if_splits)
    show ?thesis
    proof (cases "st = XRP_STATUS_SUCCESS")
      case False
      then show ?thesis using cg k2 cmd
        by (simp add: def len malloc_def s1_def [symmetric] gr sent_unchanged)
    next
      case True
      then obtain G where G: "X (Grp g) = 0" "inv (X(Grp g := 1)) L s2" "groups s2 g = Some G" "group_records G = []"
        using cg by auto
      have dev2: "0 < cnt s2 (Dev d)"
        "needs_memory buffer (unat num) \<longrightarrow> cnt s2 (Dev d) + unat num < 2 ^ 64"
        using dev dv by (simp_all add: s1_def)
      note w = send_with_group [OF G(2,1,3,4) dev2 n]
      have "sent X L s2 r \<Longrightarrow> sent X L s r" for r
        using keeps_trans [OF k2] by (auto simp: sent_def)
      with returns_unless_mono [OF w] show ?thesis using cmd True
        by (simp add: def len malloc_def s1_def [symmetric] gr del: returns_unless_bind)
    qed
  qed
qed

section \<open>The exact effect on ion buffers\<close>

text \<open>Releasing host buffers only counts down or removes them.\<close>

definition dec_buffer :: "xrp_buffer option \<Rightarrow> xrp_buffer option" where
  "dec_buffer x = (case x of None \<Rightarrow> None
     | Some B \<Rightarrow> if b_count B = 1 then None else Some (B\<lparr>b_count := b_count B - 1\<rparr>))"

definition dec_buffers :: "ptr list \<Rightarrow> (ptr \<rightharpoonup> xrp_buffer) \<Rightarrow> (ptr \<rightharpoonup> xrp_buffer)" where
  "dec_buffers bs m = (\<lambda>p. if p \<in> set bs then dec_buffer (m p) else m p)"

lemma release_host:
  assumes "buffers s b = Some B" and "b_type B = XRP_BUFFER_TYPE_HOST"
  shows "xrp_release_buffer E b s = Some (s\<lparr>buffers := dec_buffers [b] (buffers s)\<rparr>)"
proof -
  have "(buffers s)(b := dec_buffer (buffers s b)) = dec_buffers [b] (buffers s)"
    by (auto simp: dec_buffers_def)
  then show ?thesis using assms
    by (auto simp: xrp_release_buffer_def last_release_refcounted_def dec_buffer_def put_buffer_def
        free_buffer_def Let_def split: if_splits)
qed

lemma release_each_host:
  "distinct bs \<Longrightarrow> (\<And>b. b \<in> set bs \<Longrightarrow> \<exists>B. buffers s b = Some B \<and> b_type B = XRP_BUFFER_TYPE_HOST) \<Longrightarrow>
   release_each E bs s = Some (s\<lparr>buffers := dec_buffers bs (buffers s)\<rparr>)"
proof (induction bs arbitrary: s)
  case Nil
  then show ?case by (simp add: dec_buffers_def)
next
  case (Cons b bs)
  define t where "t = s\<lparr>buffers := dec_buffers [b] (buffers s)\<rparr>"
  have same: "buffers t c = buffers s c" if "c \<in> set bs" for c
    using Cons.prems(1) that by (auto simp: t_def dec_buffers_def)
  have "release_each E bs t = Some (t\<lparr>buffers := dec_buffers bs (buffers t)\<rparr>)"
    by (rule Cons.IH) (use Cons.prems same in auto)
  moreover have "dec_buffers bs (buffers t) = dec_buffers (b # bs) (buffers s)"
    using Cons.prems(1) by (auto simp: dec_buffers_def t_def fun_eq_iff)
  moreover obtain B where "buffers s b = Some B" "b_type B = XRP_BUFFER_TYPE_HOST"
    using Cons.prems(2) [of b] by auto
  ultimately show ?case using release_host [of s b B E] by (simp add: t_def)
qed

definition ion_buffer :: "64 word \<Rightarrow> sprd_vdsp_inout \<Rightarrow> xrp_buffer" where
  "ion_buffer c io = (new_host_buffer (ucast (io_size io)) (io_vir_addr io) (io_fd io))\<lparr>b_count := c\<rparr>"

definition ion_buffers :: "64 word \<Rightarrow> (ptr \<times> sprd_vdsp_inout) list \<Rightarrow> (ptr \<rightharpoonup> xrp_buffer)" where
  "ion_buffers c ps = map_of (map (\<lambda>(b, io). (b, ion_buffer c io)) ps)"

lemma ion_buffer_type [simp]: "b_type (ion_buffer c io) = XRP_BUFFER_TYPE_HOST" "b_count (ion_buffer c io) = c"
  by (simp_all add: ion_buffer_def new_host_buffer_def zero_buffer_def)

lemma ion_buffers_none: "ion_buffers c ps p = None \<longleftrightarrow> p \<notin> fst ` set ps"
  by (force simp: ion_buffers_def map_of_eq_None_iff)

lemma ion_buffers_some:
  "distinct (map fst ps) \<Longrightarrow> (b, io) \<in> set ps \<Longrightarrow> ion_buffers c ps b = Some (ion_buffer c io)"
  by (induction ps) (force simp: ion_buffers_def)+

lemma ion_buffers_dec:
  assumes "distinct (map fst ps)"
  shows "dec_buffers (map fst ps) (m ++ ion_buffers 2 ps) = m ++ ion_buffers 1 ps"
    and "(\<And>b. b \<in> fst ` set ps \<Longrightarrow> m b = None) \<Longrightarrow> dec_buffers (map fst ps) (m ++ ion_buffers 1 ps) = m"
proof -
  have "dec_buffers (map fst ps) (m ++ ion_buffers 2 ps) p = (m ++ ion_buffers 1 ps) p" for p
  proof (cases "p \<in> fst ` set ps")
    case True
    then obtain io where "(p, io) \<in> set ps" by auto
    from ion_buffers_some [OF assms this] True show ?thesis
      by (simp add: dec_buffers_def dec_buffer_def ion_buffer_def)
  qed (simp add: dec_buffers_def map_add_def ion_buffers_none [THEN iffD2])
  then show "dec_buffers (map fst ps) (m ++ ion_buffers 2 ps) = m ++ ion_buffers 1 ps" by blast
  assume z: "\<And>b. b \<in> fst ` set ps \<Longrightarrow> m b = None"
  have "dec_buffers (map fst ps) (m ++ ion_buffers 1 ps) p = m p" for p
  proof (cases "p \<in> fst ` set ps")
    case True
    then obtain io where "(p, io) \<in> set ps" by auto
    from ion_buffers_some [OF assms this] True z show ?thesis
      by (simp add: dec_buffers_def dec_buffer_def)
  qed (simp add: dec_buffers_def map_add_def ion_buffers_none [THEN iffD2])
  then show "dec_buffers (map fst ps) (m ++ ion_buffers 1 ps) = m" by blast
qed

text \<open>The record a buffer of the caller gets in the group, and its description.\<close>

definition record_of :: "(u32 \<Rightarrow> u32) \<Rightarrow> ptr \<times> sprd_vdsp_inout \<Rightarrow> xrp_buffer_group_record" where
  "record_of acc p = \<lparr>gr_buffer = fst p, gr_access_flags = acc (io_flag (snd p))\<rparr>"

definition describe_inout :: "(u32 \<Rightarrow> u32) \<Rightarrow> sprd_vdsp_inout \<Rightarrow> xrp_ioctl_buffer" where
  "describe_inout acc io = \<lparr>ib_flags = acc (io_flag io), ib_size = io_size io, ib_addr = io_vir_addr io,
     ib_fd = io_fd io\<rparr>"

lemma describe_ion:
  assumes "distinct (map fst ps)" and "buffers s = m ++ ion_buffers c ps"
  shows "map (describe s) (map (record_of acc) ps) = map (describe_inout acc) (map snd ps)"
proof -
  have "describe s (record_of acc p) = describe_inout acc (snd p)" if "p \<in> set ps" for p
  proof -
    obtain b io where p: "p = (b, io)" by (cases p)
    have "ucast (ucast (io_size io) :: size_t) = io_size io" by (simp add: ucast_up_ucast_id is_up)
    then show ?thesis using ion_buffers_some [OF assms(1), of b io c] that
      by (simp add: p describe_def record_of_def describe_inout_def assms(2) ion_buffer_def
          new_host_buffer_def zero_buffer_def)
  qed
  then show ?thesis by simp
qed

text \<open>The store inside a command: the wrapped buffers are in the group and in the table.\<close>

definition wrapped_ion ::
    "xrp_state \<Rightarrow> ptr \<Rightarrow> xrp_buffer_group \<Rightarrow> (u32 \<Rightarrow> u32) \<Rightarrow> (ptr \<times> sprd_vdsp_inout) list \<Rightarrow> xrp_state \<Rightarrow> bool" where
  "wrapped_ion s g G acc ps t \<longleftrightarrow> distinct (map fst ps) \<and> (\<forall>b\<in>fst ` set ps. buffers s b = None) \<and>
     (\<exists>G' n. t = s\<lparr>allocs := n, buffers := buffers s ++ ion_buffers 2 ps, groups := (groups s)(g \<mapsto> G')\<rparr> \<and>
        group_ok G' \<and> g_count G' = g_count G \<and>
        group_records G' = group_records G @ map (record_of acc) ps)"

text \<open>One round of the loop on an ion buffer: two allocations that may fail, then the buffer is
  in the table and in the group.\<close>

lemma wrap_round:
  assumes G: "group_ok G" "groups s g = Some G" "unat (g_n_buffers G) < 2 ^ 58"
    and io: "io_fd io \<noteq> - 1" and d: "d \<noteq> 0"
  obtains (failed) b st s1 where
      "xrp_create_buffer E d (ucast (io_size io)) (io_vir_addr io) (io_fd io) s = Some (b, st, s1)"
      "st \<noteq> XRP_STATUS_SUCCESS \<or> (\<exists>n s2. xrp_add_buffer_to_group E g b fl s1 = Some (n, XRP_STATUS_FAILURE, s2))"
  | (added) b s1 n s2 G' k where
      "xrp_create_buffer E d (ucast (io_size io)) (io_vir_addr io) (io_fd io) s = Some (b, XRP_STATUS_SUCCESS, s1)"
      "xrp_add_buffer_to_group E g b fl s1 = Some (n, XRP_STATUS_SUCCESS, s2)"
      "buffers s b = None" "group_ok G'" "g_count G' = g_count G"
      "group_records G' = group_records G @ [\<lparr>gr_buffer = b, gr_access_flags = fl\<rparr>]"
      "s2 = s\<lparr>allocs := k, buffers := (buffers s)(b \<mapsto> ion_buffer 2 io), groups := (groups s)(g \<mapsto> G')\<rparr>"
proof -
  define b where "b = new_ptr E s"
  define B where "B = new_host_buffer (ucast (io_size io)) (io_vir_addr io) (io_fd io)"
  define s1 where "s1 = put_buffer b B (s\<lparr>allocs := Suc (allocs s)\<rparr>)"
  have cr: "xrp_create_buffer E d (ucast (io_size io)) (io_vir_addr io) (io_fd io) s =
      Some (if b = 0 then (0, XRP_STATUS_FAILURE, s\<lparr>allocs := Suc (allocs s)\<rparr>) else (b, XRP_STATUS_SUCCESS, s1))"
    using create_host_buffer_eq [OF io, of "io_vir_addr io" d E "ucast (io_size io)" s] d
    by (simp add: Let_def b_def B_def s1_def)
  show thesis
  proof (cases "b = 0")
    case True
    with cr show thesis by (intro failed) auto
  next
    case False
    have fresh: "buffers s b = None" using False new_ptr_fresh [of E s] by (simp add: b_def fresh_def)
    have B1: "buffers s1 b = Some B" and g1: "groups s1 g = Some G"
      using G by (simp_all add: s1_def put_buffer_def)
    define full where "full = (g_n_buffers G = g_capacity G)"
    define G1 where "G1 = (if full then grow G else G)"
    define G' where "G' = append_record \<lparr>gr_buffer = b, gr_access_flags = fl\<rparr> G1"
    have G1: "group_ok G1" "group_records G1 = group_records G" "g_n_buffers G1 < g_capacity G1" "g_count G1 = g_count G"
    proof -
      have "g_n_buffers G < g_capacity G" if "\<not> full" using G(1) that by (auto simp: group_ok_def full_def)
      then show "group_ok G1" "group_records G1 = group_records G" "g_n_buffers G1 < g_capacity G1" "g_count G1 = g_count G"
        using grow [OF G(1)] G(1,3) by (auto simp: G1_def full_def) (simp_all add: grow_def)
    qed
    define k where "k = (if full then Suc (Suc (allocs s)) else Suc (allocs s))"
    define s2 where "s2 = s\<lparr>allocs := k, buffers := (buffers s)(b \<mapsto> ion_buffer 2 io), groups := (groups s)(g \<mapsto> G')\<rparr>"
    have two: "B\<lparr>b_count := retain_refcounted (b_count B)\<rparr> = ion_buffer 2 io"
      by (simp add: B_def ion_buffer_def new_host_buffer_def zero_buffer_def retain_refcounted_def)
    have add: "xrp_add_buffer_to_group E g b fl s1 = (if full \<and> new_ptr E s1 = 0
        then Some (- 1, XRP_STATUS_FAILURE, put_group g G (s1\<lparr>allocs := Suc (allocs s1)\<rparr>))
        else Some (g_n_buffers G, XRP_STATUS_SUCCESS, s2))"
      using add_buffer_eq [OF G(1) g1 B1 G(3), of E fl]
      by (simp add: full_def [symmetric] Let_def two G1_def [symmetric] G'_def [symmetric])
        (auto simp: s2_def s1_def k_def put_buffer_def put_group_def)
    show thesis
    proof (cases "full \<and> new_ptr E s1 = 0")
      case True
      with cr add False show thesis by (intro failed [of b XRP_STATUS_SUCCESS s1]) auto
    next
      case ok: False
      with cr add False fresh append_record(1,2) [OF G1(1,3)] G1(2,4) show thesis
        by (intro added [of b s1 "g_n_buffers G" s2 G' k]) (auto simp: s2_def G'_def append_record_def)
    qed
  qed
qed

lemma wrap_buffers_ion:
  assumes "group_ok G" and "groups s g = Some G" and "unat (g_n_buffers G) + k < 2 ^ 58"
    and "k \<le> length buffer" and "\<not> needs_memory buffer k" and "d \<noteq> 0"
  shows "\<exists>ok buf' t. wrap_buffers E d g acc buffer k buf s = Some (ok, buf', t) \<and>
    (ok \<longrightarrow> (\<exists>ps. buf' = buf @ map fst ps \<and> map snd ps = take k buffer \<and> wrapped_ion s g G acc ps t))"
  using assms(1-5)
proof (induction k arbitrary: G buffer buf s)
  case 0
  have "wrapped_ion s g G acc [] s"
    using 0(1,2) unfolding wrapped_ion_def
    by (intro conjI exI [of _ G] exI [of _ "allocs s"]) (simp_all add: ion_buffers_def fun_upd_idem)
  then show ?case by auto
next
  case (Suc k)
  obtain io rest where buffer: "buffer = io # rest" using Suc.prems(4) by (cases buffer) auto
  have io: "io_fd io \<noteq> - 1" and rest: "\<not> needs_memory rest k"
    using Suc.prems(5) by (auto simp: needs_memory_def buffer)
  have n: "unat (g_n_buffers G) < 2 ^ 58" using Suc.prems(3) by simp
  from Suc.prems(1,2) n io assms(6) show ?case
  proof (cases rule: wrap_round [where E = E and fl = "acc (io_flag io)"])
    case (failed b st s1)
    then show ?thesis by (auto simp: buffer)
  next
    case (added b s1 n s2 G' j)
    have "length (group_records G') = Suc (length (group_records G))" using added(6) by simp
    then have "unat (g_n_buffers G') = Suc (unat (g_n_buffers G))"
      using group_records_length [OF Suc.prems(1)] group_records_length [OF added(4)] by simp
    then have "unat (g_n_buffers G') + k < 2 ^ 58" using Suc.prems(3) by simp
    moreover have "groups s2 g = Some G'" using added(7) by simp
    moreover have "k \<le> length rest" using Suc.prems(4) by (simp add: buffer)
    ultimately obtain ok buf' t where t: "wrap_buffers E d g acc rest k (buf @ [b]) s2 = Some (ok, buf', t)"
      and w: "ok \<Longrightarrow> \<exists>ps. buf' = (buf @ [b]) @ map fst ps \<and> map snd ps = take k rest \<and> wrapped_ion s2 g G' acc ps t"
      using Suc.IH [OF added(4) _ _ _ rest] by blast
    have "\<exists>ps. buf' = buf @ map fst ps \<and> map snd ps = take (Suc k) buffer \<and> wrapped_ion s g G acc ps t" if ok
    proof -
      note w = w [OF that]
      obtain ps G2 m where ps: "buf' = (buf @ [b]) @ map fst ps" "map snd ps = take k rest"
        "distinct (map fst ps)" "\<forall>c\<in>fst ` set ps. buffers s2 c = None"
        "t = s2\<lparr>allocs := m, buffers := buffers s2 ++ ion_buffers 2 ps, groups := (groups s2)(g \<mapsto> G2)\<rparr>"
        "group_ok G2" "g_count G2 = g_count G'" "group_records G2 = group_records G' @ map (record_of acc) ps"
        using w unfolding wrapped_ion_def by blast
      have nb: "b \<notin> fst ` set ps" using ps(4) added(7) by force
      have "(buffers s)(b \<mapsto> ion_buffer 2 io) ++ ion_buffers 2 ps = buffers s ++ ion_buffers 2 ((b, io) # ps)"
        using nb by (auto simp: ion_buffers_def map_add_def fun_eq_iff map_of_eq_None_iff image_iff
            split: option.splits) (force dest: map_of_SomeD)+
      then have "t = s\<lparr>allocs := m, buffers := buffers s ++ ion_buffers 2 ((b, io) # ps), groups := (groups s)(g \<mapsto> G2)\<rparr>"
        unfolding ps(5) added(7) by simp
      moreover have "\<forall>c\<in>fst ` set ((b, io) # ps). buffers s c = None"
        using ps(4) added(3,7) by (auto split: if_splits)
      ultimately have "wrapped_ion s g G acc ((b, io) # ps) t"
        using ps(3,6,7,8) nb added(5,6) unfolding wrapped_ion_def by (auto simp: record_of_def)
      moreover have "buf' = buf @ map fst ((b, io) # ps)" "map snd ((b, io) # ps) = take (Suc k) buffer"
        using ps(1,2) by (simp_all add: buffer)
      ultimately show ?thesis by blast
    qed
    then show ?thesis using added(1,2) t by (auto simp: buffer)
  qed
qed

lemma release_group_host:
  assumes g: "groups u g = Some G" "group_ok G" "g_count G = 1" and ds: "distinct (group_bufs G)"
    and host: "\<And>b. b \<in> set (group_bufs G) \<Longrightarrow> \<exists>B. buffers u b = Some B \<and> b_type B = XRP_BUFFER_TYPE_HOST"
  shows "xrp_release_buffer_group E g u =
    Some (u\<lparr>buffers := dec_buffers (group_bufs G) (buffers u), groups := (groups u)(g := None)\<rparr>)"
proof -
  define v where "v = put_group g (G\<lparr>g_count := 0, g_mutex := True\<rparr>) u"
  have "release_each E (group_bufs G) v = Some (v\<lparr>buffers := dec_buffers (group_bufs G) (buffers v)\<rparr>)"
    using ds host by (intro release_each_host) (simp_all add: v_def put_group_def)
  then show ?thesis using g
    by (simp add: xrp_release_buffer_group_def last_release_refcounted_def lock_defs Let_def
        release_members_group v_def [symmetric])
      (simp add: v_def put_group_def free_group_def group_ok_def)
qed

text \<open>Running the command on wrapped ion buffers and taking everything down leaves the store as
  the group's creation found it.\<close>

lemma take_down_ion:
  assumes w: "wrapped_ion s1 g G acc ps t" and g: "g \<noteq> 0" "g_count G = 1" "group_records G = []"
    and f: "groups s g = None" and s1: "s1 = s\<lparr>allocs := n, groups := (groups s)(g \<mapsto> G)\<rparr>"
    and num: "unat num = length ps" and D: "devices s d = Some D"
  shows "do { (status, s) \<leftarrow> xrp_run_command_directly E d nsid priority inp infd insz out outfd outsz g t;
              s \<leftarrow> xrp_release_buffer_group E g s;
              s \<leftarrow> release_xrp_buffers E (map fst ps) num s;
              Some (status, s) } =
    (let c = Sys_ioctl_queue (d_fd D) (queue_command nsid priority inp infd (ucast insz) out outfd
               (ucast outsz) (map (describe_inout acc) (map snd ps)))
     in Some (if sint (ans_ret (env_sys E (trace s) c)) < 0 then XRP_STATUS_FAILURE
              else XRP_STATUS_SUCCESS, s\<lparr>allocs := allocs t, trace := trace s @ [c]\<rparr>))"
proof -
  obtain G' k where raw: "t = s1\<lparr>allocs := k, buffers := buffers s1 ++ ion_buffers 2 ps, groups := (groups s1)(g \<mapsto> G')\<rparr>"
    and ok: "group_ok G'" "g_count G' = g_count G" "group_records G' = group_records G @ map (record_of acc) ps"
    using w unfolding wrapped_ion_def by blast
  have ds: "distinct (map fst ps)" and fr: "\<And>b. b \<in> fst ` set ps \<Longrightarrow> buffers s b = None"
    using w by (auto simp: wrapped_ion_def s1)
  have t: "t = s\<lparr>allocs := k, buffers := buffers s ++ ion_buffers 2 ps, groups := (groups s)(g \<mapsto> G')\<rparr>"
    using raw by (simp add: s1)
  have G': "group_ok G'" "g_count G' = 1" "group_records G' = map (record_of acc) ps"
    using ok g by simp_all
  have bufs: "group_bufs G' = map fst ps" by (simp add: group_bufs_def G'(3) record_of_def comp_def)
  have host: "\<exists>B. (buffers s ++ ion_buffers c ps) b = Some B \<and> b_type B = XRP_BUFFER_TYPE_HOST"
    if "b \<in> set (map fst ps)" for b c
  proof -
    from that have "\<exists>io. (b, io) \<in> set ps" by auto
    then obtain io where "(b, io) \<in> set ps" by blast
    from ion_buffers_some [OF ds this, of c] show ?thesis by simp
  qed
  have live: "buffers t (gr_buffer r) \<noteq> None" if "r \<in> set (group_records G')" for r
  proof -
    have "gr_buffer r \<in> set (map fst ps)" using that by (force simp: G'(3) record_of_def)
    from host [OF this, of 2] show ?thesis by (auto simp: t)
  qed
  have desc: "map (describe t) (group_records G') = map (describe_inout acc) (map snd ps)"
    unfolding G'(3) by (rule describe_ion [OF ds]) (simp add: t)
  define c where "c = Sys_ioctl_queue (d_fd D) (queue_command nsid priority inp infd (ucast insz) out outfd
    (ucast outsz) (map (describe_inout acc) (map snd ps)))"
  define u where "u = t\<lparr>trace := trace s @ [c]\<rparr>"
  define st where "st = (if sint (ans_ret (env_sys E (trace s) c)) < 0 then XRP_STATUS_FAILURE else XRP_STATUS_SUCCESS)"
  have run: "xrp_run_command_directly E d nsid priority inp infd insz out outfd outsz g t = Some (st, u)"
  proof -
    have eqs: "trace t = trace s" "devices t d = Some D" "groups t g = Some G'" by (simp_all add: t D)
    show ?thesis
      using run_directly_raw [OF g(1) eqs(3) G'(1) eqs(2) live, of E nsid priority inp infd insz out outfd outsz]
      unfolding desc eqs(1) c_def [symmetric] Let_def st_def [symmetric] u_def [symmetric] .
  qed
  define v where "v = u\<lparr>buffers := buffers s ++ ion_buffers 1 ps, groups := (groups u)(g := None)\<rparr>"
  have "xrp_release_buffer_group E g u = Some v"
    using release_group_host [of u g G' E] G' host bufs ds ion_buffers_dec(1) [OF ds]
    by (simp add: u_def t v_def)
  moreover have "release_xrp_buffers E (map fst ps) num v = Some (v\<lparr>buffers := buffers s\<rparr>)"
    using release_each_host [OF ds, of v E] host ion_buffers_dec(2) [OF ds fr] num
    by (simp add: release_buffers_all v_def)
  moreover have "v\<lparr>buffers := buffers s\<rparr> = s\<lparr>allocs := allocs t, trace := trace s @ [c]\<rparr>"
    using f by (simp add: v_def u_def t fun_upd_idem)
  ultimately show ?thesis unfolding Let_def c_def [symmetric] st_def [symmetric] run by simp
qed

lemma create_group_eq:
  "xrp_create_buffer_group E s = (let g = new_ptr E s; s = s\<lparr>allocs := Suc (allocs s)\<rparr>
     in if g = 0 then (0, XRP_STATUS_FAILURE, s)
        else (g, XRP_STATUS_SUCCESS, s\<lparr>groups := (groups s)(g \<mapsto> \<lparr>g_count = 1, g_mutex = False,
                g_n_buffers = 0, g_capacity = 0, g_buffer = []\<rparr>)\<rparr>))"
  by (simp add: xrp_create_buffer_group_def alloc_refcounted_eq put_group_def Let_def)

lemma send_directly_ion:
  assumes D: "devices s d = Some D" "d \<noteq> 0" and ns: "c_strlen nsid = Some len" "len < XRP_NAMESPACE_ID_SIZE"
    "take 9 (copy_nsid nsid len) \<noteq> FACEID_NSID"
    and n: "unat num \<le> length buffer" and ion: "\<not> needs_memory buffer (unat num)"
    and r: "sprd_vdsp_send_command_directly E d nsid input output buffer num priority s = Some (st, t)"
    and st: "st = SPRD_XRP_STATUS_SUCCESS"
  shows "let c = Sys_ioctl_queue (d_fd D) (queue_command (copy_nsid nsid len) priority (inout_vir input)
           (inout_fd input) (inout_size input) (inout_vir output) (inout_fd output) (inout_size output)
           (map (describe_inout translate_access_flag_internal) (take (unat num) buffer)))
    in t = s\<lparr>allocs := allocs t, trace := trace s @ [c]\<rparr> \<and> 0 \<le> sint (ans_ret (env_sys E (trace s) c))"
proof -
  define G where "G = \<lparr>g_count = 1, g_mutex = False, g_n_buffers = 0, g_capacity = 0, g_buffer = []\<rparr>"
  define s1 where "s1 = s\<lparr>allocs := Suc (allocs s)\<rparr>"
  define g where "g = new_ptr E s1"
  define s2 where "s2 = s\<lparr>allocs := Suc (Suc (allocs s)), groups := (groups s)(g \<mapsto> G)\<rparr>"
  have "\<not> len > XRP_NAMESPACE_ID_SIZE - Suc 0" using ns(2) by simp
  note def = sprd_vdsp_send_command_directly_def Let_def ns this if_False option.simps malloc_def
  have nz: "new_ptr E s \<noteq> 0" "g \<noteq> 0"
    using r st by (auto simp: def create_group_eq g_def s1_def split: if_splits)
  have f: "groups s g = None" using nz(2) new_ptr_fresh [of E s1] by (simp add: g_def fresh_def s1_def)
  have G: "group_ok G" "group_records G = []" "g_count G = 1" "unat (g_n_buffers G) = 0"
    by (simp_all add: G_def group_ok_def group_records_def)
  have gr: "xrp_create_buffer_group E s1 = (g, XRP_STATUS_SUCCESS, s2)"
    using nz(2) by (simp add: create_group_eq g_def s2_def G_def Let_def) (simp add: s1_def)
  have "unat num < 2 ^ 32" using unsigned_less [of num] by simp
  then obtain ok buf' u where w: "wrap_buffers E d g translate_access_flag_internal buffer (unat num) [] s2 = Some (ok, buf', u)"
    and ps: "ok \<Longrightarrow> \<exists>ps. buf' = [] @ map fst ps \<and> map snd ps = take (unat num) buffer \<and>
      wrapped_ion s2 g G translate_access_flag_internal ps u"
    using wrap_buffers_ion [of G s2 g "unat num" buffer d E translate_access_flag_internal "[]"] G n ion D
    by (auto simp: s2_def)
  have eq: "sprd_vdsp_send_command_directly E d nsid input output buffer num priority s =
     (if \<not> ok
      then do { s \<leftarrow> xrp_release_buffer_group E g u;
                s \<leftarrow> release_xrp_buffers E buf' (of_nat (length buf')) s;
                Some (SPRD_XRP_STATUS_FAILURE, s) }
      else do { (status, s) \<leftarrow> do {
                (status, s) \<leftarrow> xrp_run_command_directly E d (copy_nsid nsid len) priority
                   (inout_vir input) (inout_fd input) (ucast (inout_size input))
                   (inout_vir output) (inout_fd output) (ucast (inout_size output)) g u;
                s \<leftarrow> xrp_release_buffer_group E g s;
                s \<leftarrow> release_xrp_buffers E buf' num s;
                Some (status, s) };
                Some (if status \<noteq> XRP_STATUS_SUCCESS then SPRD_XRP_STATUS_FAILURE
                      else SPRD_XRP_STATUS_SUCCESS, s) })"
    using nz(1) by (simp add: def s1_def [symmetric] gr w bind_assoc case_prod_unfold)
  have ok
  proof (rule ccontr)
    assume "\<not> ok"
    then show False using r [unfolded eq] st by (auto simp: bind_eq_Some_conv)
  qed
  obtain ps where ps: "buf' = map fst ps" "map snd ps = take (unat num) buffer"
    "wrapped_ion s2 g G translate_access_flag_internal ps u" using ps [OF \<open>ok\<close>] by auto
  have num: "unat num = length ps" using ps(2) n by (metis length_map length_take min.absorb2)
  have uc: "ucast (ucast x :: 64 word) = (x :: u32)" for x by (simp add: ucast_up_ucast_id is_up)
  note td = take_down_ion [OF ps(3) nz(2) G(3,2) f s2_def num D(1), unfolded ps(2) [symmetric] ps(1) [symmetric],
    of E "copy_nsid nsid len" priority "inout_vir input" "inout_fd input" "ucast (inout_size input)"
    "inout_vir output" "inout_fd output" "ucast (inout_size output)", unfolded uc ps(2)]
  show ?thesis using r st \<open>ok\<close> unfolding eq td Let_def
    by (auto split: if_splits)
qed

section \<open>Descriptors of the buffers\<close>

text \<open>Every buffer in the store has a descriptor, so that wrapping it needs no memory of its
  own. A call that does not create device memory keeps this.\<close>

definition fds_ok :: "xrp_state \<Rightarrow> bool" where
  "fds_ok s \<longleftrightarrow> (\<forall>p B. buffers s p = Some B \<longrightarrow> b_ion_fd B \<noteq> - 1)"

definition tidy :: "xrp_state \<Rightarrow> xrp_state \<Rightarrow> bool" where
  "tidy s t \<longleftrightarrow> (fds_ok s \<longrightarrow> fds_ok t)"

lemma tidy_refl [simp]: "tidy s s"
  by (simp add: tidy_def)

lemma tidy_trans: "tidy s t \<Longrightarrow> tidy t u \<Longrightarrow> tidy s u"
  by (simp add: tidy_def)

lemma tidy_same: "buffers t = buffers s \<Longrightarrow> tidy s t"
  by (simp add: tidy_def fds_ok_def)

lemma tidy_put: "b_ion_fd B \<noteq> - 1 \<Longrightarrow> tidy s (put_buffer p B s)"
  by (simp add: tidy_def fds_ok_def put_buffer_def)

lemma tidy_upd: "buffers s p = Some B \<Longrightarrow> b_ion_fd B' = b_ion_fd B \<Longrightarrow> tidy s (put_buffer p B' s)"
  by (auto simp: tidy_def fds_ok_def put_buffer_def)

lemma tidy_free: "tidy s (free_buffer p s)"
  by (simp add: tidy_def fds_ok_def free_buffer_def)

lemma release_device_fuel_buffers:
  "buffers s = bf \<Longrightarrow> always (release_device_fuel n E p s) (\<lambda>t. buffers t = bf)"
proof (induction n arbitrary: p s)
  case (Suc n)
  have impl: "always (xrp_impl_release_device (release_device_fuel n E) E D u) (\<lambda>t. buffers t = bf)"
    if "buffers u = bf" for D u
    using Suc.IH [OF that] that by (cases "d_type D") (simp_all add: xrp_impl_release_device_def
        sprd_cavdsp_close_device_def sprd_vdsp_release_device_def sys_def Let_def)
  show ?case
    unfolding release_device_fuel.simps(2) Let_def last_release_refcounted_def prod.case
  proof (rule always_readI)
    fix D
    let ?s = "s\<lparr>devices := (devices s)(p \<mapsto> D\<lparr>d_count := d_count D - 1\<rparr>)\<rparr>"
    have "buffers ?s = bf" using Suc.prems by simp
    from impl [OF this, of "D\<lparr>d_count := d_count D - 1\<rparr>"] this
    show "always (if d_count D = 1
         then do { s \<leftarrow> xrp_impl_release_device (release_device_fuel n E) E (D\<lparr>d_count := d_count D - 1\<rparr>) ?s;
                   Some (s\<lparr>devices := (devices s)(p := None)\<rparr>) }
         else Some ?s) (\<lambda>t. buffers t = bf)"
      by (cases "d_count D = 1") simp_all
  qed
qed simp

lemma free_ionmem_buffers:
  assumes "buffers s = bf"
  shows "always (vdsp_free_ionmem E h s) (\<lambda>r. buffers (snd r) = bf)"
proof -
  have "buffers (VdspIon_dtor E ion s) = bf" for ion
    using same_but_trace_fields(2) [OF VdspIon_dtor_frame] assms by blast
  then show ?thesis using assms
    by (cases "ions s h") (simp_all add: vdsp_free_ionmem_def Let_def)
qed

lemma release_device_buffer_buffers:
  assumes "buffers s = bf"
  shows "always (xrp_impl_release_device_buffer E p s) (\<lambda>t. buffers t = bf)"
  unfolding xrp_impl_release_device_buffer_def xrp_release_device_def
  by (intro always_readI always_bindI [OF free_ionmem_buffers [OF assms]])
    (auto intro: release_device_fuel_buffers)

lemma release_buffer_tidy:
  assumes r: "tidy r s"
  shows "always (xrp_release_buffer E p s) (tidy r)"
  unfolding xrp_release_buffer_def last_release_refcounted_def prod.case Let_def
proof (rule always_readI)
  fix B
  assume B: "buffers s p = Some B"
  let ?s = "put_buffer p (B\<lparr>b_count := b_count B - 1\<rparr>) s"
  have t: "tidy r ?s" by (rule tidy_trans [OF r tidy_upd [OF B]]) simp
  then have f: "tidy r (free_buffer p u)" if "buffers u = buffers ?s" for u
    using tidy_same [OF that] tidy_free tidy_trans by metis
  have "always (do { s \<leftarrow> (if b_type B = XRP_BUFFER_TYPE_DEVICE
                    then xrp_impl_release_device_buffer E p ?s else Some ?s); Some (free_buffer p s) }) (tidy r)"
    by (rule always_bindI [where Q = "\<lambda>u. buffers u = buffers ?s"])
      (simp_all add: release_device_buffer_buffers f)
  then show "always (if b_count B = 1
      then do { s \<leftarrow> (if b_type B = XRP_BUFFER_TYPE_DEVICE
                    then xrp_impl_release_device_buffer E p ?s else Some ?s); Some (free_buffer p s) }
      else Some ?s) (tidy r)"
    using t by (cases "b_count B = 1") (simp_all del: always_simps(3))
qed

lemma release_each_tidy: "tidy r s \<Longrightarrow> always (release_each E bs s) (tidy r)"
  by (induction bs arbitrary: s) (auto simp del: always_simps(3) intro: always_bindI [OF release_buffer_tidy])

lemma release_members_tidy: "tidy r s \<Longrightarrow> always (release_members E G k i s) (tidy r)"
  by (induction k arbitrary: i s)
    (auto simp del: always_simps(3) intro!: always_readI [of "slot _ _"] intro: always_bindI [OF release_buffer_tidy])

lemma tidy_group [simp]: "tidy s (put_group g G t) = tidy s t" "tidy s (free_group g t) = tidy s t"
  by (simp_all add: tidy_def fds_ok_def put_group_def free_group_def)

lemma tidy_irrelevant [simp]: "tidy s (t\<lparr>allocs := k\<rparr>) = tidy s t" "tidy s (t\<lparr>trace := tr\<rparr>) = tidy s t"
  by (simp_all add: tidy_def fds_ok_def)

lemma release_group_tidy:
  assumes "tidy r s"
  shows "always (xrp_release_buffer_group E g s) (tidy r)"
  unfolding xrp_release_buffer_group_def last_release_refcounted_def prod.case Let_def
proof (rule always_readI)
  fix G
  show "always (if g_count G = 1
      then do { m \<leftarrow> xrp_mutex_lock (g_mutex (G\<lparr>g_count := g_count G - 1\<rparr>));
                s \<leftarrow> release_members E (G\<lparr>g_count := g_count G - 1, g_mutex := m\<rparr>)
                   (unat (g_n_buffers (G\<lparr>g_count := g_count G - 1, g_mutex := m\<rparr>))) 0
                   (put_group g (G\<lparr>g_count := g_count G - 1, g_mutex := m\<rparr>) s);
                G \<leftarrow> groups s g; m \<leftarrow> xrp_mutex_unlock (g_mutex G); Some (free_group g s) }
      else Some (put_group g (G\<lparr>g_count := g_count G - 1\<rparr>) s)) (tidy r)"
  proof (cases "g_count G = 1")
    case True
    show ?thesis unfolding if_P [OF True]
      by (intro always_readI [of "xrp_mutex_lock _"] always_bindI [OF release_members_tidy]
          always_readI [of "groups _ _"] always_readI [of "xrp_mutex_unlock _"]) (use assms in simp_all)
  qed (use assms in simp)
qed

lemma retain_buffer_tidy:
  assumes "tidy r s"
  shows "always (xrp_retain_buffer b s) (tidy r)"
  unfolding xrp_retain_buffer_def
  by (rule always_readI) (auto intro: tidy_trans [OF assms tidy_upd])

lemma add_buffer_tidy:
  assumes r: "tidy r s"
  shows "always (xrp_add_buffer_to_group E g b fl s) (\<lambda>x. tidy r (snd (snd x)))"
proof -
  have u: "always (do { m \<leftarrow> xrp_mutex_unlock m; Some (n, st, put_group g (F m) t) })
      (\<lambda>x. tidy r (snd (snd x)))" if "tidy r t" for m n st F t
    using that by (auto simp del: always_simps(3) intro: always_readI)
  have w: "always (do { t \<leftarrow> xrp_retain_buffer b t; m \<leftarrow> xrp_mutex_unlock m; Some (n, st, put_group g (F m) t) })
      (\<lambda>x. tidy r (snd (snd x)))" if "tidy r t" for m n st F t
    by (rule always_bindI [OF retain_buffer_tidy [OF that]]) (rule u)
  have a: "tidy r (s\<lparr>allocs := Suc (allocs s)\<rparr>)" using r by simp
  have z: "always (Option.bind m (\<lambda>_. None)) P" for m :: "'a option" and P :: "'b \<Rightarrow> bool"
    by (simp add: always_def)
  show ?thesis
    unfolding xrp_add_buffer_to_group_def Let_def malloc_def prod.case
    by (intro always_readI [of "groups _ _"] always_readI [of "xrp_mutex_lock _"])
      (auto simp del: always_simps(3) split: prod.splits intro!: u w z a r)
qed

lemma create_host_tidy:
  assumes "tidy r s" and "fd \<noteq> - 1"
  shows "always (xrp_create_buffer E d sz hp fd s) (\<lambda>x. tidy r (snd (snd x)))"
proof (cases "hp = 0 \<and> d = 0")
  case True
  then show ?thesis using assms by (simp add: xrp_create_buffer_def)
next
  case False
  have "tidy r (put_buffer b (new_host_buffer sz hp fd) (s\<lparr>allocs := k\<rparr>))" for b k
    by (rule tidy_trans [OF _ tidy_put]) (use assms in \<open>simp_all add: new_host_buffer_def\<close>)
  then show ?thesis using assms False by (simp add: create_host_buffer_eq Let_def)
qed

lemma wrap_buffers_tidy:
  "tidy r s \<Longrightarrow> \<not> needs_memory buffer k \<Longrightarrow>
   always (wrap_buffers E d g acc buffer k buf s) (\<lambda>x. tidy r (snd (snd x)))"
proof (induction k arbitrary: buffer buf s)
  case (Suc k)
  show ?case
  proof (cases buffer)
    case (Cons io rest)
    have io: "io_fd io \<noteq> - 1" "\<not> needs_memory rest k"
      using Suc.prems(2) by (auto simp: needs_memory_def Cons)
    show ?thesis
      unfolding Cons wrap_buffers.simps(2) list.case
    proof (rule always_bindI [OF create_host_tidy [OF Suc.prems(1) io(1)]])
      fix x :: "ptr \<times> xrp_status \<times> xrp_state"
      assume t: "tidy r (snd (snd x))"
      obtain b st u where x: "x = (b, st, u)" by (cases x)
      have tu: "tidy r u" using t by (simp add: x)
      have "always (do { (_, status, s) \<leftarrow> xrp_add_buffer_to_group E g b (acc (io_flag io)) u;
          if status \<noteq> XRP_STATUS_SUCCESS then Some (False, buf, s)
          else wrap_buffers E d g acc rest k (buf @ [b]) s }) (\<lambda>x. tidy r (snd (snd x)))"
      proof (rule always_bindI [OF add_buffer_tidy [OF tu]])
        fix y :: "size_t \<times> xrp_status \<times> xrp_state"
        assume ty: "tidy r (snd (snd y))"
        obtain n st u where y: "y = (n, st, u)" by (cases y)
        have "tidy r u" using ty by (simp add: y)
        with Suc.IH [OF this io(2)]
        show "always (case y of (_, status, s) \<Rightarrow> if status \<noteq> XRP_STATUS_SUCCESS then Some (False, buf, s)
            else wrap_buffers E d g acc rest k (buf @ [b]) s) (\<lambda>x. tidy r (snd (snd x)))"
          by (simp add: y)
      qed
      then show "always (case x of (b, status, s) \<Rightarrow> if status \<noteq> XRP_STATUS_SUCCESS then Some (False, buf, s)
          else do { (_, status, s) \<leftarrow> xrp_add_buffer_to_group E g b (acc (io_flag io)) s;
                    if status \<noteq> XRP_STATUS_SUCCESS then Some (False, buf, s)
                    else wrap_buffers E d g acc rest k (buf @ [b]) s }) (\<lambda>x. tidy r (snd (snd x)))"
        using tu by (simp add: x del: always_simps(3))
    qed
  qed simp
qed simp

lemma run_directly_tidy:
  assumes "tidy r s"
  shows "always (xrp_run_command_directly E d nsid p a b c e f h g s) (\<lambda>x. tidy r (snd x))"
  using assms
  by (auto simp: xrp_run_command_directly_def sys_def Let_def intro!: always_read)

lemma send_directly_tidy:
  assumes r: "tidy r s" and m: "\<not> needs_memory buffer (unat num)"
  shows "always (sprd_vdsp_send_command_directly E d nsid input output buffer num priority s)
    (\<lambda>x. tidy r (snd x))"
proof -
  have down: "always (do { s \<leftarrow> xrp_release_buffer_group E g t; s \<leftarrow> release_xrp_buffers E bs n s; Some (st, s) })
      (\<lambda>x. tidy r (snd x))" if "tidy r t" for g t bs n and st :: sprd_vdsp_status
    by (rule always_bindI [OF release_group_tidy [OF that]], rule always_bindI [where Q = "tidy r"])
      (simp_all add: release_xrp_buffers_def release_each_tidy)
  have grp: "always (do {
       (wrapped, buf, s) \<leftarrow> wrap_buffers E d g translate_access_flag_internal buffer (unat num) [] t;
       if \<not> wrapped
       then do { s \<leftarrow> xrp_release_buffer_group E g s;
                 s \<leftarrow> release_xrp_buffers E buf (of_nat (length buf)) s; Some (SPRD_XRP_STATUS_FAILURE, s) }
       else do { (status, s) \<leftarrow> xrp_run_command_directly E d ns p a b c e f h g s;
                 s \<leftarrow> xrp_release_buffer_group E g s; s \<leftarrow> release_xrp_buffers E buf num s;
                 Some (if status \<noteq> XRP_STATUS_SUCCESS then SPRD_XRP_STATUS_FAILURE
                       else SPRD_XRP_STATUS_SUCCESS, s) } }) (\<lambda>x. tidy r (snd x))"
    if "tidy r t" for g t ns p a b c e f h
    by (rule always_bindI [OF wrap_buffers_tidy [OF that m]])
      (auto simp del: always_simps(3) split: prod.splits
        intro!: down always_bindI [OF run_directly_tidy])
  have cg: "tidy r (snd (snd (xrp_create_buffer_group E s)))" if "tidy r s" for s
    using that by (simp add: create_group_eq Let_def tidy_def fds_ok_def)
  have fid: "always (xrp_run_faceid_command_directly E d a b s) (\<lambda>x. tidy r (snd x))" for a b
    using r by (auto simp: xrp_run_faceid_command_directly_def sys_def Let_def intro!: always_read)
  show ?thesis
    unfolding sprd_vdsp_send_command_directly_def
  proof (rule always_readI)
    fix len
    show "always (if len > XRP_NAMESPACE_ID_SIZE - 1 then Some (SPRD_XRP_STATUS_FAILURE, s)
      else (let ns_id = copy_nsid nsid len in if take 9 ns_id = FACEID_NSID
        then (if inout_vir input \<noteq> 0
              then do { (status, s) \<leftarrow> xrp_run_faceid_command_directly E d (inout_fd input) (inout_fd output) s;
                        Some (if status \<noteq> XRP_STATUS_SUCCESS then SPRD_XRP_STATUS_FAILURE
                              else SPRD_XRP_STATUS_SUCCESS, s) }
              else Some (SPRD_XRP_STATUS_FAILURE, s))
        else (let (buf, s) = malloc E s in if buf = 0 then Some (SPRD_XRP_STATUS_FAILURE, s)
          else (let (grp, status, s) = xrp_create_buffer_group E s
             in if status \<noteq> XRP_STATUS_SUCCESS then Some (SPRD_XRP_STATUS_FAILURE, s)
                else do {
                  (wrapped, buf, s) \<leftarrow> wrap_buffers E d grp translate_access_flag_internal buffer (unat num) [] s;
                  if \<not> wrapped
                  then do { s \<leftarrow> xrp_release_buffer_group E grp s;
                            s \<leftarrow> release_xrp_buffers E buf (of_nat (length buf)) s;
                            Some (SPRD_XRP_STATUS_FAILURE, s) }
                  else do {
                    (status, s) \<leftarrow> xrp_run_command_directly E d ns_id priority
                       (inout_vir input) (inout_fd input) (ucast (inout_size input))
                       (inout_vir output) (inout_fd output) (ucast (inout_size output)) grp s;
                    s \<leftarrow> xrp_release_buffer_group E grp s;
                    s \<leftarrow> release_xrp_buffers E buf num s;
                    Some (if status \<noteq> XRP_STATUS_SUCCESS then SPRD_XRP_STATUS_FAILURE
                          else SPRD_XRP_STATUS_SUCCESS, s) } })))) (\<lambda>x. tidy r (snd x))"
      using r cg [of "s\<lparr>allocs := Suc (allocs s)\<rparr>"]
      by (auto simp: Let_def malloc_def simp del: always_simps(3) split: prod.splits
          intro!: always_bindI [OF fid] grp)
  qed
qed

end
