(* ===== verification/Xrp_Sample.thy ===== *)
theory Xrp_Sample
  imports Xrp_Refs Vdsp_Sample
begin

text \<open>
  A store with an object of every kind, for the witnesses: a device on descriptor 3, a queue on
  it with two waiting requests, the second of which has an event and a group with one buffer.
  The client holds a reference to each of the five objects; the library holds the others.
\<close>

definition sample_device :: xrp_device where
  "sample_device = \<lparr>d_count = 2, d_fd = 3, d_generation = 0, d_type = XRP_DEVICE_NEWMODE\<rparr>"

definition sample_buffer :: xrp_buffer where
  "sample_buffer = \<lparr>b_count = 2, b_device = 0, b_type = XRP_BUFFER_TYPE_HOST, b_ptr = 0x70000,
     b_apptr = 0, b_size = 64, b_map_count = 0, b_map_flags = 0, b_ion_fd = 5, b_ionhandle = 0\<rparr>"

definition sample_group :: xrp_buffer_group where
  "sample_group = \<lparr>g_count = 2, g_mutex = False, g_n_buffers = 1, g_capacity = 2,
     g_buffer = [Some \<lparr>gr_buffer = 0x7000, gr_access_flags = XRP_READ\<rparr>, None]\<rparr>"

definition sample_queue :: xrp_queue where
  "sample_queue = \<lparr>q_count = 2, q_device = 0x1000, q_use_nsid = True, q_priority = 0,
     q_nsid = [110, 115, 0],
     q_impl = \<lparr>rq_thread = True, rq_cond = False,
       rq_request_queue = \<lparr>rl_head = 0x3000, rl_tail = 0x4000\<rparr>, rq_exit = False\<rparr>\<rparr>"

definition sample_event :: xrp_event where
  "sample_event = \<lparr>e_count = 2, e_queue = 0x2000, e_status = XRP_STATUS_PENDING, e_cond = False\<rparr>"

definition sample_request :: "ptr \<Rightarrow> ptr \<Rightarrow> xrp_request" where
  "sample_request g v = \<lparr>r_in_data = 0, r_out_data = 0, r_in_data_fd = - 1, r_out_data_fd = - 1,
     r_in_data_size = 0, r_out_data_size = 0, r_buffer_group = g, r_event = v\<rparr>"

definition sample_state :: xrp_state where
  "sample_state = init_state\<lparr>devices := [0x1000 \<mapsto> sample_device], buffers := [0x7000 \<mapsto> sample_buffer],
     groups := [0x6000 \<mapsto> sample_group], queues := [0x2000 \<mapsto> sample_queue],
     events := [0x5000 \<mapsto> sample_event],
     requests := [0x3000 \<mapsto> sample_request 0 0, 0x4000 \<mapsto> sample_request 0x6000 0x5000],
     next_item := (\<lambda>_. 0)(0x3000 := 0x4000), allocs := 8\<rparr>"

definition sample_lists :: "ptr \<Rightarrow> ptr list" where
  "sample_lists q = (if q = 0x2000 then [0x3000, 0x4000] else [])"

definition sample_refs :: refs where
  "sample_refs ob = of_bool (ob \<in> {Dev 0x1000, Buf 0x7000, Grp 0x6000, Que 0x2000, Evt 0x5000})"

lemmas sample_objects = sample_device_def sample_buffer_def sample_group_def sample_queue_def
  sample_event_def sample_request_def

lemma sample_state_simps [simp]:
  "devices sample_state = [0x1000 \<mapsto> sample_device]" "buffers sample_state = [0x7000 \<mapsto> sample_buffer]"
  "groups sample_state = [0x6000 \<mapsto> sample_group]" "queues sample_state = [0x2000 \<mapsto> sample_queue]"
  "events sample_state = [0x5000 \<mapsto> sample_event]"
  "requests sample_state = [0x3000 \<mapsto> sample_request 0 0, 0x4000 \<mapsto> sample_request 0x6000 0x5000]"
  "next_item sample_state = (\<lambda>_. 0)(0x3000 := 0x4000)" "allocs sample_state = 8"
  "blocks sample_state = Map.empty" "ions sample_state = Map.empty" "trace sample_state = []"
  by (simp_all add: sample_state_def init_state_def)

lemma sample_pend: "pend sample_lists sample_state = {0x3000, 0x4000}"
  by (simp add: pend_def sample_lists_def)

lemma sample_inv: "inv sample_refs sample_lists sample_state"
proof -
  have "store_ok sample_lists sample_state"
    unfolding store_ok_def
    by (intro conjI)
      (auto simp: maps_ok_def counts_ok_def devices_ok_def buffers_ok_def groups_ok_def group_ok_def
        queues_ok_def events_ok_def requests_ok_def sample_lists_def sample_objects rlist_def less_Suc_eq
        sample_pend split: if_splits)
  moreover have "cnt sample_state ob = sample_refs ob + irefs {0x3000, 0x4000} sample_state ob" for ob
    by (cases ob) (auto simp: sample_refs_def msum_new restrict_map_insert ref_defs group_buf_def group_bufs_def
        group_records_def map_refs_def sample_objects)
  ultimately show ?thesis by (simp add: inv_def refs_ok_def sample_pend)
qed

end
