(* ===== verification/Xrp_Object_Props.thy ===== *)
theory Xrp_Object_Props
  imports Vdsp_Direct Xrp_Sample
begin

text \<open>
  The properties of devices, buffers and buffer groups, and of commands that are sent without a
  queue. The witnesses apply them in the sample store.
\<close>

lemma sample_cnt:
  "cnt sample_state (Dev 0x1000) = 2" "cnt sample_state (Buf 0x7000) = 2" "cnt sample_state (Grp 0x6000) = 2"
  "cnt sample_state (Que 0x2000) = 2" "cnt sample_state (Evt 0x5000) = 2"
  by (simp_all add: sample_objects)

lemma sample_owned:
  "sample_refs (Dev 0x1000) = 1" "sample_refs (Buf 0x7000) = 1" "sample_refs (Grp 0x6000) = 1"
  "sample_refs (Que 0x2000) = 1" "sample_refs (Evt 0x5000) = 1"
  by (simp_all add: sample_refs_def)

section \<open>Devices\<close>

text \<open>Property C21: opening a device and releasing it again is a round trip: the devices are what they
  were, and the kernel saw one open of the device file with the flags of the mode and one close
  of the descriptor that the open returned.\<close>

theorem open_release_device:
  assumes "inv X L s" and "xrp_open_device_newmode E idx type s = (d, XRP_STATUS_SUCCESS, s')"
  shows "\<exists>t. xrp_release_device E d s' = Some t \<and> inv X L t \<and> devices t = devices s \<and>
    trace t = trace s @ [Sys_open (dev_name idx) (open_flags type),
      Sys_close (ans_ret (env_sys E (trace s) (Sys_open (dev_name idx) (open_flags type))))]"
  using assms(2)
proof (cases rule: open_newmode_cases)
  case (opened fd n tr)
  have d0: "devices s 0 = None" using invD(1) [OF assms(1)] by (simp add: maps_ok_def)
  have r: "xrp_release_device E d s' = Some (s'\<lparr>devices := (devices s')(d := None), trace := trace s' @ [Sys_close fd]\<rparr>)"
    using opened by (simp add: xrp_release_device_def numeral_2_eq_2 release_newmode release_map_def release_calls_def
        del: release_device_fuel.simps)
  have "s'\<lparr>devices := (devices s')(d := None), trace := trace s' @ [Sys_close fd]\<rparr>
      = s\<lparr>allocs := n, trace := tr @ [Sys_close fd]\<rparr>"
    using opened by (cases s) (simp add: fresh_def fun_upd_idem)
  then show ?thesis using assms(1) opened r by (simp add: fun_upd_idem fresh_def)
qed simp

theorem open_release_device_witness:
  "\<exists>d s' t. xrp_open_device_newmode sample_env 0 XRP_OPEN_FACEID_TYPE init_state = (d, XRP_STATUS_SUCCESS, s') \<and>
    xrp_release_device sample_env d s' = Some t \<and> devices t = devices init_state"
proof -
  have "fst (snd (xrp_open_device_newmode sample_env 0 XRP_OPEN_FACEID_TYPE init_state)) = XRP_STATUS_SUCCESS"
    by (simp add: xrp_open_device_newmode_def sys_def sample_answer granted_def alloc_refcounted_eq new_ptr_def fresh_def init_state_def)
  then obtain d s' where o: "xrp_open_device_newmode sample_env 0 XRP_OPEN_FACEID_TYPE init_state = (d, XRP_STATUS_SUCCESS, s')"
    by (metis prod.collapse)
  show ?thesis using o open_release_device [OF inv_init [of "\<lambda>_. []"] o] by auto
qed



text \<open>Property C20: a device of \<open>xrp_open_device\<close> wraps one that \<open>sprd_cavdsp_open_device\<close> opened. Opening always
  returns; on success the client owns the new device. When only the second allocation fails, the
  call fails but the device it opened stays in the store with its descriptor open.\<close>

theorem open_device:
  assumes "inv X L s"
  shows "returns (xrp_open_device E idx type s) (\<lambda>(d, st, s').
    if st = XRP_STATUS_SUCCESS then d \<noteq> 0 \<and> X (Dev d) = 0 \<and> inv (X(Dev d := 1)) L s'
    else d = 0 \<and> (inv X L s' \<or> (\<exists>k. fresh s k \<and> inv (X(Dev k := 1)) L s')))"
  using open_device_inv [OF assms, of E idx type] by (auto elim!: returns_mono)

theorem open_device_witness:
  "\<exists>d t. xrp_open_device sample_env 0 XRP_OPEN_NORMAL_TYPE init_state = Some (d, XRP_STATUS_SUCCESS, t) \<and>
    inv ((\<lambda>_. 0)(Dev d := 1)) (\<lambda>_. []) t"
proof -
  have "map_option (fst \<circ> snd) (xrp_open_device sample_env 0 XRP_OPEN_NORMAL_TYPE init_state) = Some XRP_STATUS_SUCCESS"
    by (simp add: xrp_open_device_def sprd_cavdsp_open_device_def sprd_vdsp_open_device_def xrp_open_device_newmode_def
        sys_def sample_answer granted_def alloc_refcounted_eq new_ptr_def fresh_def init_state_def translate_opentype_def Let_def)
  then show ?thesis using open_device [OF inv_init [of "\<lambda>_. []"], of sample_env 0 XRP_OPEN_NORMAL_TYPE]
    by (auto elim!: returnsE)
qed

text \<open>The name of the device file, with its terminator, fits the buffer it is printed to, for
  every index.\<close>

theorem dev_name_fits: "length (dev_name idx) + 1 \<le> 10 + 4 * 4"
  by (rule dev_name_length)

section \<open>Buffers\<close>

text \<open>Property C24: mapping a part of a live buffer returns the address of the part exactly when the part lies
  inside the buffer, also for offsets and sizes whose sum wraps around; any other part is refused
  and nothing changes.\<close>

theorem map_buffer_bounds:
  assumes "inv X L s" and "buffers s p = Some B" and "unat (b_count B) + 1 < 2 ^ 64"
  shows "\<exists>q st t. xrp_map_buffer p off sz fl s = Some (q, st, t) \<and> inv X L t \<and>
    (if unat off + unat sz \<le> unat (b_size B)
     then st = XRP_STATUS_SUCCESS \<and> q = b_ptr B + off else st = XRP_STATUS_FAILURE \<and> q = 0 \<and> t = s)"
proof -
  have "b_count B \<noteq> 0" using invD(2) [OF assms(1)] assms(2) by (auto simp: counts_ok_def)
  then have c: "0 < cnt s (Buf p)" "cnt s (Buf p) + 1 < 2 ^ 64" using assms by (simp_all add: unat_gt_0)
  show ?thesis using map_buffer_inv [OF assms(1) c, of off sz fl] assms(2) by (auto elim!: returnsE split: if_splits)
qed

theorem map_buffer_bounds_witness:
  "(\<exists>q t. xrp_map_buffer 0x7000 16 48 XRP_READ sample_state = Some (q, XRP_STATUS_SUCCESS, t) \<and> q = 0x70010) \<and>
   xrp_map_buffer 0x7000 16 (- 8) XRP_READ sample_state = Some (0, XRP_STATUS_FAILURE, sample_state)"
  using map_buffer_bounds [OF sample_inv, of "0x7000" sample_buffer 16 48 XRP_READ]
    map_buffer_bounds [OF sample_inv, of "0x7000" sample_buffer 16 "- 8" XRP_READ]
  by (auto simp: sample_buffer_def)

text \<open>Property C25: mapping and unmapping balance. After a mapping of a buffer, unmapping the address it
  returned succeeds and leaves every buffer as it was before.\<close>

theorem map_unmap_buffer:
  assumes "inv X L s" and "buffers s p = Some B" and "unat (b_count B) + 1 < 2 ^ 64"
    and "xrp_map_buffer p off sz fl s = Some (q, XRP_STATUS_SUCCESS, t)" and "unat (b_ptr B) + unat (b_size B) < 2 ^ 64"
  shows "\<exists>u. xrp_unmap_buffer E p q t = Some (XRP_STATUS_SUCCESS, u) \<and> inv X L u \<and>
    (\<exists>B'. buffers u = (buffers s)(p \<mapsto> B') \<and> b_count B' = b_count B \<and> b_map_count B' = b_map_count B)"
proof -
  let ?B1 = "B\<lparr>b_count := retain_refcounted (b_count B), b_map_count := b_map_count B + 1, b_map_flags := b_map_flags B OR fl\<rparr>"
  have c0: "b_count B \<noteq> 0" using invD(2) [OF assms(1)] assms(2) by (auto simp: counts_ok_def)
  then have c: "0 < cnt s (Buf p)" "cnt s (Buf p) + 1 < 2 ^ 64" using assms(2,3) by (simp_all add: unat_gt_0)
  have t: "q = b_ptr B + off" "off \<le> b_size B" "t = put_buffer p ?B1 s"
    using assms(2,4) by (auto simp: xrp_map_buffer_def split: if_splits)
  have it: "inv X L t" using map_buffer_inv [OF assms(1) c, of off sz fl] assms(4) by simp
  have "unat (b_ptr B) + unat off < 2 ^ 64" using t(2) assms(5) by (simp add: word_le_nat_alt)
  then have q: "b_ptr B \<le> q" by (simp add: t(1) word_le_nat_alt unat_word_ariths)
  have r: "retain_refcounted (b_count B) \<noteq> 1" using c0 by (simp add: retain_refcounted_def)
  let ?B2 = "?B1\<lparr>b_count := b_count B, b_map_count := b_map_count B\<rparr>"
  have B1: "buffers t p = Some ?B1" by (simp add: t(3) put_buffer_def)
  have eq: "xrp_unmap_buffer E p q t = Some (XRP_STATUS_SUCCESS, put_buffer p ?B2 s)"
    using q t(2) r by (simp add: xrp_unmap_buffer_def B1 t(1) xrp_release_buffer_def put_buffer_def
        last_release_refcounted_def) (simp add: t(3) put_buffer_def retain_refcounted_def)
  have "b_map_count ?B1 \<noteq> 0"
  proof -
    have "unat (b_map_count B) \<le> unat (b_count B)"
      using refs_okD [OF invD(9) [OF assms(1)], of "Buf p"] assms(2) by (simp add: map_refs_def)
    then have "unat (b_map_count B + 1) = unat (b_map_count B) + 1" using assms(3) by (intro unat_inc) simp
    then show ?thesis by auto
  qed
  from unmap_buffer_inv [OF it B1 this, of E q] eq have "inv X L (put_buffer p ?B2 s)" by simp
  then show ?thesis using eq by (auto simp: put_buffer_def)
qed

theorem map_unmap_buffer_witness:
  "\<exists>t u. xrp_map_buffer 0x7000 16 48 XRP_READ sample_state = Some (0x70010, XRP_STATUS_SUCCESS, t) \<and>
    xrp_unmap_buffer sample_env 0x7000 0x70010 t = Some (XRP_STATUS_SUCCESS, u) \<and> inv sample_refs sample_lists u"
proof -
  have b: "buffers sample_state 0x7000 = Some sample_buffer" by simp
  obtain t where t: "xrp_map_buffer 0x7000 16 48 XRP_READ sample_state = Some (0x70010, XRP_STATUS_SUCCESS, t)"
    by (simp add: xrp_map_buffer_def sample_buffer_def)
  show ?thesis using t map_unmap_buffer [OF sample_inv b _ t, of sample_env] by (auto simp: sample_buffer_def)
qed



section \<open>Buffer groups\<close>

text \<open>Property C26: a group is a list of records. Adding a live buffer either fails without a trace in the
  group or appends one record, returns its index and takes a reference to the buffer for the
  group; growing the array loses no record.\<close>

theorem add_buffer_to_group:
  assumes "inv X L s" and "groups s g = Some G" and "0 < cnt s (Buf b)" and "cnt s (Buf b) + 1 < 2 ^ 64"
    and "length (group_records G) < 2 ^ 58"
  shows "\<exists>n st t G'. xrp_add_buffer_to_group E g b fl s = Some (n, st, t) \<and> inv X L t \<and>
    groups t = (groups s)(g \<mapsto> G') \<and>
    (if st = XRP_STATUS_SUCCESS
     then unat n = length (group_records G) \<and>
       group_records G' = group_records G @ [\<lparr>gr_buffer = b, gr_access_flags = fl\<rparr>]
     else n = - 1 \<and> G' = G)"
proof -
  have "group_ok G" using live_group_ok [OF assms(1,2)] by blast
  then have "unat (g_n_buffers G) < 2 ^ 58" using assms(5) by (simp add: group_records_length)
  from add_buffer_inv [OF assms(1-4) this, of E fl] show ?thesis
    by (auto elim!: returnsE split: if_splits)
qed

lemma sample_records: "group_records sample_group = [\<lparr>gr_buffer = 0x7000, gr_access_flags = XRP_READ\<rparr>]"
  by (simp add: group_records_def sample_group_def)

theorem add_buffer_to_group_witness:
  "\<exists>n st t G'. xrp_add_buffer_to_group sample_env 0x6000 0x7000 XRP_WRITE sample_state = Some (n, st, t) \<and>
    groups t 0x6000 = Some G' \<and> (st = XRP_STATUS_SUCCESS \<longrightarrow> unat n = 1 \<and> length (group_records G') = 2)"
  using add_buffer_to_group [OF sample_inv, of "0x6000" sample_group "0x7000" sample_env XRP_WRITE]
  by (auto simp: sample_records sample_cnt simp del: cnt.simps)

text \<open>Setting the buffer at an index in use replaces that record alone and moves the group's
  reference from the old buffer to the new one; an index beyond the end is refused and the
  groups stay as they were.\<close>

theorem set_buffer_in_group:
  assumes "inv X L s" and "groups s g = Some G" and "0 < cnt s (Buf b)" and "cnt s (Buf b) + 1 < 2 ^ 64"
  shows "\<exists>st t. xrp_set_buffer_in_group E g idx b fl s = Some (st, t) \<and> inv X L t \<and>
    (if unat idx < length (group_records G)
     then st = XRP_STATUS_SUCCESS \<and> (\<exists>G'. groups t = (groups s)(g \<mapsto> G') \<and>
       group_records G' = (group_records G)[unat idx := \<lparr>gr_buffer = b, gr_access_flags = fl\<rparr>])
     else st = XRP_STATUS_FAILURE \<and> groups t = groups s)"
proof -
  have "group_ok G" using live_group_ok [OF assms(1,2)] by blast
  then have "idx < g_n_buffers G \<longleftrightarrow> unat idx < length (group_records G)"
    by (simp add: group_records_length word_less_nat_alt)
  then show ?thesis using set_buffer_inv [OF assms, of E idx fl] by (auto elim!: returnsE split: if_splits)
qed

theorem set_buffer_in_group_witness:
  "(\<exists>t G'. xrp_set_buffer_in_group sample_env 0x6000 0 0x7000 XRP_WRITE sample_state = Some (XRP_STATUS_SUCCESS, t) \<and>
      groups t 0x6000 = Some G' \<and> group_records G' = [\<lparr>gr_buffer = 0x7000, gr_access_flags = XRP_WRITE\<rparr>]) \<and>
   (\<exists>t. xrp_set_buffer_in_group sample_env 0x6000 1 0x7000 XRP_WRITE sample_state = Some (XRP_STATUS_FAILURE, t))"
  using set_buffer_in_group [OF sample_inv, of "0x6000" sample_group "0x7000" sample_env 0 XRP_WRITE]
    set_buffer_in_group [OF sample_inv, of "0x6000" sample_group "0x7000" sample_env 1 XRP_WRITE]
  by (auto simp: sample_records sample_cnt simp del: cnt.simps)

text \<open>Reading the buffer at an index in use gives the caller a reference of its own to exactly the
  buffer that stands there; an index beyond the end is refused and nothing changes.\<close>

theorem get_buffer_from_group:
  assumes "inv X L s" and "groups s g = Some G"
    and "unat idx < length (group_records G) \<Longrightarrow> cnt s (Buf (gr_buffer (group_records G ! unat idx))) + 1 < 2 ^ 64"
  shows "\<exists>b st t. xrp_get_buffer_from_group g idx s = Some (b, st, t) \<and>
    (if unat idx < length (group_records G)
     then st = XRP_STATUS_SUCCESS \<and> b = gr_buffer (group_records G ! unat idx) \<and>
       inv (X(Buf b := X (Buf b) + 1)) L t \<and> groups t = groups s
     else st = XRP_STATUS_FAILURE \<and> b = 0 \<and> t = s)"
proof -
  have "group_ok G" using live_group_ok [OF assms(1,2)] by blast
  then have l: "idx < g_n_buffers G \<longleftrightarrow> unat idx < length (group_records G)"
    by (simp add: group_records_length word_less_nat_alt)
  show ?thesis using get_buffer_inv [OF assms(1,2), of idx] assms(3) l by (auto elim!: returnsE split: if_splits)
qed

theorem get_buffer_from_group_witness:
  "\<exists>t. xrp_get_buffer_from_group 0x6000 0 sample_state = Some (0x7000, XRP_STATUS_SUCCESS, t) \<and>
    inv (sample_refs(Buf 0x7000 := 2)) sample_lists t"
  using get_buffer_from_group [OF sample_inv, of "0x6000" sample_group 0]
  by (auto simp: sample_records sample_cnt sample_owned numeral_2_eq_2 [symmetric] simp del: cnt.simps)

section \<open>Commands without a queue\<close>


definition sample_io :: sprd_vdsp_inout where
  "sample_io = \<lparr>io_fd = 5, io_vir_addr = 0x70000, io_phy_addr = 0, io_size = 64, io_flag = SPRD_VDSP_XRP_READ_WRITE\<rparr>"




section \<open>Translations\<close>

text \<open>A device pointer split into the two 32-bit members of a handle joins to the same pointer, and
  every handle is the split of the pointer it joins to.\<close>

theorem handle_roundtrip: "join_handle (split_handle p) = p \<and> split_handle (join_handle h) = h"
  by (simp add: join_split split_join)

text \<open>The access flags of a buffer survive the way through the client's flags and back; any value
  that is not one of the three flags becomes a read flag.\<close>

theorem access_flags_roundtrip:
  "translate_access_flag_internal (translate_access_flag fl) =
     (if fl \<in> {XRP_READ, XRP_WRITE, XRP_READ_WRITE} then fl else XRP_READ)"
  using translate_flags [of fl] by auto

end
