(* ===== verification/Xrp_Queue.thy ===== *)
theory Xrp_Queue
  imports Vdsp_Direct
begin

text \<open>
  Queues, events and requests: \<open>xrp_enqueue_command\<close> copies the input, makes an event and
  pushes a request; the worker thread of the queue (\<open>xrp_queue_thread\<close>) takes requests one at a
  time, runs them on the device, completes their events and frees them; \<open>xrp_wait\<close> waits for
  an event.

  The theory runs one thread at a time: the worker of a queue runs when another thread blocks
  on it, in \<open>xrp_wait\<close> or in the join of \<open>xrp_queue_destroy\<close>. (Arbitrary interleavings of the
  queue protocol are the subject of Xrp_Threads.) A wait nobody can end is \<^const>\<open>None\<close>.
  \<open>n\<close> bounds the number of requests a worker runs; one more than the number of waiting
  requests is always enough.
\<close>

section \<open>Creating a queue\<close>

definition put_queue :: "ptr \<Rightarrow> xrp_queue \<Rightarrow> xrp_state \<Rightarrow> xrp_state" where
  "put_queue q Q s = s\<lparr>queues := (queues s)(q \<mapsto> Q)\<rparr>"

definition put_event :: "ptr \<Rightarrow> xrp_event \<Rightarrow> xrp_state \<Rightarrow> xrp_state" where
  "put_event v V s = s\<lparr>events := (events s)(v \<mapsto> V)\<rparr>"

text \<open>\<open>str_len\<close> counts the terminator, up to \<open>max_len\<close>; the scan starts at index \<open>i\<close>.\<close>

fun str_len :: "byte list \<Rightarrow> nat \<Rightarrow> nat \<Rightarrow> nat option" where
  "str_len [] max_len i = None"
| "str_len (c # str) max_len i =
     (if c = 0 then Some (i + 1)
      else if i + 1 \<ge> max_len then Some max_len else str_len str max_len (i + 1))"

definition xrp_queue_init :: "env \<Rightarrow> ptr \<Rightarrow> xrp_state \<Rightarrow> xrp_request_queue \<times> xrp_state" where
  "xrp_queue_init E queue s =
     (let (r, s) = sys E (Sys_thread_create queue) s
      in (\<lparr>rq_thread = (ans_ret r = 0), rq_cond = False,
           rq_request_queue = \<lparr>rl_head = 0, rl_tail = 0\<rparr>, rq_exit = False\<rparr>, s))"

definition xrp_impl_create_queue :: "env \<Rightarrow> ptr \<Rightarrow> xrp_state \<Rightarrow> (xrp_status \<times> xrp_state) option" where
  "xrp_impl_create_queue E queue s =
     (let (impl, s) = xrp_queue_init E queue s
      in do { Q \<leftarrow> queues s queue;
              Some (XRP_STATUS_SUCCESS, put_queue queue (Q\<lparr>q_impl := impl\<rparr>) s) })"

text \<open>\<open>nsid\<close> is \<^const>\<open>None\<close> for the null pointer.\<close>

definition xrp_create_nsp_queue ::
    "env \<Rightarrow> ptr \<Rightarrow> byte list option \<Rightarrow> i32 \<Rightarrow> xrp_state \<Rightarrow> (ptr \<times> xrp_status \<times> xrp_state) option" where
  "xrp_create_nsp_queue E device nsid priority s =
     do { s \<leftarrow> xrp_retain_device device s;
          let (queue, count, s) = alloc_refcounted E s;
          if queue = 0
          then do { s \<leftarrow> xrp_release_device E device s; Some (0, XRP_STATUS_FAILURE, s) }
          else do {
            (use_nsid, id) \<leftarrow> (case nsid of
                None \<Rightarrow> Some (False, replicate XRP_NAMESPACE_ID_SIZE 0)
              | Some str \<Rightarrow>
                  do { len \<leftarrow> str_len str XRP_NAMESPACE_ID_SIZE 0;
                       Some (True, take len str @ replicate (XRP_NAMESPACE_ID_SIZE - len) 0) });
            let Q = \<lparr>q_count = count, q_device = device, q_use_nsid = use_nsid,
                     q_priority = priority, q_nsid = id,
                     q_impl = \<lparr>rq_thread = False, rq_cond = False,
                        rq_request_queue = \<lparr>rl_head = 0, rl_tail = 0\<rparr>, rq_exit = False\<rparr>\<rparr>;
            (status, s) \<leftarrow> xrp_impl_create_queue E queue (put_queue queue Q s);
            Some (queue, status, s) } }"

definition xrp_create_ns_queue ::
    "env \<Rightarrow> ptr \<Rightarrow> byte list option \<Rightarrow> xrp_state \<Rightarrow> (ptr \<times> xrp_status \<times> xrp_state) option" where
  "xrp_create_ns_queue E device nsid s = xrp_create_nsp_queue E device nsid 0 s"

definition xrp_create_queue ::
    "env \<Rightarrow> ptr \<Rightarrow> xrp_state \<Rightarrow> (ptr \<times> xrp_status \<times> xrp_state) option" where
  "xrp_create_queue E device s = xrp_create_ns_queue E device None s"

definition xrp_retain_queue :: "ptr \<Rightarrow> xrp_state \<Rightarrow> xrp_state option" where
  "xrp_retain_queue queue s =
     do { Q \<leftarrow> queues s queue;
          Some (put_queue queue (Q\<lparr>q_count := retain_refcounted (q_count Q)\<rparr>) s) }"

section \<open>Running a request\<close>

text \<open>\<open>sprd_vdsp_send_cmd_direc\<close> of vdsp_interface.cpp.\<close>

definition sprd_vdsp_send_cmd_direc ::
    "env \<Rightarrow> ptr \<Rightarrow> byte list \<Rightarrow> sprd_vdsp_inout option \<Rightarrow> sprd_vdsp_inout option
       \<Rightarrow> sprd_vdsp_inout list \<Rightarrow> u32 \<Rightarrow> u32 \<Rightarrow> xrp_state \<Rightarrow> (sprd_vdsp_result \<times> xrp_state) option" where
  "sprd_vdsp_send_cmd_direc E handle nsid inp out buffer bufnum priority s =
     do { (ret1, s) \<leftarrow> sprd_vdsp_send_command_directly E handle nsid inp out buffer bufnum priority s;
          Some (if ret1 = SPRD_XRP_STATUS_SUCCESS then SPRD_VDSP_RESULT_SUCCESS
                else SPRD_VDSP_RESULT_FAIL, s) }"

text \<open>The value of the enum as the \<open>int\<close> it is assigned to.\<close>

definition result_int :: "sprd_vdsp_result \<Rightarrow> int" where
  "result_int r = (case r of SPRD_VDSP_RESULT_SUCCESS \<Rightarrow> 0 | SPRD_VDSP_RESULT_FAIL \<Rightarrow> 1
     | SPRD_VDSP_RESULT_OLD_GENERATION \<Rightarrow> 2 | SPRD_VDSP_RESULT_NOT_SUPPORT \<Rightarrow> 3
     | SPRD_VDSP_RESULT_MAX \<Rightarrow> 4)"

fun client_buffers ::
    "xrp_state \<Rightarrow> xrp_buffer_group \<Rightarrow> nat \<Rightarrow> size_t \<Rightarrow> sprd_vdsp_inout list option" where
  "client_buffers s G 0 i = Some []"
| "client_buffers s G (Suc k) i =
     do { r \<leftarrow> slot G i;
          B \<leftarrow> buffers s (gr_buffer r);
          rest \<leftarrow> client_buffers s G k (i + 1);
          Some (\<lparr>io_fd = b_ion_fd B, io_vir_addr = b_ptr B, io_phy_addr = 0, io_size = ucast (b_size B),
                 io_flag = translate_access_flag (gr_access_flags r)\<rparr> # rest) }"

text \<open>An input or output without address or size is not passed on.\<close>

definition client_inout :: "ptr \<Rightarrow> i32 \<Rightarrow> size_t \<Rightarrow> sprd_vdsp_inout option" where
  "client_inout data fd sz =
     (if data = 0 \<or> sz = 0 then None
      else Some \<lparr>io_fd = fd, io_vir_addr = data, io_phy_addr = 0, io_size = ucast sz, io_flag = 0\<rparr>)"

text \<open>The code's \<open>_xrp_run_command\<close>. The array it callocs is represented by its contents.\<close>

definition xrp_run_command ::
    "env \<Rightarrow> ptr \<Rightarrow> ptr \<Rightarrow> i32 \<Rightarrow> size_t \<Rightarrow> ptr \<Rightarrow> i32 \<Rightarrow> size_t \<Rightarrow> ptr \<Rightarrow> xrp_state
       \<Rightarrow> (xrp_status \<times> xrp_state) option" where
  "xrp_run_command E queue in_data in_data_fd in_data_size out_data out_data_fd out_data_size
       buffer_group s =
     do { (ok, n_buffers, buffer, s) \<leftarrow>
            (if buffer_group = 0 then Some (True, 0, [], s)
             else do { G \<leftarrow> groups s buffer_group;
                       m \<leftarrow> xrp_mutex_lock (g_mutex G);
                       let (ok, s) = (if g_n_buffers G > 0
                                      then (let (p, s) = malloc E s in (p \<noteq> 0, s)) else (True, s));
                       buffer \<leftarrow> (if ok then client_buffers s G (unat (g_n_buffers G)) 0 else Some []);
                       m \<leftarrow> xrp_mutex_unlock m;
                       Some (ok, g_n_buffers G, buffer, put_group buffer_group (G\<lparr>g_mutex := m\<rparr>) s) });
          Q \<leftarrow> queues s queue;
          (ret, s) \<leftarrow>
            (if \<not> ok then Some (- 1, s)
             else do { (r, s) \<leftarrow> sprd_vdsp_send_cmd_direc E (q_device Q) (q_nsid Q)
                         (client_inout in_data in_data_fd in_data_size)
                         (client_inout out_data out_data_fd out_data_size)
                         buffer (ucast n_buffers) (q_priority Q) s;
                       Some (result_int r, s) });
          Some (if ret < 0 then XRP_STATUS_FAILURE else XRP_STATUS_SUCCESS, s) }"

section \<open>Destruction, the worker and events\<close>

text \<open>
  \<open>xrp_queue_destroy\<close> by the thread \<open>self\<close> (the queue whose worker it is, or 0 for a client):
  a thread cannot join itself, so a worker that destroys its own queue tells its loop through
  \<open>sync_exit\<close>; any other thread lets the worker run to its end (\<open>run\<close>). Joining a thread
  that was never created leads to a write through the unset \<open>sync_exit\<close>.
\<close>

definition xrp_queue_destroy ::
    "(ptr \<Rightarrow> xrp_state \<Rightarrow> xrp_state option) \<Rightarrow> ptr \<Rightarrow> ptr \<Rightarrow> xrp_state \<Rightarrow> xrp_state option" where
  "xrp_queue_destroy run self queue s =
     do { Q \<leftarrow> queues s queue;
          c \<leftarrow> xrp_cond_lock (rq_cond (q_impl Q));
          c \<leftarrow> xrp_cond_unlock c;
          let s = put_queue queue (Q\<lparr>q_impl := (q_impl Q)\<lparr>rq_cond := c, rq_exit := True\<rparr>\<rparr>) s;
          _ \<leftarrow> (if rq_thread (q_impl Q) then Some () else None);
          s \<leftarrow> (if self = queue then Some (s\<lparr>sync_exit := (sync_exit s)(queue := True)\<rparr>)
                else run queue s);
          Q \<leftarrow> queues s queue;
          c \<leftarrow> xrp_cond_lock (rq_cond (q_impl Q));
          c \<leftarrow> xrp_cond_unlock c;
          Some s }"

definition xrp_impl_release_queue ::
    "(ptr \<Rightarrow> xrp_state \<Rightarrow> xrp_state option) \<Rightarrow> ptr \<Rightarrow> ptr \<Rightarrow> xrp_state \<Rightarrow> xrp_state option" where
  "xrp_impl_release_queue run self queue s = xrp_queue_destroy run self queue s"

definition xrp_release_queue_in ::
    "(ptr \<Rightarrow> xrp_state \<Rightarrow> xrp_state option) \<Rightarrow> env \<Rightarrow> ptr \<Rightarrow> ptr \<Rightarrow> xrp_state \<Rightarrow> xrp_state option" where
  "xrp_release_queue_in run E self queue s =
     do { Q \<leftarrow> queues s queue;
          let (last, c) = last_release_refcounted (q_count Q);
          let s = put_queue queue (Q\<lparr>q_count := c\<rparr>) s;
          if last
          then do { s \<leftarrow> xrp_impl_release_queue run self queue s;
                    Q \<leftarrow> queues s queue;
                    s \<leftarrow> xrp_release_device E (q_device Q) s;
                    Some (s\<lparr>queues := (queues s)(queue := None)\<rparr>) }
          else Some s }"

definition xrp_event_create :: "env \<Rightarrow> xrp_state \<Rightarrow> ptr \<times> xrp_state" where
  "xrp_event_create E s =
     (let (event, count, s) = alloc_refcounted E s
      in if event = 0 then (0, s)
         else (event, put_event event \<lparr>e_count = count, e_queue = 0, e_status = XRP_STATUS_PENDING,
                                       e_cond = False\<rparr> s))"

definition xrp_retain_event :: "ptr \<Rightarrow> xrp_state \<Rightarrow> xrp_state option" where
  "xrp_retain_event event s =
     do { V \<leftarrow> events s event;
          Some (put_event event (V\<lparr>e_count := retain_refcounted (e_count V)\<rparr>) s) }"

text \<open>\<open>xrp_impl_release_event\<close> destroys the condition, which has no state of its own here.\<close>

definition xrp_release_event_in ::
    "(ptr \<Rightarrow> xrp_state \<Rightarrow> xrp_state option) \<Rightarrow> env \<Rightarrow> ptr \<Rightarrow> ptr \<Rightarrow> xrp_state \<Rightarrow> xrp_state option" where
  "xrp_release_event_in run E self event s =
     do { V \<leftarrow> events s event;
          let (last, c) = last_release_refcounted (e_count V);
          let s = put_event event (V\<lparr>e_count := c\<rparr>) s;
          if last
          then do { s \<leftarrow> xrp_release_queue_in run E self (e_queue V) s;
                    Some (s\<lparr>events := (events s)(event := None)\<rparr>) }
          else Some s }"

definition xrp_event_status :: "ptr \<Rightarrow> xrp_state \<Rightarrow> xrp_status option" where
  "xrp_event_status event s = do { V \<leftarrow> events s event; Some (e_status V) }"

definition complete_event :: "ptr \<Rightarrow> xrp_status \<Rightarrow> xrp_state \<Rightarrow> xrp_state option" where
  "complete_event event status s =
     do { V \<leftarrow> events s event;
          c \<leftarrow> xrp_cond_lock (e_cond V);
          c \<leftarrow> xrp_cond_unlock c;
          Some (put_event event (V\<lparr>e_status := status, e_cond := c\<rparr>) s) }"

definition xrp_request_process ::
    "(ptr \<Rightarrow> xrp_state \<Rightarrow> xrp_state option) \<Rightarrow> env \<Rightarrow> ptr \<Rightarrow> ptr \<Rightarrow> xrp_state \<Rightarrow> xrp_state option" where
  "xrp_request_process run E context rq s =
     do { R \<leftarrow> requests s rq;
          (status, s) \<leftarrow> xrp_run_command E context (r_in_data R) (r_in_data_fd R) (r_in_data_size R)
                           (r_out_data R) (r_out_data_fd R) (r_out_data_size R) (r_buffer_group R) s;
          s \<leftarrow> (if r_buffer_group R \<noteq> 0 then xrp_release_buffer_group E (r_buffer_group R) s else Some s);
          s \<leftarrow> (if r_event R \<noteq> 0
                then do { s \<leftarrow> complete_event (r_event R) status s;
                          xrp_release_event_in run E context (r_event R) s }
                else Some s);
          Some (s\<lparr>blocks := (blocks s)(r_in_data R := None), requests := (requests s)(rq := None)\<rparr>) }"

text \<open>One round of the worker; with no request and no exit it would wait for ever here. The
  flag says whether the worker goes on.\<close>

definition xrp_queue_process ::
    "(ptr \<Rightarrow> xrp_state \<Rightarrow> xrp_state option) \<Rightarrow> env \<Rightarrow> ptr \<Rightarrow> xrp_state \<Rightarrow> (bool \<times> xrp_state) option" where
  "xrp_queue_process run E queue s =
     do { let s = s\<lparr>sync_exit := (sync_exit s)(queue := False)\<rparr>;
          Q \<leftarrow> queues s queue;
          c \<leftarrow> xrp_cond_lock (rq_cond (q_impl Q));
          let (rq, l) = xrp_dequeue_request (next_item s) (rq_request_queue (q_impl Q));
          _ \<leftarrow> (if rq \<noteq> 0 \<or> rq_exit (q_impl Q) then Some () else None);
          c \<leftarrow> xrp_cond_unlock c;
          let s = put_queue queue (Q\<lparr>q_impl := (q_impl Q)\<lparr>rq_cond := c, rq_request_queue := l\<rparr>\<rparr>) s;
          if rq = 0 then Some (False, s)
          else do { s \<leftarrow> xrp_request_process run E queue rq s;
                    Some (\<not> sync_exit s queue, s) } }"

fun xrp_queue_thread :: "nat \<Rightarrow> env \<Rightarrow> ptr \<Rightarrow> xrp_state \<Rightarrow> xrp_state option" where
  "xrp_queue_thread 0 E p s = None"
| "xrp_queue_thread (Suc n) E p s =
     do { (again, s) \<leftarrow> xrp_queue_process (xrp_queue_thread n E) E p s;
          if again then xrp_queue_thread n E p s else Some s }"

section \<open>The client side\<close>

definition xrp_release_queue :: "nat \<Rightarrow> env \<Rightarrow> ptr \<Rightarrow> xrp_state \<Rightarrow> xrp_state option" where
  "xrp_release_queue n E queue s = xrp_release_queue_in (xrp_queue_thread n E) E 0 queue s"

definition xrp_release_event :: "nat \<Rightarrow> env \<Rightarrow> ptr \<Rightarrow> xrp_state \<Rightarrow> xrp_state option" where
  "xrp_release_event n E event s = xrp_release_event_in (xrp_queue_thread n E) E 0 event s"

text \<open>\<open>xrp_cond_wait\<close> gives the lock up while the worker runs; without a worker it never ends.\<close>

fun wait_loop :: "nat \<Rightarrow> env \<Rightarrow> ptr \<Rightarrow> xrp_state \<Rightarrow> xrp_state option" where
  "wait_loop 0 E event s = None"
| "wait_loop (Suc n) E event s =
     do { V \<leftarrow> events s event;
          if e_status V \<noteq> XRP_STATUS_PENDING then Some s
          else do {
            c \<leftarrow> xrp_cond_unlock (e_cond V);
            let s = put_event event (V\<lparr>e_cond := c\<rparr>) s;
            Q \<leftarrow> queues s (e_queue V);
            _ \<leftarrow> (if rq_thread (q_impl Q) then Some () else None);
            (_, s) \<leftarrow> xrp_queue_process (xrp_queue_thread n E) E (e_queue V) s;
            V \<leftarrow> events s event;
            c \<leftarrow> xrp_cond_lock (e_cond V);
            wait_loop n E event (put_event event (V\<lparr>e_cond := c\<rparr>) s) } }"

definition xrp_wait :: "nat \<Rightarrow> env \<Rightarrow> ptr \<Rightarrow> xrp_state \<Rightarrow> (xrp_status \<times> xrp_state) option" where
  "xrp_wait n E event s =
     do { V \<leftarrow> events s event;
          c \<leftarrow> xrp_cond_lock (e_cond V);
          s \<leftarrow> wait_loop n E event (put_event event (V\<lparr>e_cond := c\<rparr>) s);
          V \<leftarrow> events s event;
          c \<leftarrow> xrp_cond_unlock (e_cond V);
          Some (XRP_STATUS_SUCCESS, put_event event (V\<lparr>e_cond := c\<rparr>) s) }"

definition zero_request :: xrp_request where
  "zero_request = \<lparr>r_in_data = 0, r_out_data = 0, r_in_data_fd = 0, r_out_data_fd = 0,
     r_in_data_size = 0, r_out_data_size = 0, r_buffer_group = 0, r_event = 0\<rparr>"

definition free_request :: "ptr \<Rightarrow> ptr \<Rightarrow> xrp_state \<Rightarrow> xrp_state" where
  "free_request rq copy s = s\<lparr>requests := (requests s)(rq := None), blocks := (blocks s)(copy := None)\<rparr>"

text \<open>\<open>evt\<close> says whether the caller wants an event; the result carries its address, 0 for
  none. A request and its copy of the input are in the store as soon as they are allocated.\<close>

definition xrp_enqueue_command ::
    "env \<Rightarrow> ptr \<Rightarrow> ptr \<Rightarrow> i32 \<Rightarrow> size_t \<Rightarrow> ptr \<Rightarrow> i32 \<Rightarrow> size_t \<Rightarrow> ptr \<Rightarrow> bool \<Rightarrow> xrp_state
       \<Rightarrow> (ptr \<times> xrp_status \<times> xrp_state) option" where
  "xrp_enqueue_command E queue in_data in_data_fd in_data_size out_data out_data_fd out_data_size
       buffer_group evt s =
     do { let (rq, s) = malloc E s;
          let s = (if rq = 0 then s else s\<lparr>requests := (requests s)(rq \<mapsto> zero_request)\<rparr>);
          let (copy, s) = malloc E s;
          if rq = 0 \<or> (in_data_size \<noteq> 0 \<and> copy = 0)
          then Some (0, XRP_STATUS_FAILURE,
                 if rq = 0 then s else s\<lparr>requests := (requests s)(rq := None)\<rparr>)
          else do {
            bytes \<leftarrow> read_bytes s in_data (unat in_data_size);
            let s = (if copy = 0 then s else s\<lparr>blocks := (blocks s)(copy \<mapsto> bytes)\<rparr>);
            let R = \<lparr>r_in_data = copy, r_out_data = out_data, r_in_data_fd = in_data_fd,
                     r_out_data_fd = out_data_fd, r_in_data_size = in_data_size,
                     r_out_data_size = out_data_size, r_buffer_group = 0, r_event = 0\<rparr>;
            let (event, s) = (if evt then xrp_event_create E s else (0, s));
            if evt \<and> event = 0 then Some (0, XRP_STATUS_FAILURE, free_request rq copy s)
            else do {
              s \<leftarrow> (if evt
                    then do { s \<leftarrow> xrp_retain_queue queue s;
                              V \<leftarrow> events s event;
                              xrp_retain_event event (put_event event (V\<lparr>e_queue := queue\<rparr>) s) }
                    else Some s);
              s \<leftarrow> (if buffer_group \<noteq> 0 then xrp_retain_buffer_group buffer_group s else Some s);
              let s = s\<lparr>requests := (requests s)(rq \<mapsto> R\<lparr>r_event := event, r_buffer_group := buffer_group\<rparr>)\<rparr>;
              Q \<leftarrow> queues s queue;
              (nxt, impl, _) \<leftarrow> xrp_queue_push (next_item s) (q_impl Q) rq;
              Some (event, XRP_STATUS_SUCCESS, put_queue queue (Q\<lparr>q_impl := impl\<rparr>) (s\<lparr>next_item := nxt\<rparr>)) } } }"

definition xrp_run_command_sync ::
    "nat \<Rightarrow> env \<Rightarrow> ptr \<Rightarrow> ptr \<Rightarrow> i32 \<Rightarrow> size_t \<Rightarrow> ptr \<Rightarrow> i32 \<Rightarrow> size_t \<Rightarrow> ptr \<Rightarrow> xrp_state
       \<Rightarrow> (xrp_status \<times> xrp_state) option" where
  "xrp_run_command_sync n E queue in_data in_data_fd in_data_size out_data out_data_fd out_data_size
       buffer_group s =
     do { (evt, st, s) \<leftarrow> xrp_enqueue_command E queue in_data in_data_fd in_data_size
                            out_data out_data_fd out_data_size buffer_group True s;
          if st \<noteq> XRP_STATUS_SUCCESS then Some (st, s)
          else do { (_, s) \<leftarrow> xrp_wait n E evt s;
                    status \<leftarrow> xrp_event_status evt s;
                    s \<leftarrow> xrp_release_event n E evt s;
                    Some (status, s) } }"

end
