(* ===== verification/Xrp_Queue_Refs.thy ===== *)
theory Xrp_Queue_Refs
  imports Xrp_Queue
begin

text \<open>
  The object store under the queue operations: a request that leaves a list takes the
  references the list held for it (\<open>carry\<close>), an event or a queue whose last reference goes
  gives back what it holds and leaves the store. A command that fails may lose a reference to
  a wrapped buffer (the cleanup of \<open>sprd_vdsp_send_command_directly\<close>), and a queue that its own
  worker destroys loses the requests still waiting, so the clients' account is kept up to
  references nobody can give back (\<open>linv\<close>).
\<close>

section \<open>Accounts\<close>

definition add1 :: "obj \<Rightarrow> refs \<Rightarrow> refs" where
  "add1 k X = X(k := X k + 1)"

definition padd :: "refs \<Rightarrow> refs \<Rightarrow> refs" where
  "padd X Y = (\<lambda>ob. X ob + Y ob)"

definition linv :: "refs \<Rightarrow> (ptr \<Rightarrow> ptr list) \<Rightarrow> xrp_state \<Rightarrow> bool" where
  "linv X L s \<longleftrightarrow> (\<exists>Y. inv (padd X Y) L s)"

lemma add1_simps [simp]:
  "add1 k X k = Suc (X k)" "(add1 k X)(k := X k) = X" "ob \<noteq> k \<Longrightarrow> add1 k X ob = X ob"
  by (simp_all add: add1_def)

lemma add1_commute: "add1 a (add1 b X) = add1 b (add1 a X)"
  by (auto simp: add1_def fun_eq_iff)

lemma padd_simps [simp]:
  "padd (add1 k X) Y = add1 k (padd X Y)" "padd X (\<lambda>_. 0) = X" "padd (padd X Y) Z = padd X (padd Y Z)"
  by (auto simp: padd_def add1_def fun_eq_iff)

lemma padd_app: "padd X Y ob = X ob + Y ob"
  by (simp add: padd_def)

lemma linvI: "inv (padd X Y) L s \<Longrightarrow> linv X L s"
  by (auto simp: linv_def)

lemma linv_weaken: "linv (padd X Y) L s \<Longrightarrow> linv X L s"
  by (auto simp: linv_def)

lemma inv_linv: "inv X L s \<Longrightarrow> linv X L s"
  by (rule linvI [of X "\<lambda>_. 0"]) simp

lemma hold_padd: "hold X bs = padd X (hold (\<lambda>_. 0) bs)"
  by (rule ext, rename_tac ob, case_tac ob) (simp_all add: padd_def)

text \<open>What a request holds on to: its event and its group.\<close>

definition carry :: "xrp_request \<Rightarrow> refs \<Rightarrow> refs" where
  "carry R X = (if r_event R \<noteq> 0 then add1 (Evt (r_event R)) else (\<lambda>X. X))
                 ((if r_buffer_group R \<noteq> 0 then add1 (Grp (r_buffer_group R)) else (\<lambda>X. X)) X)"

lemma carry_padd [simp]: "padd (carry R X) Y = carry R (padd X Y)"
  by (simp add: carry_def)

lemma carry_simps:
  "carry R X (Dev p) = X (Dev p)" "carry R X (Buf p) = X (Buf p)" "carry R X (Que p) = X (Que p)"
  "carry R X (Grp p) = X (Grp p) + request_grp p R" "carry R X (Evt p) = X (Evt p) + request_evt p R"
  by (auto simp: carry_def add1_def request_grp_def request_evt_def)

section \<open>Requests enter and leave a list\<close>

lemma msum_restrict_del:
  assumes "finite (dom m)" and "m r = Some v" and "r \<in> P"
  shows "msum (m |` P) w = w v + msum (m |` (P - {r})) w"
proof -
  have "finite (dom (m |` P))" using assms(1) by simp
  moreover have "(m |` P)(r := None) = m |` (P - {r})" by (auto simp: restrict_map_def)
  ultimately show ?thesis using msum_split [of "m |` P" r v w] assms by simp
qed

lemma irefs_pend:
  assumes "finite (dom (requests s))" and "requests s r = Some R" and "r \<in> P"
  shows "carry R (irefs (P - {r}) s) = irefs P s"
  by (rule ext, rename_tac ob, case_tac ob)
    (simp_all add: carry_simps msum_restrict_del [OF assms])

lemma msum_restrict_mono:
  assumes "finite (dom m)" and "P \<subseteq> P'"
  shows "msum (m |` P) w \<le> msum (m |` P') w"
proof -
  have "msum (m |` P) w = (\<Sum>k\<in>dom (m |` P). w (the ((m |` P') k)))"
    unfolding msum_def using assms(2) by (intro sum.cong) (auto simp: restrict_map_def)
  also have "\<dots> \<le> msum (m |` P') w"
    unfolding msum_def using assms by (intro sum_mono2) auto
  finally show ?thesis .
qed

lemma irefs_mono: "finite (dom (requests s)) \<Longrightarrow> P \<subseteq> P' \<Longrightarrow> irefs P s ob \<le> irefs P' s ob"
  by (cases ob) (simp_all add: msum_restrict_mono)

definition relist :: "xrp_queue \<Rightarrow> request_list \<Rightarrow> xrp_queue" where
  "relist Q l = Q\<lparr>q_impl := (q_impl Q)\<lparr>rq_cond := False, rq_request_queue := l\<rparr>\<rparr>"

lemma relist_simps [simp]:
  "q_count (relist Q l) = q_count Q" "q_device (relist Q l) = q_device Q"
  "q_nsid (relist Q l) = q_nsid Q" "rq_cond (q_impl (relist Q l)) = False"
  "rq_thread (q_impl (relist Q l)) = rq_thread (q_impl Q)"
  "rq_exit (q_impl (relist Q l)) = rq_exit (q_impl Q)"
  "rq_request_queue (q_impl (relist Q l)) = l" "q_priority (relist Q l) = q_priority Q"
  by (simp_all add: relist_def)

lemma irefs_queue_upd:
  assumes "queues s q = Some Q" and "q_device Q' = q_device Q" and "q_count Q' = q_count Q"
  shows "irefs P (put_queue q Q' s) = irefs P s"
  by (rule ext, rename_tac ob, case_tac ob)
    (simp_all add: put_queue_def msum_upd_same assms queue_dev_def)

lemma cnt_queue_upd:
  assumes "queues s q = Some Q" and "q_count Q' = q_count Q"
  shows "cnt (put_queue q Q' s) = cnt s"
  by (rule ext, rename_tac ob, case_tac ob) (simp_all add: put_queue_def assms)

lemma pend_mem: "r \<in> pend L s \<longleftrightarrow> (\<exists>q. queues s q \<noteq> None \<and> r \<in> set (L q))"
  by (auto simp: pend_def)

lemma live_queue_ok:
  assumes "inv X L s" and "queues s q = Some Q"
  shows "\<not> rq_cond (q_impl Q)" and "0 \<in> set (q_nsid Q)"
    and "q_count Q \<noteq> 0 \<Longrightarrow> rq_thread (q_impl Q) \<and> \<not> rq_exit (q_impl Q)"
    and "rlist (next_item s) (rq_request_queue (q_impl Q)) (L q)"
  using invD(6) [OF assms(1)] assms(2) by (auto simp: queues_ok_def)

lemma pending_request:
  assumes "inv X L s" and "queues s q \<noteq> None" and "r \<in> set (L q)"
  obtains R where "requests s r = Some R"
    and "r_event R \<noteq> 0 \<Longrightarrow> \<exists>V. events s (r_event R) = Some V \<and> e_queue V = q"
    and "r_in_data R \<noteq> 0 \<Longrightarrow> blocks s (r_in_data R) \<noteq> None"
  using invD(8) [OF assms(1)] assms(2,3) unfolding requests_ok_def by blast

lemma pending_distinct:
  assumes "inv X L s" and "r \<in> pend L s" and "r' \<in> pend L s" and "requests s r = Some R"
    and "requests s r' = Some R'" and "r_in_data R = r_in_data R'" and "r_in_data R \<noteq> 0"
  shows "r = r'"
  using invD(8) [OF assms(1)] assms(2-7) unfolding requests_ok_def by blast

lemma inv_dequeue:
  assumes i: "inv X L s" and Q: "queues s q = Some Q" and L: "L q = r # xs"
    and R: "requests s r = Some R" and l: "rlist (next_item s) l xs"
  shows "inv (carry R X) (L(q := xs)) (put_queue q (relist Q l) s)"
    and "r \<notin> pend (L(q := xs)) (put_queue q (relist Q l) s)"
proof -
  let ?L = "L(q := xs)" and ?s = "put_queue q (relist Q l) s"
  have rl: "rlist (next_item s) (rq_request_queue (q_impl Q)) (r # xs)"
    using live_queue_ok(4) [OF i Q] L by simp
  then have r: "r \<notin> set xs" by (simp add: rlist_def)
  have dis: "set (L p) \<inter> set (L p') = {}" if "queues s p \<noteq> None" "queues s p' \<noteq> None" "p \<noteq> p'" for p p'
    using invD(6) [OF i] that by (simp add: queues_ok_def)
  have r_only: "r \<notin> set (L p)" if "queues s p \<noteq> None" "p \<noteq> q" for p
    using dis [OF that(1) _ that(2)] Q L by auto
  have dom: "queues ?s p \<noteq> None \<longleftrightarrow> queues s p \<noteq> None" for p by (simp add: put_queue_def Q)
  have sub: "set (?L p) \<subseteq> set (L p)" for p using L by auto
  have mem: "x \<in> set (?L p) \<longleftrightarrow> x \<in> set (L p) \<and> x \<noteq> r" if "queues s p \<noteq> None" for x p
    using r r_only [OF that] L by auto
  have P: "pend ?L ?s = pend L s - {r}"
    unfolding set_eq_iff Diff_iff pend_mem dom using mem by blast
  show "r \<notin> pend ?L ?s" by (simp add: P)
  have rp: "r \<in> pend L s" unfolding pend_mem using Q L by auto
  have "queues_ok ?L ?s"
    unfolding queues_ok_def
  proof (intro conjI allI impI)
    fix p Q'
    assume p: "queues ?s p = Some Q'"
    show "\<not> rq_cond (q_impl Q')" "0 \<in> set (q_nsid Q')"
      "q_count Q' \<noteq> 0 \<Longrightarrow> rq_thread (q_impl Q')" "q_count Q' \<noteq> 0 \<Longrightarrow> \<not> rq_exit (q_impl Q')"
      "rlist (next_item ?s) (rq_request_queue (q_impl Q')) (?L p)"
      using invD(6) [OF i] p Q l by (auto simp: queues_ok_def put_queue_def split: if_splits)
  next
    fix p p'
    assume "queues ?s p \<noteq> None" "queues ?s p' \<noteq> None" "p \<noteq> p'"
    then show "set (?L p) \<inter> set (?L p') = {}" using dis [of p p'] sub [of p] sub [of p'] dom by blast
  qed
  moreover have "requests_ok ?L ?s"
    unfolding requests_ok_def
  proof (intro conjI allI impI)
    fix p x
    assume p: "queues ?s p \<noteq> None" "x \<in> set (?L p)"
    then have "queues s p \<noteq> None" "x \<in> set (L p)" using sub dom by blast+
    then show "\<exists>R. requests ?s x = Some R \<and>
        (r_event R \<noteq> 0 \<longrightarrow> (\<exists>V. events ?s (r_event R) = Some V \<and> e_queue V = p)) \<and>
        (r_in_data R \<noteq> 0 \<longrightarrow> blocks ?s (r_in_data R) \<noteq> None)"
      using invD(8) [OF i] unfolding requests_ok_def put_queue_def by simp
  next
    fix x x' Rx Rx'
    assume "x \<in> pend ?L ?s" "x' \<in> pend ?L ?s" "requests ?s x = Some Rx" "requests ?s x' = Some Rx'"
      "r_in_data Rx = r_in_data Rx'" "r_in_data Rx \<noteq> 0"
    then show "x = x'" using pending_distinct [OF i, of x x' Rx Rx'] unfolding P by (simp add: put_queue_def)
  qed
  moreover have "maps_ok ?s" "counts_ok ?s" "devices_ok ?s" "buffers_ok ?s" "groups_ok ?s" "events_ok ?s"
    using invD(1-5,7) [OF i] Q by (auto simp: maps_ok_def counts_ok_def put_queue_def)
  moreover have "cnt ?s ob = carry R X ob + irefs (pend ?L ?s) ?s ob" for ob
  proof -
    have f: "finite (dom (requests s))" using invD(1) [OF i] by (simp add: maps_ok_def)
    have "cnt s ob = X ob + irefs (pend L s) s ob" by (rule refs_okD [OF invD(9) [OF i]])
    also have "\<dots> = X ob + carry R (irefs (pend L s - {r}) s) ob"
      by (simp add: irefs_pend [OF f R rp])
    also have "\<dots> = carry R X ob + irefs (pend L s - {r}) s ob"
      by (cases ob) (simp_all add: carry_simps del: irefs.simps)
    finally show ?thesis by (simp add: P cnt_queue_upd [OF Q] irefs_queue_upd [OF Q] del: cnt.simps irefs.simps)
  qed
  ultimately show "inv (carry R X) ?L ?s" by (simp add: inv_def store_ok_def refs_ok_def)
qed

section \<open>Events and queues go\<close>

lemma counts_ok_more [simp]:
  "counts_ok (s\<lparr>events := ev\<rparr>) = counts_ok s" "counts_ok (s\<lparr>queues := qu\<rparr>) = counts_ok s"
  by (simp_all add: counts_ok_def)

lemma inv_event_dying:
  assumes i: "inv (add1 (Evt v) X) L s" and V: "events s v = Some V" "e_count V = 1"
  shows "inv (add1 (Que (e_queue V)) X) L (put_event v (V\<lparr>e_count := 0\<rparr>) s)"
    and "irefs (pend L s) s (Evt v) = 0"
proof -
  let ?s = "put_event v (V\<lparr>e_count := 0\<rparr>) s"
  have f: "finite (dom (events s))" using invD(1) [OF i] by (simp add: maps_ok_def)
  have z: "X (Evt v) = 0" "irefs (pend L s) s (Evt v) = 0"
    using refs_okD [OF invD(9) [OF i], of "Evt v"] V by simp_all
  then show "irefs (pend L s) s (Evt v) = 0" by simp
  have "requests_ok L ?s"
    unfolding requests_ok_def
  proof (intro conjI allI impI)
    fix p x
    assume p: "queues ?s p \<noteq> None" "x \<in> set (L p)"
    then obtain R where "requests s x = Some R"
      "r_event R \<noteq> 0 \<Longrightarrow> \<exists>V. events s (r_event R) = Some V \<and> e_queue V = p"
      "r_in_data R \<noteq> 0 \<Longrightarrow> blocks s (r_in_data R) \<noteq> None"
      using pending_request [OF i, of p x] by (auto simp: put_event_def)
    then show "\<exists>R. requests ?s x = Some R \<and>
        (r_event R \<noteq> 0 \<longrightarrow> (\<exists>V. events ?s (r_event R) = Some V \<and> e_queue V = p)) \<and>
        (r_in_data R \<noteq> 0 \<longrightarrow> blocks ?s (r_in_data R) \<noteq> None)"
      using V by (auto simp: put_event_def)
  next
    fix x x' Rx Rx'
    assume "x \<in> pend L ?s" "x' \<in> pend L ?s" "requests ?s x = Some Rx" "requests ?s x' = Some Rx'"
      "r_in_data Rx = r_in_data Rx'" "r_in_data Rx \<noteq> 0"
    then show "x = x'" using pending_distinct [OF i, of x x' Rx Rx'] by (simp add: put_event_def)
  qed
  moreover have "maps_ok ?s" "counts_ok ?s" "devices_ok ?s" "buffers_ok ?s" "groups_ok ?s"
    "queues_ok L ?s" "events_ok ?s"
    using invD(1-7) [OF i] V
    by (auto simp: maps_ok_def counts_ok_def events_ok_def devices_ok_def buffers_ok_def groups_ok_def
        queues_ok_def put_event_def)
  moreover have "cnt ?s ob = add1 (Que (e_queue V)) X ob + irefs (pend L s) ?s ob" for ob
  proof -
    note r = refs_okD [OF invD(9) [OF i], of ob]
    have e: "msum (events ?s) (event_que q) + of_bool (q = e_queue V) = msum (events s) (event_que q)" for q
      using msum_upd [OF f V(1), where v = "V\<lparr>e_count := 0\<rparr>" and w = "event_que q"]
        msum_ge [OF f V(1), of "event_que q"] V(2)
      by (auto simp: put_event_def event_que_def)
    show ?thesis
    proof (cases ob)
      case (Que q)
      then show ?thesis using r e [of q] by (auto simp: put_event_def add1_def)
    qed (use r V z in \<open>auto simp: put_event_def add1_def\<close>)
  qed
  moreover have "pend L ?s = pend L s" by (simp add: put_event_def)
  ultimately show "inv (add1 (Que (e_queue V)) X) L ?s" by (simp add: inv_def store_ok_def refs_ok_def)
qed

lemma inv_event_gone:
  assumes i: "inv X L s" and V: "events s v = Some V" "e_count V = 0"
  shows "inv X L (s\<lparr>events := (events s)(v := None)\<rparr>)"
proof -
  let ?s = "s\<lparr>events := (events s)(v := None)\<rparr>"
  have f: "finite (dom (events s))" "finite (dom (requests s))" and v0: "v \<noteq> 0"
    using invD(1) [OF i] V(1) by (auto simp: maps_ok_def)
  have z: "X (Evt v) = 0" "msum (requests s |` pend L s) (request_evt v) = 0"
    using refs_okD [OF invD(9) [OF i], of "Evt v"] V by simp_all
  have no: "r_event R \<noteq> v" if x: "requests s x = Some R" "x \<in> pend L s" for x R
  proof -
    have "request_evt v R = 0"
      by (rule msum_zeroD [OF _ z(2), of x]) (use f x in simp_all)
    then show ?thesis using v0 by (simp add: request_evt_def)
  qed
  have "requests_ok L ?s"
    unfolding requests_ok_def
  proof (intro conjI allI impI)
    fix p x
    assume p: "queues ?s p \<noteq> None" "x \<in> set (L p)"
    then obtain R where R: "requests s x = Some R"
      "r_event R \<noteq> 0 \<Longrightarrow> \<exists>V. events s (r_event R) = Some V \<and> e_queue V = p"
      "r_in_data R \<noteq> 0 \<Longrightarrow> blocks s (r_in_data R) \<noteq> None"
      using pending_request [OF i, of p x] by auto
    have "r_event R \<noteq> v" by (rule no [OF R(1)]) (use p in \<open>auto simp: pend_mem\<close>)
    then show "\<exists>R. requests ?s x = Some R \<and>
        (r_event R \<noteq> 0 \<longrightarrow> (\<exists>V. events ?s (r_event R) = Some V \<and> e_queue V = p)) \<and>
        (r_in_data R \<noteq> 0 \<longrightarrow> blocks ?s (r_in_data R) \<noteq> None)"
      using R by auto
  next
    fix x x' Rx Rx'
    assume "x \<in> pend L ?s" "x' \<in> pend L ?s" "requests ?s x = Some Rx" "requests ?s x' = Some Rx'"
      "r_in_data Rx = r_in_data Rx'" "r_in_data Rx \<noteq> 0"
    then show "x = x'" using pending_distinct [OF i, of x x' Rx Rx'] by simp
  qed
  moreover have "maps_ok ?s" "events_ok ?s"
    using invD(1,7) [OF i] by (auto simp: maps_ok_def events_ok_def)
  moreover have "cnt ?s ob = X ob + irefs (pend L s) ?s ob" for ob
  proof -
    have e: "msum ((events s)(v := None)) (event_que q) = msum (events s) (event_que q)" for q
      using msum_split [OF f(1) V(1), of "event_que q"] V(2) by (simp add: event_que_def)
    show ?thesis using refs_okD [OF invD(9) [OF i], of ob] z V e by (cases ob) auto
  qed
  ultimately show ?thesis using invD(2-6) [OF i] by (simp add: inv_def store_ok_def refs_ok_def)
qed

lemma inv_queue_dying:
  assumes i: "inv (add1 (Que q) X) L s" and Q: "queues s q = Some Q" "q_count Q = 1"
  shows "inv (add1 (Dev (q_device Q)) X) L (put_queue q (Q\<lparr>q_count := 0\<rparr>) s)"
    and "r \<in> set (L q) \<Longrightarrow> requests s r = Some R \<Longrightarrow> r_event R = 0"
proof -
  let ?s = "put_queue q (Q\<lparr>q_count := 0\<rparr>) s"
  have f: "finite (dom (queues s))" "finite (dom (events s))"
    using invD(1) [OF i] by (simp_all add: maps_ok_def)
  have z: "X (Que q) = 0" "msum (events s) (event_que q) = 0"
    using refs_okD [OF invD(9) [OF i], of "Que q"] Q by simp_all
  show "r_event R = 0" if r: "r \<in> set (L q)" "requests s r = Some R"
  proof (rule ccontr)
    assume n: "r_event R \<noteq> 0"
    obtain V where V: "events s (r_event R) = Some V" "e_queue V = q"
      using pending_request [OF i _ r(1)] Q(1) r(2) n by auto
    have "r \<in> pend L s" unfolding pend_mem using Q(1) r(1) by auto
    then have "0 < msum (requests s |` pend L s) (request_evt (r_event R))"
      by (intro msum_pos [of _ r R])
        (use r n invD(1) [OF i] in \<open>auto simp: maps_ok_def request_evt_def\<close>)
    then have "0 < cnt s (Evt (r_event R))"
      using refs_okD [OF invD(9) [OF i], of "Evt (r_event R)"] by simp
    then have "e_count V \<noteq> 0" using V by auto
    moreover have "event_que q V = 0" by (rule msum_zeroD [OF f(2) z(2) V(1)])
    ultimately show False using V by (simp add: event_que_def)
  qed
  have "queues_ok L ?s" using invD(6) [OF i] Q by (simp add: queues_ok_def put_queue_def)
  moreover have "requests_ok L ?s"
    using invD(8) [OF i] Q by (simp add: requests_ok_def put_queue_def)
  moreover have "maps_ok ?s" "counts_ok ?s" "devices_ok ?s" "buffers_ok ?s" "groups_ok ?s" "events_ok ?s"
    using invD(1-5,7) [OF i] Q by (auto simp: maps_ok_def counts_ok_def put_queue_def)
  moreover have "cnt ?s ob = add1 (Dev (q_device Q)) X ob + irefs (pend L s) ?s ob" for ob
  proof -
    note r = refs_okD [OF invD(9) [OF i], of ob]
    have e: "msum (queues ?s) (queue_dev d) + of_bool (d = q_device Q) = msum (queues s) (queue_dev d)" for d
      using msum_upd [OF f(1) Q(1), where v = "Q\<lparr>q_count := 0\<rparr>" and w = "queue_dev d"]
        msum_ge [OF f(1) Q(1), of "queue_dev d"] Q(2)
      by (auto simp: put_queue_def queue_dev_def)
    show ?thesis
    proof (cases ob)
      case (Dev d)
      then show ?thesis using r e [of d] by (auto simp: put_queue_def add1_def)
    qed (use r Q z in \<open>auto simp: put_queue_def add1_def\<close>)
  qed
  moreover have "pend L ?s = pend L s" using Q by (simp add: put_queue_def)
  ultimately show "inv (add1 (Dev (q_device Q)) X) L ?s" by (simp add: inv_def store_ok_def refs_ok_def)
qed

lemma inv_queue_gone:
  assumes i: "inv X L s" and Q: "queues s q = Some Q" "q_count Q = 0"
  shows "\<exists>Y. inv (padd X Y) L (s\<lparr>queues := (queues s)(q := None)\<rparr>) \<and> (L q = [] \<longrightarrow> Y = (\<lambda>_. 0))"
proof -
  let ?s = "s\<lparr>queues := (queues s)(q := None)\<rparr>"
  let ?P = "pend L s" and ?P' = "pend L ?s"
  define Y where "Y ob = irefs ?P s ob - irefs ?P' s ob" for ob
  have f: "finite (dom (queues s))" "finite (dom (requests s))"
    using invD(1) [OF i] by (simp_all add: maps_ok_def)
  have dom: "queues ?s p \<noteq> None \<longleftrightarrow> queues s p \<noteq> None \<and> p \<noteq> q" for p by simp
  have sub: "?P' \<subseteq> ?P" unfolding subset_iff pend_mem dom by blast
  have ir: "irefs ?P' ?s = irefs ?P' s"
  proof (rule ext)
    fix ob
    have "msum ((queues s)(q := None)) (queue_dev d) = msum (queues s) (queue_dev d)" for d
      using msum_split [OF f(1) Q(1), of "queue_dev d"] Q(2) by (simp add: queue_dev_def)
    then show "irefs ?P' ?s ob = irefs ?P' s ob" by (cases ob) simp_all
  qed
  have z: "X (Que q) = 0" using refs_okD [OF invD(9) [OF i], of "Que q"] Q by simp
  have c: "cnt ?s ob = cnt s ob" for ob using Q by (cases ob) auto
  have "cnt ?s ob = padd X Y ob + irefs ?P' ?s ob" for ob
    using refs_okD [OF invD(9) [OF i], of ob] irefs_mono [OF f(2) sub, of ob]
    by (simp add: c ir padd_app Y_def)
  moreover have "queues_ok L ?s" using invD(6) [OF i] by (simp add: queues_ok_def)
  moreover have "requests_ok L ?s"
    unfolding requests_ok_def
  proof (intro conjI allI impI)
    fix p x
    assume p: "queues ?s p \<noteq> None" "x \<in> set (L p)"
    then obtain R where "requests s x = Some R"
      "r_event R \<noteq> 0 \<Longrightarrow> \<exists>V. events s (r_event R) = Some V \<and> e_queue V = p"
      "r_in_data R \<noteq> 0 \<Longrightarrow> blocks s (r_in_data R) \<noteq> None"
      using pending_request [OF i, of p x] by (auto split: if_splits)
    then show "\<exists>R. requests ?s x = Some R \<and>
        (r_event R \<noteq> 0 \<longrightarrow> (\<exists>V. events ?s (r_event R) = Some V \<and> e_queue V = p)) \<and>
        (r_in_data R \<noteq> 0 \<longrightarrow> blocks ?s (r_in_data R) \<noteq> None)"
      by auto
  next
    fix x x' Rx Rx'
    assume "x \<in> pend L ?s" "x' \<in> pend L ?s" "requests ?s x = Some Rx" "requests ?s x' = Some Rx'"
      "r_in_data Rx = r_in_data Rx'" "r_in_data Rx \<noteq> 0"
    then show "x = x'" using pending_distinct [OF i, of x x' Rx Rx'] sub by auto
  qed
  moreover have "maps_ok ?s" "counts_ok ?s" "devices_ok ?s" "buffers_ok ?s" "groups_ok ?s" "events_ok ?s"
    using invD(1-5,7) [OF i] by (auto simp: maps_ok_def)
  ultimately have "inv (padd X Y) L ?s" by (simp add: inv_def store_ok_def refs_ok_def)
  moreover have "Y = (\<lambda>_. 0)" if "L q = []"
  proof -
    have "?P' = ?P" unfolding set_eq_iff pend_mem dom using that by auto
    then show ?thesis by (simp add: Y_def fun_eq_iff)
  qed
  ultimately show ?thesis by blast
qed

end
