(* ===== verification/Xrp_Worker.thy ===== *)
theory Xrp_Worker
  imports Xrp_Queue_Refs
begin

text \<open>
  The worker of a queue and the operations that end queues and events keep the store in order.
\<close>

section \<open>Running a command for a queue\<close>

definition member_inout :: "xrp_state \<Rightarrow> xrp_buffer_group_record \<Rightarrow> sprd_vdsp_inout" where
  "member_inout s r = (let B = the (buffers s (gr_buffer r))
     in \<lparr>io_fd = b_ion_fd B, io_vir_addr = b_ptr B, io_phy_addr = 0, io_size = ucast (b_size B),
         io_flag = translate_access_flag (gr_access_flags r)\<rparr>)"

lemma client_buffers_eq:
  "(\<And>j. j < k \<Longrightarrow> slot G (i + of_nat j) = Some (rs ! j)) \<Longrightarrow> length rs = k \<Longrightarrow>
   (\<And>r. r \<in> set rs \<Longrightarrow> buffers s (gr_buffer r) \<noteq> None) \<Longrightarrow>
   client_buffers s G k i = Some (map (member_inout s) rs)"
proof (induction k arbitrary: i rs)
  case (Suc k)
  obtain r rs' where rs: "rs = r # rs'" using Suc.prems(2) by (cases rs) auto
  have "client_buffers s G k (i + 1) = Some (map (member_inout s) rs')"
  proof (rule Suc.IH)
    show "slot G (i + 1 + of_nat j) = Some (rs' ! j)" if "j < k" for j
      using Suc.prems(1) [of "Suc j"] that by (simp add: rs algebra_simps)
  qed (use Suc.prems(2,3) rs in simp_all)
  then show ?case using Suc.prems(1) [of 0] Suc.prems(3) [of r]
    by (auto simp: rs member_inout_def Let_def)
qed simp

lemma client_buffers_allocs [simp]: "client_buffers (s\<lparr>allocs := n\<rparr>) G k i = client_buffers s G k i"
  by (induction k arbitrary: i) simp_all

lemma group_members_eq:
  assumes i: "inv X L s" and g: "groups s g = Some G"
  shows "client_buffers s G (unat (g_n_buffers G)) 0 = Some (map (member_inout s) (group_records G))"
proof (rule client_buffers_eq)
  have ok: "group_ok G" using live_group_ok [OF i g] by simp
  show "slot G (0 + of_nat j) = Some (group_records G ! j)" if "j < unat (g_n_buffers G)" for j
    by (rule slot_of_nat [OF ok that])
  show "length (group_records G) = unat (g_n_buffers G)" by (rule group_records_length [OF ok])
qed (rule member_live [OF i g])

lemma members_have_memory:
  assumes f: "fds_ok s" and i: "inv X L s" and g: "groups s g = Some G"
  shows "\<not> needs_memory (map (member_inout s) (group_records G)) k"
proof
  assume "needs_memory (map (member_inout s) (group_records G)) k"
  then obtain r where r: "r \<in> set (group_records G)" "io_fd (member_inout s r) = - 1"
    by (auto simp: needs_memory_def dest!: in_set_takeD)
  obtain B where "buffers s (gr_buffer r) = Some B" using member_live [OF i g r(1)] by auto
  then show False using f r(2) by (auto simp: fds_ok_def member_inout_def)
qed

text \<open>What a call of the queue's worker leaves: the store in order, up to lost references, with
  every descriptor still there and the queues untouched.\<close>

definition ran :: "refs \<Rightarrow> (ptr \<Rightarrow> ptr list) \<Rightarrow> xrp_state \<Rightarrow> xrp_state \<Rightarrow> bool" where
  "ran X L s t \<longleftrightarrow> linv X L t \<and> keeps s t \<and> fds_ok t"

lemma send_cmd_ran:
  assumes i: "inv X L s" and f: "fds_ok s" and d: "0 < cnt s (Dev d)" and ns: "0 \<in> set nsid"
    and n: "unat num \<le> length buffer" and m: "\<not> needs_memory buffer (unat num)"
  shows "returns (sprd_vdsp_send_cmd_direc E d nsid inp out buffer num pr s) (\<lambda>(r, t).
    ran X L s t \<and> r \<in> {SPRD_VDSP_RESULT_SUCCESS, SPRD_VDSP_RESULT_FAIL})"
proof -
  have room: "needs_memory buffer (unat num) \<longrightarrow> cnt s (Dev d) + unat num < 2 ^ 64" using m by simp
  have "returns (sprd_vdsp_send_command_directly E d nsid inp out buffer num pr s) (sent X L s)"
    using send_directly_inv [OF i d room n ns, of E inp out pr] m by simp
  then obtain r t where r: "sprd_vdsp_send_command_directly E d nsid inp out buffer num pr s = Some (r, t)"
    and st: "sent X L s (r, t)" by (elim returnsE) (metis surj_pair)
  have "tidy s t" using alwaysD [OF send_directly_tidy [OF tidy_refl m] r] by simp
  then have "ran X L s t" using st f unfolding ran_def sent_def tidy_def
    by (auto simp: hold_padd [of X] intro: linvI)
  then show ?thesis by (simp add: sprd_vdsp_send_cmd_direc_def r)
qed

lemma run_command_ran:
  assumes i: "inv X L s" and f: "fds_ok s" and Q: "queues s q = Some Q"
    and d: "0 < cnt s (Dev (q_device Q))" and g: "g \<noteq> 0 \<Longrightarrow> 0 < cnt s (Grp g)"
  shows "returns (xrp_run_command E q a b c u v w g s) (\<lambda>(st, t). ran X L s t \<and>
    st \<in> {XRP_STATUS_SUCCESS, XRP_STATUS_FAILURE})"
proof -
  note ns = live_queue_ok(2) [OF i Q]
  show ?thesis
  proof (cases "g = 0")
    case True
    have "\<not> needs_memory [] (unat (0 :: u32))" by (simp add: needs_memory_def)
    from send_cmd_ran [OF i f d ns _ this, of E "client_inout a b c" "client_inout u v w" "q_priority Q"]
    show ?thesis by (auto elim!: returnsE simp: xrp_run_command_def True Q result_int_def)
  next
    case False
    obtain G where G: "groups s g = Some G" using g [OF False] by (auto split: option.splits)
    have ok: "group_ok G" using live_group_ok [OF i G] by simp
    then have lock: "g_mutex G = False" by (simp add: group_ok_def)
    note eq = group_members_eq [OF i G]
    have id: "put_group g (G\<lparr>g_mutex := False\<rparr>) t = t" if "groups t = groups s" for t
      using put_group_idem [of t g G] that G group_ok_unlocked [OF ok] by simp
    define s1 where "s1 = (if g_n_buffers G > 0 then s\<lparr>allocs := Suc (allocs s)\<rparr> else s)"
    have s1: "inv X L s1" "fds_ok s1" "keeps s s1" "groups s1 = groups s" "queues s1 = queues s"
      "devices s1 = devices s"
      using i f by (auto simp: s1_def fds_ok_def)
    have d1: "0 < cnt s1 (Dev (q_device Q))" using d s1(6) by simp
    let ?bs = "map (member_inout s) (group_records G)"
    have n: "unat (ucast (g_n_buffers G) :: u32) \<le> length ?bs"
      using group_records_length [OF ok] by (simp add: unsigned_ucast_eq take_bit_nat_less_eq_self)
    note m = members_have_memory [OF f i G, of "unat (ucast (g_n_buffers G) :: u32)"]
    have sc: "returns (sprd_vdsp_send_cmd_direc E (q_device Q) (q_nsid Q) (client_inout a b c)
        (client_inout u v w) ?bs (ucast (g_n_buffers G)) (q_priority Q) s1) (\<lambda>(r, t).
        ran X L s t \<and> r \<in> {SPRD_VDSP_RESULT_SUCCESS, SPRD_VDSP_RESULT_FAIL})"
      using send_cmd_ran [OF s1(1,2) d1 ns n m, of E "client_inout a b c" "client_inout u v w" "q_priority Q"]
      by (rule returns_mono) (use keeps_trans [OF s1(3)] in \<open>auto simp: ran_def\<close>)
    have s0: "ran X L s s1" using s1 by (simp add: ran_def inv_linv)
    show ?thesis
      unfolding xrp_run_command_def
      using sc s0 False id [of s1] id [of s] s1(4)
      by (auto elim!: returnsE simp: G lock lock_defs eq malloc_def Let_def Q s1(5) s1_def result_int_def
          split: if_splits)
  qed
qed

section \<open>Giving up a queue\<close>

lemma put_queue_simps [simp]:
  "queues (put_queue q Q s) = (queues s)(q \<mapsto> Q)" "devices (put_queue q Q s) = devices s"
  "buffers (put_queue q Q s) = buffers s" "groups (put_queue q Q s) = groups s"
  "events (put_queue q Q s) = events s" "requests (put_queue q Q s) = requests s"
  "next_item (put_queue q Q s) = next_item s" "blocks (put_queue q Q s) = blocks s"
  "sync_exit (put_queue q Q s) = sync_exit s" "trace (put_queue q Q s) = trace s"
  "put_queue q Q' (put_queue q Q s) = put_queue q Q' s"
  by (simp_all add: put_queue_def)

lemma fds_ok_simps [simp]:
  "fds_ok (s\<lparr>trace := tr\<rparr>) = fds_ok s" "fds_ok (s\<lparr>devices := dv\<rparr>) = fds_ok s"
  "fds_ok (s\<lparr>queues := qu\<rparr>) = fds_ok s" "fds_ok (s\<lparr>events := ev\<rparr>) = fds_ok s"
  "fds_ok (s\<lparr>requests := rq\<rparr>) = fds_ok s" "fds_ok (s\<lparr>blocks := bl\<rparr>) = fds_ok s"
  "fds_ok (s\<lparr>sync_exit := sx\<rparr>) = fds_ok s" "fds_ok (s\<lparr>allocs := n\<rparr>) = fds_ok s"
  "fds_ok (s\<lparr>next_item := nx\<rparr>) = fds_ok s" "fds_ok (put_queue q Q s) = fds_ok s"
  "fds_ok (put_event v V s) = fds_ok s"
  by (simp_all add: fds_ok_def put_queue_def put_event_def)

lemma inv_queue_impl:
  assumes i: "inv X L s" and Q: "queues s q = Some Q" "q_count Q = 0"
    and m: "\<not> rq_cond m" "rq_request_queue m = rq_request_queue (q_impl Q)"
  shows "inv X L (put_queue q (Q\<lparr>q_impl := m\<rparr>) s)"
proof -
  let ?s = "put_queue q (Q\<lparr>q_impl := m\<rparr>) s"
  have "queues_ok L ?s" using invD(6) [OF i] Q m by (simp add: queues_ok_def)
  moreover have "requests_ok L ?s" using invD(8) [OF i] Q by (simp add: requests_ok_def put_queue_def)
  moreover have "maps_ok ?s" "counts_ok ?s" "devices_ok ?s" "buffers_ok ?s" "groups_ok ?s" "events_ok ?s"
    using invD(1-5,7) [OF i] Q by (auto simp: maps_ok_def put_queue_def)
  moreover have "pend L ?s = pend L s" using Q by (simp add: put_queue_def)
  moreover have "refs_ok X (pend L s) ?s"
    using invD(9) [OF i] by (simp add: refs_ok_def cnt_queue_upd [OF Q(1)] irefs_queue_upd [OF Q(1)])
  ultimately show ?thesis by (simp add: inv_def store_ok_def)
qed

lemma release_device_put:
  assumes i: "inv (add1 (Dev d) X) L s"
  obtains dv tr where "xrp_release_device E d s = Some (s\<lparr>devices := dv, trace := tr\<rparr>)"
    and "inv X L (s\<lparr>devices := dv, trace := tr\<rparr>)"
proof -
  have x: "0 < add1 (Dev d) X (Dev d)" by simp
  obtain D where D: "devices s d = Some D" using owned_live(1) [OF i x] by blast
  have "devices s 0 = None" using invD(1) [OF i] by (simp add: maps_ok_def)
  note eq = release_device_eq [OF invD(3) [OF i] this D, of E]
  moreover have "inv X L (s\<lparr>devices := released_devices (devices s) d,
      trace := trace s @ released_calls (devices s) d\<rparr>)"
    using release_device_inv [OF i x, of E] by (simp add: eq)
  ultimately show ?thesis using that by blast
qed

text \<open>A dying queue that has been stopped: its device goes back and it leaves the store.\<close>

lemma queue_leaves:
  assumes i: "inv (add1 (Dev (q_device Q)) X) L s" and Q: "queues s q = Some Q" "q_count Q = 0"
  shows "returns (do { s \<leftarrow> xrp_release_device E (q_device Q) s; Some (s\<lparr>queues := (queues s)(q := None)\<rparr>) })
    (\<lambda>t. (\<exists>Y. inv (padd X Y) L t \<and> (L q = [] \<longrightarrow> Y = (\<lambda>_. 0))) \<and>
      (\<exists>dv tr. t = s\<lparr>queues := (queues s)(q := None), devices := dv, trace := tr\<rparr>))"
proof -
  obtain dv tr where r: "xrp_release_device E (q_device Q) s = Some (s\<lparr>devices := dv, trace := tr\<rparr>)"
    and i1: "inv X L (s\<lparr>devices := dv, trace := tr\<rparr>)" by (rule release_device_put [OF i])
  have eq: "s\<lparr>devices := dv, trace := tr, queues := m\<rparr> = s\<lparr>queues := m, devices := dv, trace := tr\<rparr>" for m
    by (cases s) simp
  show ?thesis using inv_queue_gone [OF i1, of q Q] Q by (simp add: r eq) blast
qed

lemma inv_queue_drop:
  assumes i: "inv (add1 (Que q) X) L s" and Q: "queues s q = Some Q" "q_count Q \<noteq> 1"
  shows "inv X L (put_queue q (Q\<lparr>q_count := q_count Q - 1\<rparr>) s)" and "q_count Q - 1 \<noteq> 0"
proof -
  have c0: "q_count Q \<noteq> 0" using owned_live(4) [OF i, of q] Q by simp
  note c = release_count [OF c0 Q(2)]
  show "q_count Q - 1 \<noteq> 0" by (rule c(1))
  have "inv ((add1 (Que q) X)(Que q := X (Que q))) L (put_queue q (Q\<lparr>q_count := q_count Q - 1\<rparr>) s)"
    unfolding put_queue_def by (rule inv_queue_count [OF i Q(1) c(1) c0]) (use c in simp)
  then show "inv X L (put_queue q (Q\<lparr>q_count := q_count Q - 1\<rparr>) s)" by simp
qed

text \<open>The worker itself gives up a reference to its queue.\<close>

lemma release_queue_self:
  assumes i: "inv (add1 (Que q) X) L s" and Q: "queues s q = Some Q"
  shows "returns (xrp_release_queue_in run E q q s) (\<lambda>t. linv X L t \<and>
    ((\<exists>dv tr sx. t = s\<lparr>queues := (queues s)(q := None), devices := dv, trace := tr, sync_exit := sx\<rparr> \<and> sx q) \<or>
     (\<exists>c. c \<noteq> 0 \<and> t = put_queue q (Q\<lparr>q_count := c\<rparr>) s)))"
proof (cases "q_count Q = 1")
  case False
  have "xrp_release_queue_in run E q q s = Some (put_queue q (Q\<lparr>q_count := q_count Q - 1\<rparr>) s)"
    using False by (simp add: xrp_release_queue_in_def last_release_refcounted_def Q)
  then show ?thesis using inv_queue_drop [OF i Q False] inv_linv unfolding returns_iff by blast
next
  case True
  let ?Q = "Q\<lparr>q_count := 0\<rparr>"
  let ?m = "(q_impl Q)\<lparr>rq_cond := False, rq_exit := True\<rparr>"
  let ?s = "(put_queue q (?Q\<lparr>q_impl := ?m\<rparr>) s)\<lparr>sync_exit := (sync_exit s)(q := True)\<rparr>"
  have th: "rq_thread (q_impl Q)" "\<not> rq_cond (q_impl Q)"
    using live_queue_ok [OF i Q] True by simp_all
  have "inv (add1 (Dev (q_device Q)) X) L (put_queue q (?Q\<lparr>q_impl := ?m\<rparr>) (put_queue q ?Q s))"
    by (rule inv_queue_impl [OF inv_queue_dying(1) [OF i Q True]]) simp_all
  then have i2: "inv (add1 (Dev (q_device (?Q\<lparr>q_impl := ?m\<rparr>))) X) L ?s" by simp
  have eq: "xrp_release_queue_in run E q q s = do { s \<leftarrow> xrp_release_device E (q_device (?Q\<lparr>q_impl := ?m\<rparr>)) ?s;
      Some (s\<lparr>queues := (queues s)(q := None)\<rparr>) }"
    using th by (simp add: xrp_release_queue_in_def last_release_refcounted_def Q True
        xrp_impl_release_queue_def xrp_queue_destroy_def lock_defs Let_def)
  have s: "?s\<lparr>queues := (queues ?s)(q := None), devices := dv, trace := tr\<rparr> =
      s\<lparr>queues := (queues s)(q := None), devices := dv, trace := tr, sync_exit := (sync_exit s)(q := True)\<rparr>"
    for dv tr by (cases s) (simp add: put_queue_def)
  have "\<exists>dv tr sx. t = s\<lparr>queues := (queues s)(q := None), devices := dv, trace := tr, sync_exit := sx\<rparr> \<and> sx q"
    if "t = ?s\<lparr>queues := (queues ?s)(q := None), devices := dv, trace := tr\<rparr>" for t dv tr
    by (rule exI [of _ dv], rule exI [of _ tr], rule exI [of _ "(sync_exit s)(q := True)"])
      (simp only: that s fun_upd_same simp_thms)
  then show ?thesis
    unfolding eq using linvI by (intro returns_mono [OF queue_leaves [OF i2]]) (simp_all, blast)
qed

end
