(* ===== verification/Xrp_Process.thy ===== *)
theory Xrp_Process
  imports Xrp_Worker
begin

text \<open>
  One request from the list to its end: the worker runs it, gives back its group, completes its
  event, gives up its reference to it and frees the request. \<open>processed\<close> says what that leaves;
  a worker whose queue is dying drains the list and stops.
\<close>

section \<open>Events\<close>

lemma put_event_simps [simp]:
  "queues (put_event v V s) = queues s" "devices (put_event v V s) = devices s"
  "buffers (put_event v V s) = buffers s" "groups (put_event v V s) = groups s"
  "events (put_event v V s) = (events s)(v \<mapsto> V)" "requests (put_event v V s) = requests s"
  "next_item (put_event v V s) = next_item s" "blocks (put_event v V s) = blocks s"
  "sync_exit (put_event v V s) = sync_exit s" "mem (put_event v V s) = mem s"
  "put_event v V' (put_event v V s) = put_event v V' s"
  by (simp_all add: put_event_def)

lemma inv_event_status:
  assumes i: "inv X L s" and V: "events s v = Some V"
    and V': "e_count V' = e_count V" "e_queue V' = e_queue V" "\<not> e_cond V'"
  shows "inv X L (put_event v V' s)"
proof -
  let ?s = "put_event v V' s"
  have "requests_ok L ?s"
    unfolding requests_ok_def
  proof (intro conjI allI impI)
    fix p x
    assume p: "queues ?s p \<noteq> None" "x \<in> set (L p)"
    then obtain R where R: "requests s x = Some R"
      "r_event R \<noteq> 0 \<Longrightarrow> \<exists>V. events s (r_event R) = Some V \<and> e_queue V = p"
      "r_in_data R \<noteq> 0 \<Longrightarrow> blocks s (r_in_data R) \<noteq> None"
      using pending_request [OF i, of p x] by auto
    then show "\<exists>R. requests ?s x = Some R \<and>
        (r_event R \<noteq> 0 \<longrightarrow> (\<exists>V. events ?s (r_event R) = Some V \<and> e_queue V = p)) \<and>
        (r_in_data R \<noteq> 0 \<longrightarrow> blocks ?s (r_in_data R) \<noteq> None)"
      using V V'(2) by auto
  next
    fix x x' Rx Rx'
    assume "x \<in> pend L ?s" "x' \<in> pend L ?s" "requests ?s x = Some Rx" "requests ?s x' = Some Rx'"
      "r_in_data Rx = r_in_data Rx'" "r_in_data Rx \<noteq> 0"
    then show "x = x'" using pending_distinct [OF i, of x x' Rx Rx'] by (simp add: put_event_def)
  qed
  moreover have "maps_ok ?s" "counts_ok ?s" "devices_ok ?s" "buffers_ok ?s" "groups_ok ?s"
    "queues_ok L ?s" "events_ok ?s"
    using invD(1-7) [OF i] V V'
    by (auto simp: maps_ok_def counts_ok_def events_ok_def devices_ok_def buffers_ok_def groups_ok_def
        queues_ok_def put_event_def)
  moreover have "cnt ?s ob = X ob + irefs (pend L s) ?s ob" for ob
  proof -
    have e: "msum ((events s)(v \<mapsto> V')) (event_que q) = msum (events s) (event_que q)" for q
      by (rule msum_upd_same [where m = "events s" and k = v, OF V]) (simp add: event_que_def V')
    show ?thesis using refs_okD [OF invD(9) [OF i], of ob] e V V' by (cases ob) (auto simp: put_event_def)
  qed
  moreover have "pend L ?s = pend L s" by (simp add: put_event_def)
  ultimately show ?thesis by (simp add: inv_def store_ok_def refs_ok_def)
qed

lemma inv_event_drop:
  assumes i: "inv (add1 (Evt v) X) L s" and V: "events s v = Some V" "e_count V \<noteq> 1"
  shows "inv X L (put_event v (V\<lparr>e_count := e_count V - 1\<rparr>) s)" and "e_count V - 1 \<noteq> 0"
proof -
  have c0: "e_count V \<noteq> 0" using owned_live(5) [OF i, of v] V by simp
  note c = release_count [OF c0 V(2)]
  show "e_count V - 1 \<noteq> 0" by (rule c(1))
  have "inv ((add1 (Evt v) X)(Evt v := X (Evt v))) L (put_event v (V\<lparr>e_count := e_count V - 1\<rparr>) s)"
    unfolding put_event_def by (rule inv_event_count [OF i V(1) c(1) c0]) (use c in simp)
  then show "inv X L (put_event v (V\<lparr>e_count := e_count V - 1\<rparr>) s)" by simp
qed

text \<open>What a release by the worker does to its queue: nothing, one reference less, or gone.\<close>

definition queue_after :: "ptr \<Rightarrow> xrp_state \<Rightarrow> xrp_state \<Rightarrow> bool" where
  "queue_after q s t \<longleftrightarrow> (\<forall>p. p \<noteq> q \<longrightarrow> queues t p = queues s p) \<and>
     (sync_exit t q \<and> queues t q = None \<or>
      sync_exit t q = sync_exit s q \<and>
        (\<exists>Q c. queues s q = Some Q \<and> c \<noteq> 0 \<and> queues t q = Some (Q\<lparr>q_count := c\<rparr>)))"

lemma queue_after_cong:
  "queue_after q s t \<Longrightarrow> queues s' = queues s \<Longrightarrow> sync_exit s' = sync_exit s \<Longrightarrow>
   queues t' = queues t \<Longrightarrow> sync_exit t' = sync_exit t \<Longrightarrow> queue_after q s' t'"
  by (simp add: queue_after_def)

lemma queue_after_live: "queue_after q s t \<Longrightarrow> queues t p \<noteq> None \<Longrightarrow> queues s p \<noteq> None"
  by (cases "p = q") (auto simp: queue_after_def)

lemma queue_after_refl:
  "queues s q = Some Q \<Longrightarrow> q_count Q \<noteq> 0 \<Longrightarrow> queues t = queues s \<Longrightarrow> sync_exit t = sync_exit s \<Longrightarrow> queue_after q s t"
  by (auto simp: queue_after_def intro!: exI [of _ "q_count Q"])

definition event_after :: "ptr \<Rightarrow> xrp_state \<Rightarrow> xrp_state \<Rightarrow> bool" where
  "event_after v s t \<longleftrightarrow> (\<forall>p. p \<noteq> v \<longrightarrow> events t p = events s p) \<and>
     (\<forall>V. events t v = Some V \<longrightarrow> (\<exists>V0. events s v = Some V0 \<and> e_status V = e_status V0 \<and> e_queue V = e_queue V0))"

text \<open>The rest of the store that these operations leave alone.\<close>

definition rest_kept :: "xrp_state \<Rightarrow> xrp_state \<Rightarrow> bool" where
  "rest_kept s t \<longleftrightarrow> requests t = requests s \<and> next_item t = next_item s \<and> blocks t = blocks s \<and>
     buffers t = buffers s"

lemma release_queue_worker:
  assumes i: "inv (add1 (Que q) X) L s" and Q: "queues s q = Some Q"
  shows "returns (xrp_release_queue_in run E q q s) (\<lambda>t. linv X L t \<and> queue_after q s t \<and>
    events t = events s \<and> rest_kept s t)"
  by (rule returns_mono [OF release_queue_self [OF i Q]])
    (auto simp: queue_after_def rest_kept_def Q put_queue_def)

lemma linv_event_gone:
  "linv X L s \<Longrightarrow> events s v = Some V \<Longrightarrow> e_count V = 0 \<Longrightarrow> linv X L (s\<lparr>events := (events s)(v := None)\<rparr>)"
  unfolding linv_def using inv_event_gone by blast

lemma release_event_worker:
  assumes i: "inv (add1 (Evt v) X) L s" and V: "events s v = Some V" "e_queue V = q" and Q: "queues s q = Some Q" "q_count Q \<noteq> 0"
  shows "returns (xrp_release_event_in run E q v s) (\<lambda>t. linv X L t \<and> queue_after q s t \<and>
    event_after v s t \<and> rest_kept s t)"
proof (cases "e_count V = 1")
  case False
  let ?t = "put_event v (V\<lparr>e_count := e_count V - 1\<rparr>) s"
  have "xrp_release_event_in run E q v s = Some ?t"
    using V False by (simp add: xrp_release_event_in_def last_release_refcounted_def)
  moreover have "queue_after q s ?t" by (rule queue_after_refl [OF Q]) simp_all
  moreover have "event_after v s ?t" using V(1) by (simp add: event_after_def)
  moreover have "rest_kept s ?t" by (simp add: rest_kept_def)
  ultimately show ?thesis using inv_linv [OF inv_event_drop(1) [OF i V(1) False]] by simp
next
  case True
  let ?s = "put_event v (V\<lparr>e_count := 0\<rparr>) s"
  have i2: "inv (add1 (Que q) X) L ?s" using inv_event_dying(1) [OF i V(1) True] V(2) by simp
  have q: "queues ?s q = Some Q" using Q by simp
  obtain t where t: "xrp_release_queue_in run E q q ?s = Some t" "linv X L t" "queue_after q ?s t"
      "events t = events ?s" "rest_kept ?s t"
    by (rule returnsE [OF release_queue_worker [OF i2 q]]) blast
  let ?t = "t\<lparr>events := (events t)(v := None)\<rparr>"
  have "xrp_release_event_in run E q v s = Some ?t"
    using V True t(1) by (simp add: xrp_release_event_in_def last_release_refcounted_def)
  moreover have "linv X L ?t" by (rule linv_event_gone [OF t(2), where V = "V\<lparr>e_count := 0\<rparr>"]) (simp_all add: t(4))
  moreover have "queue_after q s ?t" by (rule queue_after_cong [OF t(3)]) simp_all
  moreover have "event_after v s ?t" using t(4) by (simp add: event_after_def)
  moreover have "rest_kept s ?t" using t(5) by (simp add: rest_kept_def)
  ultimately show ?thesis by simp
qed

section \<open>A request\<close>

lemma inv_request_gone:
  assumes i: "inv X L s" and r: "r \<notin> pend L s"
    and b: "\<And>x R. x \<in> pend L s \<Longrightarrow> requests s x = Some R \<Longrightarrow> r_in_data R \<noteq> 0 \<Longrightarrow> r_in_data R \<noteq> d"
  shows "inv X L (s\<lparr>blocks := (blocks s)(d := None), requests := (requests s)(r := None)\<rparr>)"
proof -
  let ?s = "s\<lparr>blocks := (blocks s)(d := None), requests := (requests s)(r := None)\<rparr>"
  have "requests_ok L ?s"
    unfolding requests_ok_def
  proof (intro conjI allI impI)
    fix p x
    assume p: "queues ?s p \<noteq> None" "x \<in> set (L p)"
    then obtain R where R: "requests s x = Some R"
      "r_event R \<noteq> 0 \<Longrightarrow> \<exists>V. events s (r_event R) = Some V \<and> e_queue V = p"
      "r_in_data R \<noteq> 0 \<Longrightarrow> blocks s (r_in_data R) \<noteq> None"
      using pending_request [OF i, of p x] by auto
    have x: "x \<in> pend L s" using p by (auto simp: pend_mem)
    then have "x \<noteq> r" using r by blast
    then show "\<exists>R. requests ?s x = Some R \<and>
        (r_event R \<noteq> 0 \<longrightarrow> (\<exists>V. events ?s (r_event R) = Some V \<and> e_queue V = p)) \<and>
        (r_in_data R \<noteq> 0 \<longrightarrow> blocks ?s (r_in_data R) \<noteq> None)"
      using R b [OF x R(1)] by auto
  next
    fix x x' Rx Rx'
    assume "x \<in> pend L ?s" "x' \<in> pend L ?s" "requests ?s x = Some Rx" "requests ?s x' = Some Rx'"
      "r_in_data Rx = r_in_data Rx'" "r_in_data Rx \<noteq> 0"
    then show "x = x'" using pending_distinct [OF i, of x x' Rx Rx'] by (simp split: if_splits)
  qed
  moreover have "maps_ok ?s" using invD(1) [OF i] by (auto simp: maps_ok_def)
  moreover have "queues_ok L ?s" "events_ok ?s" "counts_ok ?s" "devices_ok ?s" "buffers_ok ?s" "groups_ok ?s"
    using invD(2-7) [OF i] by (auto simp: queues_ok_def)
  moreover have "cnt ?s ob = X ob + irefs (pend L s) ?s ob" for ob
  proof -
    have "(requests s)(r := None) |` pend L s = requests s |` pend L s"
      using r by (auto simp: restrict_map_def fun_eq_iff)
    then show ?thesis using refs_okD [OF invD(9) [OF i], of ob] by (cases ob) auto
  qed
  moreover have "pend L ?s = pend L s" by simp
  ultimately show ?thesis by (simp add: inv_def store_ok_def refs_ok_def)
qed

lemma carry_split:
  "carry R X = (if r_buffer_group R \<noteq> 0 then add1 (Grp (r_buffer_group R)) else (\<lambda>X. X))
     ((if r_event R \<noteq> 0 then add1 (Evt (r_event R)) else (\<lambda>X. X)) X)"
  by (simp add: carry_def add1_commute)

lemma linv_release_group:
  assumes i: "linv (add1 (Grp g) X) L s" and f: "fds_ok s"
  shows "returns (xrp_release_buffer_group E g s) (ran X L s)"
proof -
  obtain Y where "inv (padd (add1 (Grp g) X) Y) L s" using i by (auto simp: linv_def)
  then have i2: "inv (add1 (Grp g) (padd X Y)) L s" by simp
  have x: "0 < add1 (Grp g) (padd X Y) (Grp g)" by simp
  obtain t where t: "xrp_release_buffer_group E g s = Some t" "inv (padd X Y) L t" "keeps s t"
    by (rule returnsE [OF release_group_inv [OF i2 x, of E, unfolded add1_simps diff_Suc_1]]) auto
  have "fds_ok t" using alwaysD [OF release_group_tidy [OF tidy_refl] t(1)] f by (simp add: tidy_def)
  then show ?thesis using t by (auto simp: ran_def intro: linvI)
qed

definition completes :: "ptr \<Rightarrow> xrp_state \<Rightarrow> xrp_state \<Rightarrow> bool" where
  "completes v s t \<longleftrightarrow> (\<forall>p. p \<noteq> v \<longrightarrow> events t p = events s p) \<and>
     (\<forall>V. events t v = Some V \<longrightarrow> e_status V \<noteq> XRP_STATUS_PENDING \<and>
        (\<exists>V0. events s v = Some V0 \<and> e_queue V0 = e_queue V))"

lemma complete_and_release:
  assumes i: "linv (add1 (Evt v) X) L s" and V: "events s v = Some V" "e_queue V = q"
    and Q: "queues s q = Some Q" "q_count Q \<noteq> 0" and st: "st \<noteq> XRP_STATUS_PENDING"
  shows "returns (do { s \<leftarrow> complete_event v st s; xrp_release_event_in run E q v s })
    (\<lambda>t. linv X L t \<and> queue_after q s t \<and> completes v s t \<and> rest_kept s t)"
proof -
  obtain Y where Y: "inv (add1 (Evt v) (padd X Y)) L s" using i by (auto simp: linv_def)
  let ?V = "V\<lparr>e_status := st, e_cond := False\<rparr>"
  have c: "\<not> e_cond V" using invD(7) [OF Y] V(1) by (simp add: events_ok_def)
  have eq: "complete_event v st s = Some (put_event v ?V s)"
    using V(1) c by (simp add: complete_event_def lock_defs)
  have i2: "inv (add1 (Evt v) (padd X Y)) L (put_event v ?V s)"
    by (rule inv_event_status [OF Y V(1)]) simp_all
  have q: "queues (put_event v ?V s) q = Some Q" using Q by simp
  have v: "events (put_event v ?V s) v = Some ?V" "e_queue ?V = q" using V(2) by simp_all
  show ?thesis
    unfolding eq
    by (simp, rule returns_mono [OF release_event_worker [OF i2 v q Q(2), where run = run and E = E]])
      (use linv_weaken st V(1) in \<open>auto simp: rest_kept_def completes_def event_after_def intro: queue_after_cong\<close>)
qed

text \<open>The store after a request \<open>r\<close> of the queue \<open>q\<close> has been run.\<close>

definition processed :: "ptr \<Rightarrow> ptr \<Rightarrow> xrp_request \<Rightarrow> xrp_state \<Rightarrow> xrp_state \<Rightarrow> bool" where
  "processed q r R s t \<longleftrightarrow> next_item t = next_item s \<and> requests t = (requests s)(r := None) \<and>
     blocks t = (blocks s)(r_in_data R := None) \<and> fds_ok t \<and>
     (if r_event R = 0 then queues t = queues s \<and> events t = events s \<and> sync_exit t = sync_exit s
      else queue_after q s t \<and> completes (r_event R) s t)"

text \<open>Between the calls of the library every pending event has a request that waits in the list of
  a queue and will complete it.\<close>

definition tracked :: "(ptr \<Rightarrow> ptr list) \<Rightarrow> xrp_state \<Rightarrow> bool" where
  "tracked L s \<longleftrightarrow> (\<forall>v V. v \<noteq> 0 \<longrightarrow> events s v = Some V \<longrightarrow> e_status V = XRP_STATUS_PENDING \<longrightarrow>
     (\<exists>r R. r \<in> pend L s \<and> requests s r = Some R \<and> r_event R = v))"

lemma pend_cong: "(\<And>p. queues t p \<noteq> None \<longleftrightarrow> queues s p \<noteq> None) \<Longrightarrow> pend L t = pend L s"
  unfolding set_eq_iff pend_mem by simp

lemma tracked_cong:
  "requests t = requests s \<Longrightarrow> events t = events s \<Longrightarrow> pend L t = pend L s \<Longrightarrow> tracked L t = tracked L s"
  by (simp add: tracked_def)

lemma tracked_sub:
  assumes "tracked L s" and "requests t = requests s" and "pend L s \<subseteq> pend L' t"
    and "\<And>v V. events t v = Some V \<Longrightarrow> \<exists>V0. events s v = Some V0 \<and> (e_status V = XRP_STATUS_PENDING \<longrightarrow> e_status V0 = XRP_STATUS_PENDING)"
  shows "tracked L' t"
  using assms unfolding tracked_def by (metis subsetD)

text \<open>The request has left the list but still holds its references (\<open>carry\<close>). Its queue is live
  or dying; in a dying queue no request has an event.\<close>

lemma request_process:
  assumes i: "inv (carry R X) L s" and R: "requests s r = Some R" "r \<notin> pend L s"
    and Q: "queues s q = Some Q" "0 < cnt s (Dev (q_device Q))" and f: "fds_ok s"
    and ev: "r_event R \<noteq> 0 \<Longrightarrow> q_count Q \<noteq> 0 \<and> (\<exists>V. events s (r_event R) = Some V \<and> e_queue V = q)"
    and data: "\<And>x R'. x \<in> pend L s \<Longrightarrow> requests s x = Some R' \<Longrightarrow> r_in_data R' \<noteq> 0 \<Longrightarrow> r_in_data R' \<noteq> r_in_data R"
  shows "returns (xrp_request_process run E q r s) (\<lambda>t. linv X L t \<and> processed q r R s t)"
proof -
  let ?Z = "(if r_event R \<noteq> 0 then add1 (Evt (r_event R)) else (\<lambda>X. X)) X"
  have g: "0 < cnt s (Grp (r_buffer_group R))" if "r_buffer_group R \<noteq> 0"
    using refs_okD [OF invD(9) [OF i], of "Grp (r_buffer_group R)"] that
    by (simp add: carry_simps request_grp_def)
  obtain st t1 where t1: "xrp_run_command E q (r_in_data R) (r_in_data_fd R) (r_in_data_size R)
      (r_out_data R) (r_out_data_fd R) (r_out_data_size R) (r_buffer_group R) s = Some (st, t1)"
      "ran (carry R X) L s t1" "st \<in> {XRP_STATUS_SUCCESS, XRP_STATUS_FAILURE}"
    by (rule returnsE [OF run_command_ran [OF i f Q g, where E = E]]) auto
  obtain t2 where t2: "(if r_buffer_group R \<noteq> 0 then xrp_release_buffer_group E (r_buffer_group R) t1 else Some t1) = Some t2"
      "ran ?Z L s t2"
  proof (cases "r_buffer_group R = 0")
    case True
    then show ?thesis using that [of t1] t1(2) by (simp add: carry_split)
  next
    case False
    then have "linv (add1 (Grp (r_buffer_group R)) ?Z) L t1" "fds_ok t1" "keeps s t1"
      using t1(2) unfolding ran_def carry_split by simp_all
    then show ?thesis using False that keeps_trans
      by (elim returnsE [OF linv_release_group [where E = E]]) (auto simp: ran_def)
  qed
  have k: "keeps s t2" "linv ?Z L t2" "fds_ok t2" using t2(2) by (simp_all add: ran_def)
  obtain t3 where t3: "(if r_event R \<noteq> 0
         then do { s \<leftarrow> complete_event (r_event R) st t2; xrp_release_event_in run E q (r_event R) s }
         else Some t2) = Some t3" "linv X L t3" "rest_kept t2 t3"
      "if r_event R = 0 then t3 = t2 else queue_after q t2 t3 \<and> completes (r_event R) t2 t3"
  proof (cases "r_event R = 0")
    case True
    then show ?thesis using that [of t2] k(2) by (simp add: rest_kept_def)
  next
    case False
    then obtain V where V: "events s (r_event R) = Some V" "e_queue V = q" and c: "q_count Q \<noteq> 0" using ev by blast
    have "events t2 (r_event R) = Some V" "queues t2 q = Some Q" using V Q(1) k(1) by (simp_all add: keeps_def)
    moreover have "linv (add1 (Evt (r_event R)) X) L t2" using k(2) False by simp
    moreover have "st \<noteq> XRP_STATUS_PENDING" using t1(3) by auto
    ultimately show ?thesis using False that V(2) c
      by (elim returnsE [OF complete_and_release [where v = "r_event R" and q = q and st = st and run = run and E = E]]) auto
  qed
  let ?t = "t3\<lparr>blocks := (blocks t3)(r_in_data R := None), requests := (requests t3)(r := None)\<rparr>"
  have eq: "xrp_request_process run E q r s = Some ?t"
    using t3(1) by (simp add: xrp_request_process_def R(1) t1(1) t2(1))
  have same: "requests t3 = requests s" "blocks t3 = blocks s" "next_item t3 = next_item s" "buffers t3 = buffers t2"
    using t3(3) k(1) by (simp_all add: rest_kept_def keeps_def)
  have "queues t3 p \<noteq> None \<Longrightarrow> queues s p \<noteq> None" for p
    using t3(4) k(1) queue_after_live [of q t2 t3 p] by (simp add: keeps_def split: if_splits)
  then have sub: "pend L t3 \<subseteq> pend L s" unfolding subset_iff pend_mem by blast
  have "linv X L ?t"
  proof -
    obtain Y where Y: "inv (padd X Y) L t3" using t3(2) by (auto simp: linv_def)
    have "inv (padd X Y) L ?t"
      by (rule inv_request_gone [OF Y]) (use sub R(2) data same(1) in auto)
    then show ?thesis by (rule linvI)
  qed
  moreover have "fds_ok ?t" using k(3) same(4) by (simp add: fds_ok_def)
  moreover have "processed q r R s ?t"
    using t3(4) k(1) same \<open>fds_ok ?t\<close>
    by (auto simp: processed_def keeps_def completes_def intro: queue_after_cong split: if_splits)
  ultimately show ?thesis by (simp add: eq)
qed

section \<open>A round of the worker\<close>

lemma inv_sync_exit [simp]: "inv X L (s\<lparr>sync_exit := e\<rparr>) = inv X L s"
  by (simp add: inv_def store_ok_def refs_ok_def)

lemma linv_sync_exit [simp]: "linv X L (s\<lparr>sync_exit := e\<rparr>) = linv X L s"
  by (simp add: linv_def)

lemma linv_queue_ok:
  assumes "linv X L s" and "queues s q = Some Q"
  shows "\<not> rq_cond (q_impl Q)" and "q_count Q \<noteq> 0 \<Longrightarrow> rq_thread (q_impl Q) \<and> \<not> rq_exit (q_impl Q)"
    and "rlist (next_item s) (rq_request_queue (q_impl Q)) (L q)"
    and "q_count Q \<noteq> 0 \<Longrightarrow> 0 < cnt s (Dev (q_device Q))"
proof -
  obtain Y where Y: "inv (padd X Y) L s" using assms(1) by (auto simp: linv_def)
  note q = live_queue_ok [OF Y assms(2)]
  show "\<not> rq_cond (q_impl Q)" by (rule q(1))
  show "rlist (next_item s) (rq_request_queue (q_impl Q)) (L q)" by (rule q(4))
  show "rq_thread (q_impl Q) \<and> \<not> rq_exit (q_impl Q)" if "q_count Q \<noteq> 0" by (rule q(3) [OF that])
  show "0 < cnt s (Dev (q_device Q))" if "q_count Q \<noteq> 0"
  proof -
    have "0 < msum (queues s) (queue_dev (q_device Q))"
      using invD(1) [OF Y] that assms(2) by (intro msum_pos) (auto simp: maps_ok_def queue_dev_def)
    then show ?thesis using refs_okD [OF invD(9) [OF Y], of "Dev (q_device Q)"] by simp
  qed
qed

lemma linv_request:
  assumes "linv X L s" and "queues s q \<noteq> None" and "r \<in> set (L q)"
  obtains R where "requests s r = Some R"
    and "r_event R \<noteq> 0 \<Longrightarrow> \<exists>V. events s (r_event R) = Some V \<and> e_queue V = q"
  using assms pending_request unfolding linv_def by metis

text \<open>The state the worker is in when it has taken \<open>r\<close> off the list.\<close>

definition taken :: "ptr \<Rightarrow> xrp_queue \<Rightarrow> request_list \<Rightarrow> xrp_state \<Rightarrow> xrp_state" where
  "taken q Q l s = put_queue q (relist Q l) (s\<lparr>sync_exit := (sync_exit s)(q := False)\<rparr>)"

lemma taken_simps [simp]:
  "queues (taken q Q l s) = (queues s)(q \<mapsto> relist Q l)" "requests (taken q Q l s) = requests s"
  "events (taken q Q l s) = events s" "next_item (taken q Q l s) = next_item s"
  "blocks (taken q Q l s) = blocks s" "sync_exit (taken q Q l s) = (sync_exit s)(q := False)"
  "devices (taken q Q l s) = devices s" "fds_ok (taken q Q l s) = fds_ok s" "cnt (taken q Q l s) (Dev d) = cnt s (Dev d)"
  by (simp_all add: taken_def)

lemma worker_step:
  assumes i: "linv X L s" and f: "fds_ok s" and Q: "queues s q = Some Q" and L: "L q = r # xs"
    and d: "0 < cnt s (Dev (q_device Q))"
    and dying: "q_count Q = 0 \<Longrightarrow> \<forall>R. requests s r = Some R \<longrightarrow> r_event R = 0"
  shows "returns (xrp_queue_process run E q s) (\<lambda>(again, t). \<exists>R l. requests s r = Some R \<and>
    linv X (L(q := xs)) t \<and> processed q r R (taken q Q l s) t \<and> again = (\<not> sync_exit t q))"
proof -
  obtain Y where "inv (padd X Y) L s" using i by (auto simp: linv_def)
  then have Y: "inv (padd X Y) L (s\<lparr>sync_exit := (sync_exit s)(q := False)\<rparr>)" by simp
  let ?s = "s\<lparr>sync_exit := (sync_exit s)(q := False)\<rparr>"
  have Q': "queues ?s q = Some Q" using Q by simp
  have rl: "rlist (next_item s) (rq_request_queue (q_impl Q)) (r # xs)"
    using linv_queue_ok(3) [OF i Q] L by simp
  obtain l where l: "xrp_dequeue_request (next_item s) (rq_request_queue (q_impl Q)) = (r, l)"
      "rlist (next_item s) l xs" by (rule dequeue_rlist [OF rl])
  have r0: "r \<noteq> 0" using rlist_nonzero [OF rl] by auto
  obtain R where R: "requests s r = Some R"
      "r_event R \<noteq> 0 \<Longrightarrow> \<exists>V. events s (r_event R) = Some V \<and> e_queue V = q"
    using linv_request [OF i, of q r] Q L by auto
  have R': "requests ?s r = Some R" and l': "rlist (next_item ?s) l xs" using R(1) l(2) by simp_all
  note dq = inv_dequeue [OF Y Q' L R' l', folded taken_def]
  have "set ((L(q := xs)) p) \<subseteq> set (L p)" "queues (taken q Q l s) p \<noteq> None \<longleftrightarrow> queues ?s p \<noteq> None" for p
    using Q L by auto
  then have sub: "pend (L(q := xs)) (taken q Q l s) \<subseteq> pend L ?s" unfolding subset_iff pend_mem by blast
  have mem: "r \<in> pend L ?s" unfolding pend_mem using Q L by (intro exI [of _ q]) simp
  have "returns (xrp_request_process run E q r (taken q Q l s)) (\<lambda>t. linv (padd X Y) (L(q := xs)) t \<and> processed q r R (taken q Q l s) t)"
  proof (rule request_process [OF dq(1) _ dq(2)])
    show "requests (taken q Q l s) r = Some R" "queues (taken q Q l s) q = Some (relist Q l)"
      "0 < cnt (taken q Q l s) (Dev (q_device (relist Q l)))" "fds_ok (taken q Q l s)"
      using R(1) d f by simp_all
    show "q_count (relist Q l) \<noteq> 0 \<and> (\<exists>V. events (taken q Q l s) (r_event R) = Some V \<and> e_queue V = q)"
      if "r_event R \<noteq> 0" using R dying that by auto
    show "r_in_data R' \<noteq> r_in_data R"
      if x: "x \<in> pend (L(q := xs)) (taken q Q l s)" "requests (taken q Q l s) x = Some R'" "r_in_data R' \<noteq> 0" for x R'
    proof
      assume "r_in_data R' = r_in_data R"
      then have "x = r" using pending_distinct [OF Y _ mem, of x R' R] x sub R(1) by auto
      then show False using x(1) dq(2) by simp
    qed
  qed
  then obtain t where t: "xrp_request_process run E q r (taken q Q l s) = Some t"
      "linv X (L(q := xs)) t" "processed q r R (taken q Q l s) t"
    using linv_weaken by (elim returnsE) blast
  have "xrp_queue_process run E q s = Some (\<not> sync_exit t q, t)"
    using Q l(1) r0 t(1) linv_queue_ok(1) [OF i Q]
    by (simp add: xrp_queue_process_def lock_defs taken_def relist_def put_queue_def)
  then show ?thesis using t R(1) by auto
qed

text \<open>With nothing to do and the order to stop, the worker ends.\<close>

lemma worker_stops:
  assumes i: "linv X L s" and Q: "queues s q = Some Q" "rq_exit (q_impl Q)" and L: "L q = []"
  shows "xrp_queue_process run E q s = Some (False, taken q Q (rq_request_queue (q_impl Q)) s)"
proof -
  have "rlist (next_item s) (rq_request_queue (q_impl Q)) []" using linv_queue_ok(3) [OF i Q(1)] L by simp
  note dequeue_empty [OF this]
  then show ?thesis using Q linv_queue_ok(1) [OF i Q(1)]
    by (simp add: xrp_queue_process_def lock_defs taken_def relist_def put_queue_def)
qed

text \<open>A round loses track of no event: the queue of a pending event is live, also when the round was
  the last of some other queue.\<close>

lemma event_queue_live:
  assumes i: "linv X L s" and V: "events s v = Some V" "e_count V \<noteq> 0"
  obtains Q where "queues s (e_queue V) = Some Q" and "q_count Q \<noteq> 0"
proof -
  obtain Y where Y: "inv (padd X Y) L s" using i by (auto simp: linv_def)
  have "0 < msum (events s) (event_que (e_queue V))"
    using invD(1) [OF Y] V by (intro msum_pos) (auto simp: maps_ok_def event_que_def)
  then have "0 < cnt s (Que (e_queue V))" using refs_okD [OF invD(9) [OF Y], of "Que (e_queue V)"] by simp
  then show thesis using that by (auto simp: unat_gt_0 split: option.splits)
qed

lemma processed_tracked:
  assumes i: "linv X L s" and t: "linv X (L(q := xs)) t" and p: "processed q r R (taken q Q l s) t"
    and R: "requests s r = Some R" and Q: "queues s q = Some Q" "L q = r # xs" and tr: "tracked L s"
  shows "tracked (L(q := xs)) t"
  unfolding tracked_def
proof (intro allI impI)
  fix v V
  assume v: "v \<noteq> 0" "events t v = Some V" "e_status V = XRP_STATUS_PENDING"
  obtain Y where Y: "inv (padd X Y) L s" using i by (auto simp: linv_def)
  have ne: "v \<noteq> r_event R" "events s v = Some V"
    using p v by (cases "v = r_event R"; auto simp: processed_def completes_def split: if_splits)+
  then obtain x R' where x: "x \<in> pend L s" "requests s x = Some R'" "r_event R' = v" using tr v unfolding tracked_def by blast
  have xr: "x \<noteq> r" using x R ne by auto
  obtain y where y: "queues s y \<noteq> None" "x \<in> set (L y)" using x(1) unfolding pend_mem by blast
  have "queues t y \<noteq> None"
  proof (cases "y = q")
    case True
    have "0 < msum (requests s |` pend L s) (request_evt v)"
      using invD(1) [OF Y] x v(1) by (intro msum_pos [where k = x]) (auto simp: maps_ok_def request_evt_def)
    then have "0 < cnt s (Evt v)" using refs_okD [OF invD(9) [OF Y], of "Evt v"] by simp
    then have c: "e_count V \<noteq> 0" using ne(2) by auto
    obtain R1 where "requests s x = Some R1" "r_event R1 \<noteq> 0 \<Longrightarrow> \<exists>V. events s (r_event R1) = Some V \<and> e_queue V = y"
      by (rule pending_request [OF Y y]) blast
    then have "e_queue V = y" using x(2,3) v(1) ne(2) by auto
    then show ?thesis using event_queue_live [OF t v(2) c] by (metis option.distinct(1))
  next
    case False
    then show ?thesis using y(1) p by (auto simp: processed_def queue_after_def split: if_splits)
  qed
  moreover have "x \<in> set ((L(q := xs)) y)" using y(2) Q(2) xr by auto
  ultimately have "x \<in> pend (L(q := xs)) t" unfolding pend_mem by blast
  then show "\<exists>r R. r \<in> pend (L(q := xs)) t \<and> requests t r = Some R \<and> r_event R = v"
    using x p xr by (intro exI [of _ x] exI [of _ R']) (simp add: processed_def)
qed

lemma tracked_taken: "queues s q = Some Q \<Longrightarrow> tracked L (taken q Q l s) = tracked L s"
  by (rule tracked_cong; (rule pend_cong)?; simp)

section \<open>A dying queue is drained\<close>

lemma linv_taken:
  assumes i: "linv X L s" and Q: "queues s q = Some Q" "q_count Q = 0"
  shows "linv X L (taken q Q (rq_request_queue (q_impl Q)) s)"
proof -
  let ?s = "s\<lparr>sync_exit := (sync_exit s)(q := False)\<rparr>"
  obtain Y where Y: "inv (padd X Y) L ?s" using i by (auto simp: linv_def)
  have Q': "queues ?s q = Some Q" using Q(1) by simp
  show ?thesis
    unfolding taken_def relist_def by (rule linvI [OF inv_queue_impl [OF Y Q' Q(2)]]) simp_all
qed

definition drained :: "ptr \<Rightarrow> xrp_queue \<Rightarrow> xrp_state \<Rightarrow> xrp_state \<Rightarrow> bool" where
  "drained q Q s t \<longleftrightarrow> (\<exists>l. queues t = (queues s)(q \<mapsto> relist Q l)) \<and> events t = events s \<and> fds_ok t \<and>
     next_item t = next_item s"

lemma drain:
  assumes "linv X L s" and "fds_ok s" and "queues s q = Some Q" and "q_count Q = 0"
    and "rq_exit (q_impl Q)" and "0 < X (Dev (q_device Q))"
    and "\<forall>r\<in>set (L q). \<forall>R. requests s r = Some R \<longrightarrow> r_event R = 0" and "length (L q) < n"
  shows "returns (xrp_queue_thread n E q s) (\<lambda>t. linv X (L(q := [])) t \<and> drained q Q s t \<and>
    (tracked L s \<longrightarrow> tracked (L(q := [])) t))"
  using assms
proof (induction n arbitrary: L s Q)
  case (Suc n)
  have d: "0 < cnt s (Dev (q_device Q))"
    using Suc.prems(1,6) by (auto simp: linv_def padd_app dest!: invD(9) refs_okD [where ob = "Dev (q_device Q)"])
  show ?case
  proof (cases "L q")
    case Nil
    then have "L(q := []) = L" by auto
    then show ?thesis
      using worker_stops [OF Suc.prems(1,3,5) Nil] linv_taken [OF Suc.prems(1,3,4)] Suc.prems(2,3)
      by (auto simp: drained_def tracked_taken)
  next
    case (Cons r xs)
    have dying: "\<forall>R. requests s r = Some R \<longrightarrow> r_event R = 0" using Suc.prems(7) Cons by simp
    obtain again t R l where t: "xrp_queue_process (xrp_queue_thread n E) E q s = Some (again, t)"
        "requests s r = Some R" "linv X (L(q := xs)) t" "processed q r R (taken q Q l s) t" "again = (\<not> sync_exit t q)"
      using worker_step [OF Suc.prems(1-3) Cons d dying, of "xrp_queue_thread n E" E] by (auto elim!: returnsE)
    have pr: "queues t = (queues s)(q \<mapsto> relist Q l)" "events t = events s" "\<not> sync_exit t q" "fds_ok t"
        "next_item t = next_item s" "requests t = (requests s)(r := None)"
      using t(4) dying t(2) by (simp_all add: processed_def)
    have tk: "tracked L s \<Longrightarrow> tracked (L(q := xs)) t"
      by (rule processed_tracked [OF Suc.prems(1) t(3,4,2) Suc.prems(3) Cons])
    have "returns (xrp_queue_thread n E q t) (\<lambda>u. linv X ((L(q := xs))(q := [])) u \<and> drained q (relist Q l) t u \<and>
        (tracked (L(q := xs)) t \<longrightarrow> tracked ((L(q := xs))(q := [])) u))"
      by (rule Suc.IH [OF t(3)]) (use Suc.prems pr Cons in auto)
    then have "returns (xrp_queue_thread n E q t) (\<lambda>u. linv X (L(q := [])) u \<and> drained q Q s u \<and>
        (tracked L s \<longrightarrow> tracked (L(q := [])) u))"
      by (rule returns_mono) (use pr tk in \<open>auto simp: drained_def relist_def\<close>)
    moreover have "xrp_queue_thread (Suc n) E q s = xrp_queue_thread n E q t" using t(1,5) pr(3) by simp
    ultimately show ?thesis by (simp only:)
  qed
qed simp

section \<open>A client gives up a queue\<close>

definition queue_left :: "ptr \<Rightarrow> xrp_queue \<Rightarrow> refs \<Rightarrow> (ptr \<Rightarrow> ptr list) \<Rightarrow> xrp_state \<Rightarrow> xrp_state \<Rightarrow> bool" where
  "queue_left q Q X L s t \<longleftrightarrow> fds_ok t \<and> events t = events s \<and> next_item t = next_item s \<and>
     (if q_count Q = 1 then linv X (L(q := [])) t \<and> queues t = (queues s)(q := None) \<and>
        (tracked L s \<longrightarrow> tracked (L(q := [])) t)
      else linv X L t \<and> queues t = (queues s)(q \<mapsto> Q\<lparr>q_count := q_count Q - 1\<rparr>) \<and> requests t = requests s)"

lemma release_queue_client:
  assumes i: "linv (add1 (Que q) X) L s" and f: "fds_ok s" and Q: "queues s q = Some Q" and n: "length (L q) < n"
  shows "returns (xrp_release_queue n E q s) (queue_left q Q X L s)"
proof -
  obtain Y where Y: "inv (add1 (Que q) (padd X Y)) L s" using i by (auto simp: linv_def)
  show ?thesis
  proof (cases "q_count Q = 1")
    case False
    have "xrp_release_queue n E q s = Some (put_queue q (Q\<lparr>q_count := q_count Q - 1\<rparr>) s)"
      using Q False by (simp add: xrp_release_queue_def xrp_release_queue_in_def last_release_refcounted_def)
    then show ?thesis using linvI [OF inv_queue_drop(1) [OF Y Q False]] f False by (simp add: queue_left_def)
  next
    case True
    let ?Q0 = "Q\<lparr>q_count := 0\<rparr>" and ?X = "padd X Y"
    let ?s0 = "put_queue q ?Q0 s"
    let ?Q1 = "?Q0\<lparr>q_impl := (q_impl Q)\<lparr>rq_cond := False, rq_exit := True\<rparr>\<rparr>"
    let ?s1 = "put_queue q ?Q1 ?s0"
    let ?X1 = "add1 (Dev (q_device Q)) ?X"
    note dy = inv_queue_dying [OF Y Q True]
    have i1: "inv ?X1 L ?s1"
      by (rule inv_queue_impl [where Q = ?Q0 and m = "(q_impl Q)\<lparr>rq_cond := False, rq_exit := True\<rparr>", simplified]) (use dy(1) in simp_all)
    have q0: "q \<noteq> 0" using invD(1) [OF Y] Q by (auto simp: maps_ok_def)
    have th: "rq_thread (q_impl Q)" "\<not> rq_cond (q_impl Q)" using live_queue_ok [OF Y Q] True by simp_all
    have dr: "returns (xrp_queue_thread n E q ?s1) (\<lambda>t. linv ?X1 (L(q := [])) t \<and> drained q ?Q1 ?s1 t \<and>
        (tracked L ?s1 \<longrightarrow> tracked (L(q := [])) t))"
      by (rule drain [OF inv_linv [OF i1]]) (use f dy(2) n in auto)
    then obtain t l where t: "xrp_queue_thread n E q ?s1 = Some t" "linv ?X1 (L(q := [])) t"
        "queues t = (queues s)(q \<mapsto> relist ?Q1 l)" "events t = events s" "fds_ok t" "next_item t = next_item s"
        "tracked L ?s1 \<longrightarrow> tracked (L(q := [])) t"
      by (auto elim!: returnsE simp: drained_def)
    have tk: "tracked L ?s1 = tracked L s"
      by (rule tracked_cong; (rule pend_cong)?; simp add: Q)
    have gone: "tracked (L(q := [])) u" if "tracked (L(q := [])) t" "requests u = requests t" "events u = events t"
      "queues u = (queues t)(q := None)" for u
    proof (rule tracked_sub [OF that(1,2)])
      have "queues u p \<noteq> None \<and> r \<in> set ((L(q := [])) p) \<longleftrightarrow> queues t p \<noteq> None \<and> r \<in> set ((L(q := [])) p)" for p r
        using that(4) by simp
      then show "pend (L(q := [])) t \<subseteq> pend (L(q := [])) u" unfolding subset_iff pend_mem by blast
    qed (use that(3) in simp)
    obtain Z where Z: "inv (add1 (Dev (q_device (relist ?Q1 l))) (padd X (padd Y Z))) (L(q := [])) t"
      using t(2) by (auto simp: linv_def)
    have tq: "queues t q = Some (relist ?Q1 l)" "q_count (relist ?Q1 l) = 0" using t(3) by simp_all
    have eq: "xrp_release_queue n E q s = do { s \<leftarrow> xrp_release_device E (q_device (relist ?Q1 l)) t; Some (s\<lparr>queues := (queues s)(q := None)\<rparr>) }"
      using Q True th q0 t(1) tq(1)
      by (simp add: xrp_release_queue_def xrp_release_queue_in_def last_release_refcounted_def
          xrp_impl_release_queue_def xrp_queue_destroy_def lock_defs)
    show ?thesis
      unfolding eq
      by (rule returns_mono [OF queue_leaves [OF Z tq]]) (use t True gone tk in \<open>auto simp: queue_left_def intro: linvI\<close>)
  qed
qed

end
