(* ===== verification/Xrp_Enqueue.thy ===== *)
theory Xrp_Enqueue
  imports Xrp_Process
begin

text \<open>
  Enqueueing a command: the request and its copy of the input enter the store, the event with
  the reference it holds to the queue, the reference to the group, and the request goes to the
  end of the queue's list.
\<close>

section \<open>New requests, blocks and events\<close>

lemma pend_request: "inv X L s \<Longrightarrow> r \<in> pend L s \<Longrightarrow> requests s r \<noteq> None"
  unfolding pend_mem using pending_request by (metis option.discI)

text \<open>When the pending requests, their events and their blocks survive, the requests stay in order.\<close>

lemma requests_okI:
  assumes i: "inv X L s"
    and sub: "\<And>p x. queues s' p \<noteq> None \<Longrightarrow> x \<in> set (L' p) \<Longrightarrow> queues s p \<noteq> None \<and> x \<in> set (L p)"
    and rq: "\<And>x. x \<in> pend L' s' \<Longrightarrow> requests s' x = requests s x"
    and ev: "\<And>x R V. x \<in> pend L' s' \<Longrightarrow> requests s x = Some R \<Longrightarrow> r_event R \<noteq> 0 \<Longrightarrow>
      events s (r_event R) = Some V \<Longrightarrow> \<exists>V'. events s' (r_event R) = Some V' \<and> e_queue V' = e_queue V"
    and bl: "\<And>x R. x \<in> pend L' s' \<Longrightarrow> requests s x = Some R \<Longrightarrow> r_in_data R \<noteq> 0 \<Longrightarrow>
      blocks s (r_in_data R) \<noteq> None \<Longrightarrow> blocks s' (r_in_data R) \<noteq> None"
  shows "requests_ok L' s'"
  unfolding requests_ok_def
proof (intro conjI allI impI)
  fix p x
  assume p: "queues s' p \<noteq> None" "x \<in> set (L' p)"
  then have x: "x \<in> pend L' s'" by (auto simp: pend_mem)
  obtain R where R: "requests s x = Some R"
      "r_event R \<noteq> 0 \<Longrightarrow> \<exists>V. events s (r_event R) = Some V \<and> e_queue V = p"
      "r_in_data R \<noteq> 0 \<Longrightarrow> blocks s (r_in_data R) \<noteq> None"
    using pending_request [OF i, of p x] sub [OF p] by auto
  then show "\<exists>R. requests s' x = Some R \<and>
        (r_event R \<noteq> 0 \<longrightarrow> (\<exists>V. events s' (r_event R) = Some V \<and> e_queue V = p)) \<and>
        (r_in_data R \<noteq> 0 \<longrightarrow> blocks s' (r_in_data R) \<noteq> None)"
    using rq [OF x] ev [OF x R(1)] bl [OF x R(1)] by fastforce
next
  fix x x' R R'
  assume p: "x \<in> pend L' s'" "x' \<in> pend L' s'" "requests s' x = Some R" "requests s' x' = Some R'"
    "r_in_data R = r_in_data R'" "r_in_data R \<noteq> 0"
  have "y \<in> pend L s" if "y \<in> pend L' s'" for y using that sub unfolding pend_mem by blast
  then show "x = x'" using pending_distinct [OF i, of x x' R R'] p rq [OF p(1)] rq [OF p(2)] by simp
qed

lemma inv_request_idle:
  assumes i: "inv X L s" and r: "r \<notin> pend L s" "r \<noteq> 0"
  shows "inv X L (s\<lparr>requests := (requests s)(r := R)\<rparr>)"
proof -
  let ?s = "s\<lparr>requests := (requests s)(r := R)\<rparr>"
  have "requests_ok L ?s"
    by (rule requests_okI [OF i]) (use r(1) in auto)
  moreover have "maps_ok ?s" using invD(1) [OF i] r(2) by (auto simp: maps_ok_def intro: finite_subset [of _ "insert r (dom (requests s))"])
  moreover have "queues_ok L ?s" "events_ok ?s" "counts_ok ?s" "devices_ok ?s" "buffers_ok ?s" "groups_ok ?s"
    using invD(2-7) [OF i] by (auto simp: queues_ok_def)
  moreover have "cnt ?s ob = X ob + irefs (pend L s) ?s ob" for ob
  proof -
    have "(requests s)(r := R) |` pend L s = requests s |` pend L s"
      using r by (auto simp: restrict_map_def fun_eq_iff)
    then show ?thesis using refs_okD [OF invD(9) [OF i], of ob] by (cases ob) auto
  qed
  ultimately show ?thesis by (simp add: inv_def store_ok_def refs_ok_def)
qed

lemma inv_blocks:
  assumes i: "inv X L s" and b: "\<And>p. blocks s p \<noteq> None \<Longrightarrow> bl p \<noteq> None"
  shows "inv X L (s\<lparr>blocks := bl\<rparr>)"
proof -
  have "requests_ok L (s\<lparr>blocks := bl\<rparr>)"
    by (rule requests_okI [OF i]) (use b in auto)
  moreover have "queues_ok L (s\<lparr>blocks := bl\<rparr>)" "events_ok (s\<lparr>blocks := bl\<rparr>)"
    using invD(6,7) [OF i] by (simp_all add: queues_ok_def events_ok_def)
  ultimately show ?thesis using invD(1-5,9) [OF i] by (simp add: inv_def store_ok_def refs_ok_def)
qed

text \<open>A new event with its two references, the creator's and the one the request will carry, and
  its reference to the queue.\<close>

lemma inv_event_new:
  assumes i: "inv X L s" and Q: "queues s q = Some Q" "q_count Q \<noteq> 0" "unat (q_count Q) + 1 < 2 ^ 64"
    and v: "v \<noteq> 0" "events s v = None"
  shows "X (Evt v) = 0"
    and "inv (X(Evt v := 2)) L (put_event v \<lparr>e_count = 2, e_queue = q, e_status = XRP_STATUS_PENDING, e_cond = False\<rparr>
      (put_queue q (Q\<lparr>q_count := q_count Q + 1\<rparr>) s))"
proof -
  let ?V = "\<lparr>e_count = 2, e_queue = q, e_status = XRP_STATUS_PENDING, e_cond = False\<rparr> :: xrp_event"
  let ?Q = "Q\<lparr>q_count := q_count Q + 1\<rparr>"
  let ?s = "put_event v ?V (put_queue q ?Q s)"
  have z: "X (Evt v) = 0" "msum (requests s |` pend L s) (request_evt v) = 0"
    using refs_okD [OF invD(9) [OF i], of "Evt v"] v by simp_all
  show "X (Evt v) = 0" by (rule z(1))
  have f: "finite (dom (events s))" using invD(1) [OF i] by (simp add: maps_ok_def)
  note c = retain_count [OF Q(3), unfolded retain_refcounted_def]
  have dom: "queues ?s p \<noteq> None \<longleftrightarrow> queues s p \<noteq> None" for p using Q(1) by simp
  have P: "pend L ?s = pend L s" unfolding set_eq_iff pend_mem dom by blast
  have "requests_ok L ?s"
    by (rule requests_okI [OF i]) (use v(2) dom in auto)
  moreover have "queues_ok L ?s"
    using invD(6) [OF i] Q c unfolding queues_ok_def by (simp add: put_event_def put_queue_def)
  moreover have "maps_ok ?s" "counts_ok ?s" "devices_ok ?s" "buffers_ok ?s" "groups_ok ?s" "events_ok ?s"
    using invD(1-5,7) [OF i] Q v
    by (auto simp: maps_ok_def counts_ok_def events_ok_def put_event_def put_queue_def)
  moreover have "cnt ?s ob = (X(Evt v := 2)) ob + irefs (pend L s) ?s ob" for ob
  proof -
    note r = refs_okD [OF invD(9) [OF i], of ob]
    have e: "msum ((events s)(v \<mapsto> ?V)) (event_que p) = event_que p ?V + msum (events s) (event_que p)" for p
      by (rule msum_new [OF f v(2)])
    have q: "msum ((queues s)(q \<mapsto> ?Q)) (queue_dev d) = msum (queues s) (queue_dev d)" for d
      by (rule msum_upd_same [where m = "queues s" and k = q, OF Q(1)]) (use Q c in \<open>simp add: queue_dev_def\<close>)
    show ?thesis
    proof (cases ob)
      case (Que p)
      then show ?thesis using r e [of p] Q c by (auto simp: put_event_def put_queue_def event_que_def)
    next
      case (Dev d)
      then show ?thesis using r q [of d] by (simp add: put_event_def put_queue_def)
    next
      case (Evt w)
      then show ?thesis using r z v by (auto simp: put_event_def put_queue_def)
    qed (use r in \<open>simp_all add: put_event_def put_queue_def\<close>)
  qed
  ultimately show "inv (X(Evt v := 2)) L ?s" using P by (simp add: inv_def store_ok_def refs_ok_def)
qed

section \<open>Pushing a request\<close>

lemma linked_cong: "(\<And>y. y \<in> set xs \<Longrightarrow> nxt' y = nxt y) \<Longrightarrow> linked nxt' p xs = linked nxt p xs"
  by (induction xs arbitrary: p) auto

lemma rlist_cong: "(\<And>y. y \<in> set xs \<Longrightarrow> nxt' y = nxt y) \<Longrightarrow> rlist nxt' l xs = rlist nxt l xs"
  using linked_cong [of xs nxt' nxt] by (simp add: rlist_def)

lemma inv_push:
  assumes i: "inv (carry R X) L s" and Q: "queues s q = Some Q"
    and R: "requests s r = Some R" "r \<notin> pend L s" "r \<noteq> 0"
    and ev: "r_event R \<noteq> 0 \<Longrightarrow> \<exists>V. events s (r_event R) = Some V \<and> e_queue V = q"
    and bl: "r_in_data R \<noteq> 0 \<Longrightarrow> blocks s (r_in_data R) \<noteq> None"
    and data: "\<And>x R'. x \<in> pend L s \<Longrightarrow> requests s x = Some R' \<Longrightarrow> r_in_data R' \<noteq> 0 \<Longrightarrow> r_in_data R' \<noteq> r_in_data R"
    and ps: "push_item (next_item s) (rq_request_queue (q_impl Q)) r = (nxt, l, b)"
  shows "inv X (L(q := L q @ [r])) (put_queue q (relist Q l) (s\<lparr>next_item := nxt\<rparr>))"
proof -
  let ?L = "L(q := L q @ [r])" and ?s = "put_queue q (relist Q l) (s\<lparr>next_item := nxt\<rparr>)"
  note rl = live_queue_ok(4) [OF i Q]
  have rq: "r \<notin> set (L p)" if "queues s p \<noteq> None" for p using R(2) that unfolding pend_mem by blast
  have rn: "r \<notin> set (L q)" using rq [of q] Q by simp
  note pu = push_item_rlist [OF rl rn R(3) ps]
  have dom: "queues ?s p \<noteq> None \<longleftrightarrow> queues s p \<noteq> None" for p using Q by simp
  have P: "pend ?L ?s = insert r (pend L s)"
  proof -
    have "x \<in> set (?L p) \<longleftrightarrow> x \<in> set (L p) \<or> p = q \<and> x = r" for x p by auto
    moreover have "queues s q \<noteq> None" using Q by simp
    ultimately show ?thesis unfolding set_eq_iff insert_iff pend_mem dom by blast
  qed
  have dis: "set (L p) \<inter> set (L p') = {}" if "queues s p \<noteq> None" "queues s p' \<noteq> None" "p \<noteq> p'" for p p'
    using invD(6) [OF i] that by (simp add: queues_ok_def)
  have "queues_ok ?L ?s"
    unfolding queues_ok_def
  proof (intro conjI allI impI)
    fix p Q'
    assume p: "queues ?s p = Some Q'"
    show "\<not> rq_cond (q_impl Q')" "0 \<in> set (q_nsid Q')"
      "q_count Q' \<noteq> 0 \<Longrightarrow> rq_thread (q_impl Q')" "q_count Q' \<noteq> 0 \<Longrightarrow> \<not> rq_exit (q_impl Q')"
      using invD(6) [OF i] p Q by (auto simp: queues_ok_def split: if_splits)
    show "rlist (next_item ?s) (rq_request_queue (q_impl Q')) (?L p)"
    proof (cases "p = q")
      case True
      then show ?thesis using p pu(1) by auto
    next
      case False
      then have q': "queues s p = Some Q'" using p by simp
      have pp: "queues s p \<noteq> None" "queues s q \<noteq> None" using q' Q by simp_all
      have same: "nxt y = next_item s y" if "y \<in> set (L p)" for y
      proof (rule pu(3))
        show "y \<noteq> r" using rq [OF pp(1)] that by blast
        show "y \<notin> set (L q)" using dis [OF pp False] that by blast
      qed
      have "rlist nxt (rq_request_queue (q_impl Q')) (L p)"
        using live_queue_ok(4) [OF i q'] rlist_cong [where xs = "L p" and nxt' = nxt and nxt = "next_item s", OF same] by blast
      then show ?thesis using False by simp
    qed
  next
    fix p p'
    assume pp: "queues ?s p \<noteq> None" "queues ?s p' \<noteq> None" "p \<noteq> p'"
    show "set (?L p) \<inter> set (?L p') = {}"
      using dis [of p p'] rq [of p] rq [of p'] pp dom [of p] dom [of p'] by auto
  qed
  moreover have "requests_ok ?L ?s"
    unfolding requests_ok_def
  proof (intro conjI allI impI)
    fix p x
    assume p: "queues ?s p \<noteq> None" "x \<in> set (?L p)"
    show "\<exists>R. requests ?s x = Some R \<and>
        (r_event R \<noteq> 0 \<longrightarrow> (\<exists>V. events ?s (r_event R) = Some V \<and> e_queue V = p)) \<and>
        (r_in_data R \<noteq> 0 \<longrightarrow> blocks ?s (r_in_data R) \<noteq> None)"
    proof (cases "x = r \<and> p = q")
      case True
      then show ?thesis using R(1) ev bl by simp
    next
      case False
      then have "x \<in> set (L p)" "queues s p \<noteq> None" using p dom [of p] by (simp_all split: if_splits)
      then obtain R' where "requests s x = Some R'"
          "r_event R' \<noteq> 0 \<Longrightarrow> \<exists>V. events s (r_event R') = Some V \<and> e_queue V = p"
          "r_in_data R' \<noteq> 0 \<Longrightarrow> blocks s (r_in_data R') \<noteq> None"
        using pending_request [OF i, of p x] by blast
      then show ?thesis by simp
    qed
  next
    fix x x' Rx Rx'
    assume a: "x \<in> pend ?L ?s" "x' \<in> pend ?L ?s" "requests ?s x = Some Rx" "requests ?s x' = Some Rx'"
      "r_in_data Rx = r_in_data Rx'" "r_in_data Rx \<noteq> 0"
    then show "x = x'" using pending_distinct [OF i, of x x' Rx Rx'] R(1) data [of x Rx] data [of x' Rx'] unfolding P by auto
  qed
  moreover have "maps_ok ?s" "counts_ok ?s" "devices_ok ?s" "buffers_ok ?s" "groups_ok ?s" "events_ok ?s"
    using invD(1-5,7) [OF i] Q by (auto simp: maps_ok_def put_queue_def)
  moreover have "cnt ?s ob = X ob + irefs (pend ?L ?s) ?s ob" for ob
  proof -
    have f: "finite (dom (requests s))" using invD(1) [OF i] by (simp add: maps_ok_def)
    have e: "pend ?L ?s - {r} = pend L s" using P R(2) by auto
    have rp: "r \<in> pend ?L ?s" using P by simp
    have "cnt s ob = carry R X ob + irefs (pend L s) s ob" by (rule refs_okD [OF invD(9) [OF i]])
    also have "\<dots> = X ob + carry R (irefs (pend ?L ?s - {r}) s) ob"
      unfolding e by (cases ob) (simp_all add: carry_simps del: irefs.simps)
    also have "\<dots> = X ob + irefs (pend ?L ?s) s ob"
      by (simp add: irefs_pend [OF f R(1) rp])
    finally show ?thesis
      by (simp add: cnt_queue_upd irefs_queue_upd Q del: cnt.simps irefs.simps)
  qed
  ultimately show ?thesis by (simp add: inv_def store_ok_def refs_ok_def)
qed

section \<open>xrp_enqueue_command\<close>

lemma put_queue_event: "put_queue q Q (put_event v V s) = put_event v V (put_queue q Q s)"
  by (simp add: put_queue_def put_event_def)

definition new_request :: "ptr \<Rightarrow> ptr \<Rightarrow> i32 \<Rightarrow> size_t \<Rightarrow> ptr \<Rightarrow> i32 \<Rightarrow> size_t \<Rightarrow> ptr \<Rightarrow> ptr \<Rightarrow> xrp_request" where
  "new_request copy in_data in_fd in_size out_data out_fd out_size grp evt =
     \<lparr>r_in_data = copy, r_out_data = out_data, r_in_data_fd = in_fd, r_out_data_fd = out_fd,
      r_in_data_size = in_size, r_out_data_size = out_size, r_buffer_group = grp, r_event = evt\<rparr>"

definition holder :: "ptr \<Rightarrow> refs \<Rightarrow> refs" where
  "holder v X = (if v = 0 then X else add1 (Evt v) X)"

text \<open>The store with the request and its copy, and the one with the event.\<close>

definition with_request :: "env \<Rightarrow> byte list \<Rightarrow> xrp_state \<Rightarrow> ptr \<times> ptr \<times> xrp_state" where
  "with_request E bytes s =
     (let rq = new_ptr E s; s = s\<lparr>allocs := Suc (allocs s), requests := (requests s)(rq \<mapsto> zero_request)\<rparr>;
          copy = new_ptr E s; s = s\<lparr>allocs := Suc (allocs s)\<rparr>
      in (rq, copy, if copy = 0 then s else s\<lparr>blocks := (blocks s)(copy \<mapsto> bytes)\<rparr>))"

lemma with_request:
  assumes i: "inv X L s" and w: "with_request E bytes s = (rq, copy, t)" and rq: "rq \<noteq> 0"
  shows "inv X L t" and "requests s rq = None" and "copy \<noteq> 0 \<Longrightarrow> blocks s copy = None"
    and "requests t = (requests s)(rq \<mapsto> zero_request)" and "copy \<noteq> 0 \<Longrightarrow> blocks t copy = Some bytes"
    and "queues t = queues s" "events t = events s" "groups t = groups s" "next_item t = next_item s"
    and "fds_ok t = fds_ok s" and "cnt t = cnt s" and "pend L t = pend L s" and "rq \<notin> pend L t"
proof -
  have r: "rq = new_ptr E s" using w by (simp add: with_request_def Let_def)
  have fresh: "requests s rq = None" using new_ptr_fresh [of E s] rq by (simp add: r fresh_def)
  then show "requests s rq = None" .
  have np: "rq \<notin> pend L s" using pend_request [OF i, of rq] fresh by blast
  let ?s1 = "s\<lparr>allocs := Suc (allocs s), requests := (requests s)(rq \<mapsto> zero_request)\<rparr>"
  have c: "copy = new_ptr E ?s1" using w by (simp add: with_request_def Let_def r)
  show cf: "copy \<noteq> 0 \<Longrightarrow> blocks s copy = None" using new_ptr_fresh [of E ?s1] by (simp add: c fresh_def)
  have t: "t = (if copy = 0 then ?s1\<lparr>allocs := Suc (Suc (allocs s))\<rparr>
      else ?s1\<lparr>allocs := Suc (Suc (allocs s)), blocks := (blocks s)(copy \<mapsto> bytes)\<rparr>)"
    using w c unfolding with_request_def Let_def r [symmetric] by (auto split: if_splits)
  have i1: "inv X L (?s1\<lparr>allocs := Suc (Suc (allocs s))\<rparr>)"
    using inv_request_idle [OF i np rq, of "Some zero_request"] by simp
  show "inv X L t"
    using i1 inv_blocks [OF i1, of "(blocks s)(copy \<mapsto> bytes)"] unfolding t by simp
  show "requests t = (requests s)(rq \<mapsto> zero_request)" "copy \<noteq> 0 \<Longrightarrow> blocks t copy = Some bytes"
    "queues t = queues s" "events t = events s" "groups t = groups s" "next_item t = next_item s"
    "fds_ok t = fds_ok s" "cnt t = cnt s" "pend L t = pend L s"
    by (simp_all add: t)
  then show "rq \<notin> pend L t" using np by simp
qed

definition new_event :: "ptr \<Rightarrow> xrp_event" where
  "new_event q = \<lparr>e_count = 2, e_queue = q, e_status = XRP_STATUS_PENDING, e_cond = False\<rparr>"

lemma event_phase:
  assumes "queues s q = Some Q" and "new_ptr E s = v" "v \<noteq> 0"
  shows "xrp_event_create E s = (v, put_event v \<lparr>e_count = 1, e_queue = 0, e_status = XRP_STATUS_PENDING, e_cond = False\<rparr> (s\<lparr>allocs := Suc (allocs s)\<rparr>))"
    and "do { u \<leftarrow> xrp_retain_queue q (snd (xrp_event_create E s));
              V \<leftarrow> events u v;
              xrp_retain_event v (put_event v (V\<lparr>e_queue := q\<rparr>) u) }
      = Some (put_event v (new_event q) (put_queue q (Q\<lparr>q_count := q_count Q + 1\<rparr>) (s\<lparr>allocs := Suc (allocs s)\<rparr>)))"
proof -
  show eq: "xrp_event_create E s = (v, put_event v \<lparr>e_count = 1, e_queue = 0, e_status = XRP_STATUS_PENDING, e_cond = False\<rparr> (s\<lparr>allocs := Suc (allocs s)\<rparr>))"
    using assms by (simp add: xrp_event_create_def alloc_refcounted_eq)
  have "put_queue q Q' (s\<lparr>allocs := n\<rparr>) = (put_queue q Q' s)\<lparr>allocs := n\<rparr>" for Q' n by (simp add: put_queue_def)
  then show "do { u \<leftarrow> xrp_retain_queue q (snd (xrp_event_create E s));
              V \<leftarrow> events u v;
              xrp_retain_event v (put_event v (V\<lparr>e_queue := q\<rparr>) u) }
      = Some (put_event v (new_event q) (put_queue q (Q\<lparr>q_count := q_count Q + 1\<rparr>) (s\<lparr>allocs := Suc (allocs s)\<rparr>)))"
    using assms(1) by (simp add: eq xrp_retain_queue_def xrp_retain_event_def retain_refcounted_def put_queue_event new_event_def)
qed

text \<open>What a successful enqueueing leaves: the request \<open>r\<close> last in the list of \<open>q\<close>, holding the
  event \<open>v\<close>, when one was asked for, and the group.\<close>

definition enqueued :: "ptr \<Rightarrow> ptr \<Rightarrow> ptr \<Rightarrow> refs \<Rightarrow> (ptr \<Rightarrow> ptr list) \<Rightarrow> xrp_state \<Rightarrow> xrp_state \<Rightarrow> bool" where
  "enqueued q grp v X L s t \<longleftrightarrow> (\<exists>r R. requests s r = None \<and> requests t = (requests s)(r \<mapsto> R) \<and> r_event R = v \<and> r_buffer_group R = grp \<and>
     inv (holder v X) (L(q := L q @ [r])) t \<and> fds_ok t \<and>
     (v \<noteq> 0 \<longrightarrow> events s v = None) \<and> events t = (if v = 0 then events s else (events s)(v \<mapsto> new_event q)) \<and>
     (\<forall>p. p \<noteq> q \<longrightarrow> queues t p = queues s p) \<and> (\<exists>Q. queues t q = Some Q \<and> q_count Q \<noteq> 0))"

text \<open>The last part: the reference to the group and the push.\<close>

lemma push_phase:
  assumes i: "inv (holder v (holder v X)) L s" and f: "fds_ok s" and Q: "queues s q = Some Q" "q_count Q \<noteq> 0"
    and r: "r \<notin> pend L s" "r \<noteq> 0"
    and R: "R = new_request copy a b c d e f' grp v"
    and g: "grp \<noteq> 0 \<Longrightarrow> 0 < cnt s (Grp grp) \<and> cnt s (Grp grp) + 1 < 2 ^ 64"
    and v: "v \<noteq> 0 \<Longrightarrow> \<exists>V. events s v = Some V \<and> e_queue V = q"
    and bl: "copy \<noteq> 0 \<Longrightarrow> blocks s copy \<noteq> None"
    and data: "\<And>x R'. x \<in> pend L s \<Longrightarrow> requests s x = Some R' \<Longrightarrow> r_in_data R' \<noteq> 0 \<Longrightarrow> r_in_data R' \<noteq> copy"
  shows "returns (do { u \<leftarrow> (if grp \<noteq> 0 then xrp_retain_buffer_group grp s else Some s);
              let u = u\<lparr>requests := (requests u)(r \<mapsto> R)\<rparr>;
              Q \<leftarrow> queues u q;
              (nxt, impl, _) \<leftarrow> xrp_queue_push (next_item u) (q_impl Q) r;
              Some (v, XRP_STATUS_SUCCESS, put_queue q (Q\<lparr>q_impl := impl\<rparr>) (u\<lparr>next_item := nxt\<rparr>)) })
    (\<lambda>(v', st, t). v' = v \<and> st = XRP_STATUS_SUCCESS \<and> inv (holder v X) (L(q := L q @ [r])) t \<and> fds_ok t \<and>
       requests t = (requests s)(r \<mapsto> R) \<and> events t = events s \<and> (\<exists>l. queues t = (queues s)(q \<mapsto> relist Q l)))"
proof -
  let ?Y = "if grp \<noteq> 0 then add1 (Grp grp) (holder v (holder v X)) else holder v (holder v X)"
  obtain u where u: "(if grp \<noteq> 0 then xrp_retain_buffer_group grp s else Some s) = Some u" "inv ?Y L u" "keeps s u" "fds_ok u"
  proof (cases "grp = 0")
    case True
    then show ?thesis using that [of s] i f by simp
  next
    case False
    obtain G where G: "groups s grp = Some G" using g [OF False] by (auto split: option.splits)
    have "xrp_retain_buffer_group grp s = Some (put_group grp (G\<lparr>g_count := retain_refcounted (g_count G)\<rparr>) s)"
      using G by (simp add: xrp_retain_buffer_group_def)
    moreover have "fds_ok (put_group grp (G\<lparr>g_count := retain_refcounted (g_count G)\<rparr>) s)"
      using f by (simp add: fds_ok_def put_group_def)
    ultimately show ?thesis using that False retain_group_inv [OF i, of grp] g [OF False] by (simp add: add1_def)
  qed
  have k: "queues u = queues s" "requests u = requests s" "events u = events s" "blocks u = blocks s" "next_item u = next_item s"
    using u(3) by (simp_all add: keeps_def)
  have P: "pend L u = pend L s" unfolding set_eq_iff pend_mem k(1) by blast
  let ?u = "u\<lparr>requests := (requests u)(r := Some R)\<rparr>"
  have iu: "inv ?Y L ?u" by (rule inv_request_idle [OF u(2)]) (use r P in auto)
  have c: "carry R (holder v X) = ?Y"
    by (simp add: R new_request_def carry_def holder_def add1_commute)
  obtain nxt l b' where ps: "push_item (next_item ?u) (rq_request_queue (q_impl Q)) r = (nxt, l, b')"
    by (cases "push_item (next_item ?u) (rq_request_queue (q_impl Q)) r") auto
  have iv: "inv (holder v X) (L(q := L q @ [r])) (put_queue q (relist Q l) (?u\<lparr>next_item := nxt\<rparr>))"
  proof (rule inv_push [OF _ _ _ _ r(2) _ _ _ ps])
    show "inv (carry R (holder v X)) L ?u" unfolding c by (rule iu)
    show "queues ?u q = Some Q" "requests ?u r = Some R" "r \<notin> pend L ?u" using k Q r P by simp_all
    show "\<exists>V. events ?u (r_event R) = Some V \<and> e_queue V = q" if "r_event R \<noteq> 0"
      using v that k by (simp add: R new_request_def)
    show "blocks ?u (r_in_data R) \<noteq> None" if "r_in_data R \<noteq> 0" using bl that k by (simp add: R new_request_def)
    show "r_in_data R' \<noteq> r_in_data R" if "x \<in> pend L ?u" "requests ?u x = Some R'" "r_in_data R' \<noteq> 0" for x R'
    proof -
      have x: "x \<in> pend L s" using that(1) P by simp
      then have "x \<noteq> r" using r(1) by blast
      then show ?thesis using data [OF x] that k by (simp add: R new_request_def)
    qed
  qed
  have ul: "\<not> rq_cond (q_impl Q)" using live_queue_ok(1) [OF i Q(1)] .
  have "do { u \<leftarrow> (if grp \<noteq> 0 then xrp_retain_buffer_group grp s else Some s);
              let u = u\<lparr>requests := (requests u)(r \<mapsto> R)\<rparr>;
              Q \<leftarrow> queues u q;
              (nxt, impl, _) \<leftarrow> xrp_queue_push (next_item u) (q_impl Q) r;
              Some (v, XRP_STATUS_SUCCESS, put_queue q (Q\<lparr>q_impl := impl\<rparr>) (u\<lparr>next_item := nxt\<rparr>)) }
     = Some (v, XRP_STATUS_SUCCESS, put_queue q (relist Q l) (?u\<lparr>next_item := nxt\<rparr>))"
    unfolding u(1) using ps ul Q k by (simp add: xrp_queue_push_def lock_defs relist_def)
  then show ?thesis using iv u(4) k by auto
qed

definition push_block ::
    "ptr \<Rightarrow> ptr \<Rightarrow> ptr \<Rightarrow> ptr \<Rightarrow> xrp_request \<Rightarrow> xrp_state \<Rightarrow> (ptr \<times> xrp_status \<times> xrp_state) option" where
  "push_block q grp v r R s =
     do { u \<leftarrow> (if grp \<noteq> 0 then xrp_retain_buffer_group grp s else Some s);
          let u = u\<lparr>requests := (requests u)(r \<mapsto> R)\<rparr>;
          Q \<leftarrow> queues u q;
          (nxt, impl, _) \<leftarrow> xrp_queue_push (next_item u) (q_impl Q) r;
          Some (v, XRP_STATUS_SUCCESS, put_queue q (Q\<lparr>q_impl := impl\<rparr>) (u\<lparr>next_item := nxt\<rparr>)) }"

lemma read_bytes_0 [simp]: "read_bytes s p 0 = Some []"
  by (simp add: read_bytes_def)

lemma read_bytes_irrelevant [simp]:
  "read_bytes (s\<lparr>allocs := n\<rparr>) = read_bytes s" "read_bytes (s\<lparr>requests := rq\<rparr>) = read_bytes s"
  by (simp_all add: read_bytes_def fun_eq_iff)

lemma enqueue_cases:
  assumes b: "read_bytes s in_data (unat sz) = Some bytes" and Q: "queues s q = Some Q"
    and w: "with_request E bytes s = (rq, copy, t)"
  shows "xrp_enqueue_command E q in_data fd sz od ofd osz grp evt s =
    (if rq = 0 then Some (0, XRP_STATUS_FAILURE, s\<lparr>allocs := Suc (Suc (allocs s))\<rparr>)
     else if sz \<noteq> 0 \<and> copy = 0 then Some (0, XRP_STATUS_FAILURE, t\<lparr>requests := (requests t)(rq := None)\<rparr>)
     else if \<not> evt then push_block q grp 0 rq (new_request copy in_data fd sz od ofd osz grp 0) t
     else if new_ptr E t = 0 then Some (0, XRP_STATUS_FAILURE, free_request rq copy (t\<lparr>allocs := Suc (allocs t)\<rparr>))
     else push_block q grp (new_ptr E t) rq (new_request copy in_data fd sz od ofd osz grp (new_ptr E t))
       (put_event (new_ptr E t) (new_event q) (put_queue q (Q\<lparr>q_count := q_count Q + 1\<rparr>) (t\<lparr>allocs := Suc (allocs t)\<rparr>))))"
proof -
  have rq: "rq = new_ptr E s" using w by (simp add: with_request_def Let_def)
  let ?s1 = "s\<lparr>allocs := Suc (allocs s), requests := (requests s)(rq \<mapsto> zero_request)\<rparr>"
  have c: "copy = new_ptr E ?s1" using w by (simp add: with_request_def Let_def rq)
  have t: "t = (if copy = 0 then ?s1\<lparr>allocs := Suc (Suc (allocs s))\<rparr>
      else ?s1\<lparr>allocs := Suc (Suc (allocs s)), blocks := (blocks s)(copy \<mapsto> bytes)\<rparr>)"
    using w c unfolding with_request_def Let_def rq [symmetric] by (auto split: if_splits)
  note rd = rq [symmetric] c [symmetric]
  have body: "xrp_enqueue_command E q in_data fd sz od ofd osz grp evt s =
      (if sz \<noteq> 0 \<and> copy = 0 then Some (0, XRP_STATUS_FAILURE, t\<lparr>requests := (requests t)(rq := None)\<rparr>)
       else let (event, u) = (if evt then xrp_event_create E t else (0, t))
         in if evt \<and> event = 0 then Some (0, XRP_STATUS_FAILURE, free_request rq copy u)
            else do { u \<leftarrow> (if evt then do { u \<leftarrow> xrp_retain_queue q u; V \<leftarrow> events u event;
                                 xrp_retain_event event (put_event event (V\<lparr>e_queue := q\<rparr>) u) } else Some u);
                      push_block q grp event rq (new_request copy in_data fd sz od ofd osz grp event) u })"
    if "rq \<noteq> 0"
    unfolding xrp_enqueue_command_def malloc_def Let_def prod.case rq [symmetric]
    using that b by (cases "sz = 0") (simp_all add: push_block_def [abs_def] new_request_def Let_def c [symmetric] t case_prod_beta cong: if_cong)
  show ?thesis
  proof (cases "rq = 0")
    case True
    then show ?thesis by (simp add: xrp_enqueue_command_def malloc_def rq [symmetric])
  next
    case rq0: False
    show ?thesis
    proof (cases "evt \<and> \<not> (sz \<noteq> 0 \<and> copy = 0) \<and> new_ptr E t \<noteq> 0")
      case False
      then show ?thesis using rq0 unfolding body [OF rq0]
        by (auto simp: xrp_event_create_def alloc_refcounted_eq)
    next
      case True
      have "queues t q = Some Q" using t Q by simp
      note ep = event_phase [OF this refl, of E]
      show ?thesis using True rq0 ep unfolding body [OF rq0] by (auto simp del: bind_assoc)
    qed
  qed
qed

lemma free_request_inv:
  assumes i: "inv X L s" and r: "rq \<notin> pend L s"
    and data: "\<And>x R. x \<in> pend L s \<Longrightarrow> requests s x = Some R \<Longrightarrow> r_in_data R \<noteq> 0 \<Longrightarrow> r_in_data R \<noteq> copy"
  shows "inv X L (free_request rq copy s)"
proof -
  have "inv X L (s\<lparr>blocks := (blocks s)(copy := None), requests := (requests s)(rq := None)\<rparr>)"
    by (rule inv_request_gone [OF i r]) (use data in blast)
  moreover have "s\<lparr>blocks := (blocks s)(copy := None), requests := (requests s)(rq := None)\<rparr> = free_request rq copy s"
    by (simp add: free_request_def)
  ultimately show ?thesis by simp
qed

lemma enqueue_inv:
  assumes i: "inv X L s" and f: "fds_ok s" and Q: "queues s q = Some Q" "q_count Q \<noteq> 0" "unat (q_count Q) + 1 < 2 ^ 64"
    and b: "sz \<noteq> 0 \<Longrightarrow> in_data \<noteq> 0"
    and g: "grp \<noteq> 0 \<Longrightarrow> 0 < cnt s (Grp grp) \<and> cnt s (Grp grp) + 1 < 2 ^ 64"
  shows "returns (xrp_enqueue_command E q in_data fd sz od ofd osz grp evt s) (\<lambda>(v, st, t).
    st = XRP_STATUS_FAILURE \<and> v = 0 \<and> inv X L t \<and> fds_ok t \<and> queues t = queues s \<and> events t = events s \<and> requests t = requests s \<or>
    st = XRP_STATUS_SUCCESS \<and> (v \<noteq> 0 \<longleftrightarrow> evt) \<and> enqueued q grp v X L s t)"
proof -
  have "sz \<noteq> 0 \<longrightarrow> unat sz \<noteq> 0" by (simp add: unat_eq_0)
  then obtain bytes where bytes: "read_bytes s in_data (unat sz) = Some bytes"
    using b by (cases "sz = 0") (auto simp: read_bytes_def)
  obtain rq copy t where w: "with_request E bytes s = (rq, copy, t)" by (cases "with_request E bytes s") auto
  note ec = enqueue_cases [OF bytes Q(1) w]
  show ?thesis
  proof (cases "rq = 0")
    case True
    then show ?thesis using i f ec by simp
  next
    case rq: False
    note wr = with_request [OF i w rq]
    have data: "r_in_data R \<noteq> copy" if x: "x \<in> pend L t" "requests t x = Some R" "r_in_data R \<noteq> 0" for x R
    proof
      assume eq: "r_in_data R = copy"
      have x': "x \<in> pend L s" "x \<noteq> rq" using x wr by auto
      obtain p where p: "queues s p \<noteq> None" "x \<in> set (L p)" using x'(1) unfolding pend_mem by blast
      obtain R' where R': "requests s x = Some R'" "r_in_data R' \<noteq> 0 \<Longrightarrow> blocks s (r_in_data R') \<noteq> None"
        by (rule pending_request [OF i p]) blast
      have "R' = R" using R' x(2) x'(2) wr(4) by simp
      then show False using R' wr(3) eq x(3) by simp
    qed
    show ?thesis
    proof (cases "sz \<noteq> 0 \<and> copy = 0")
      case True
      then show ?thesis
        using inv_request_idle [OF wr(1) wr(13) rq, of None] f wr ec rq by (simp add: fds_ok_def fun_upd_idem)
    next
      case nf: False
      show ?thesis
      proof (cases evt)
        case False
        have "returns (push_block q grp 0 rq (new_request copy in_data fd sz od ofd osz grp 0) t)
            (\<lambda>(v', st, u). v' = 0 \<and> st = XRP_STATUS_SUCCESS \<and> inv (holder 0 X) (L(q := L q @ [rq])) u \<and> fds_ok u \<and>
               requests u = (requests t)(rq \<mapsto> new_request copy in_data fd sz od ofd osz grp 0) \<and> events u = events t \<and>
               (\<exists>l. queues u = (queues t)(q \<mapsto> relist Q l)))"
          unfolding push_block_def
          by (rule push_phase [OF _ _ _ Q(2) wr(13) rq refl])
            (use wr f Q(1) g data in \<open>auto simp: holder_def\<close>)
        then show ?thesis
          using False nf rq ec wr Q(2) unfolding enqueued_def
          by (auto elim!: returnsE simp: new_request_def intro!: exI [of _ rq] exI [of _ "new_request copy in_data fd sz od ofd osz grp 0"])
      next
        case ev: True
        show ?thesis
        proof (cases "new_ptr E t = 0")
          case True
          have "inv X L (free_request rq copy (t\<lparr>allocs := Suc (allocs t)\<rparr>))"
            by (rule free_request_inv) (use wr data in auto)
          then show ?thesis using True ev nf rq ec wr f by (auto simp: free_request_def fds_ok_def fun_upd_idem)
        next
          case v: False
          let ?v = "new_ptr E t"
          let ?R = "new_request copy in_data fd sz od ofd osz grp ?v"
          have ve: "events t ?v = None" using new_ptr_fresh [OF v] by (simp add: fresh_def)
          let ?t = "t\<lparr>allocs := Suc (allocs t)\<rparr>"
          let ?u = "put_event ?v (new_event q) (put_queue q (Q\<lparr>q_count := q_count Q + 1\<rparr>) ?t)"
          have it: "inv X L ?t" using wr(1) by simp
          have Qt: "queues ?t q = Some Q" using wr(6) Q(1) by simp
          have vt: "events ?t ?v = None" using ve by simp
          note ne = inv_event_new [OF it Qt Q(2,3) v vt, folded new_event_def]
          have "X(Evt ?v := 2) = holder ?v (holder ?v X)"
            using ne(1) v by (auto simp: holder_def add1_def fun_eq_iff)
          then have iu: "inv (holder ?v (holder ?v X)) L ?u" using ne(2) by simp
          have dom: "queues ?u p \<noteq> None \<longleftrightarrow> queues t p \<noteq> None" for p using wr(6) Q(1) by simp
          have P: "pend L ?u = pend L t" unfolding set_eq_iff pend_mem dom by blast
          have nz: "q_count (Q\<lparr>q_count := q_count Q + 1\<rparr>) \<noteq> 0"
            using retain_count(1) [OF Q(3)] by (simp add: retain_refcounted_def)
          have gu: "0 < cnt ?u (Grp grp) \<and> cnt ?u (Grp grp) + 1 < 2 ^ 64" if "grp \<noteq> 0"
            using g [OF that] wr(8) by simp
          have "returns (push_block q grp ?v rq ?R ?u)
            (\<lambda>(v', st, w). v' = ?v \<and> st = XRP_STATUS_SUCCESS \<and> inv (holder ?v X) (L(q := L q @ [rq])) w \<and> fds_ok w \<and>
               requests w = (requests ?u)(rq \<mapsto> ?R) \<and> events w = events ?u \<and>
               (\<exists>l. queues w = (queues ?u)(q \<mapsto> relist (Q\<lparr>q_count := q_count Q + 1\<rparr>) l)))"
            unfolding push_block_def
            by (rule push_phase [OF iu _ _ nz _ rq refl gu])
              (use wr f P data in \<open>auto simp: new_event_def fds_ok_def\<close>)
          then show ?thesis
            using ev nf rq ec v wr ve nz unfolding enqueued_def
            by (auto elim!: returnsE simp: new_request_def intro!: exI [of _ rq] exI [of _ ?R])
        qed
      qed
    qed
  qed
qed

end
