(* ===== verification/Xrp_Sync.thy ===== *)
theory Xrp_Sync
  imports Xrp_Enqueue
begin

text \<open>
  The client side of a queued command: giving up an event, waiting for it and running a command
  synchronously. While the client waits, the worker of the event's queue runs its requests in
  order; the wait ends at the latest with the request that carries the event.
\<close>

section \<open>A client gives up an event\<close>

definition shorter :: "(ptr \<Rightarrow> ptr list) \<Rightarrow> (ptr \<Rightarrow> ptr list) \<Rightarrow> bool" where
  "shorter L L' \<longleftrightarrow> (\<forall>p. length (L' p) \<le> length (L p))"

lemma shorter_refl [simp]: "shorter L L"
  by (simp add: shorter_def)

lemma shorter_trans: "shorter L L' \<Longrightarrow> shorter L' L'' \<Longrightarrow> shorter L L''"
  unfolding shorter_def using order_trans by blast

lemma shorter_upd: "length xs \<le> length (L q) \<Longrightarrow> shorter L (L(q := xs))"
  by (simp add: shorter_def)

lemma held_event:
  assumes "linv (add1 (Evt v) X) L s"
  obtains V where "events s v = Some V" and "e_count V \<noteq> 0" and "\<not> e_cond V"
proof -
  obtain Y where Y: "inv (add1 (Evt v) (padd X Y)) L s" using assms by (auto simp: linv_def)
  then obtain V where V: "events s v = Some V" "e_count V \<noteq> 0" using owned_live(5) [OF Y, of v] by auto
  moreover have "\<not> e_cond V" using invD(7) [OF Y] V(1) by (simp add: events_ok_def)
  ultimately show thesis by (rule that)
qed

lemma tracked_put_event:
  assumes "tracked L s" and "events s v = Some V" and "e_status V' = XRP_STATUS_PENDING \<Longrightarrow> e_status V = XRP_STATUS_PENDING"
  shows "tracked L (put_event v V' s)"
proof (rule tracked_sub [OF assms(1)])
  have "queues (put_event v V' s) = queues s" by simp
  then show "pend L s \<subseteq> pend L (put_event v V' s)" by (simp add: pend_def)
qed (use assms(2,3) in \<open>auto split: if_splits\<close>)

lemma tracked_queue_upd:
  assumes "tracked L s" and "queues s q \<noteq> None" and "queues t = (queues s)(q \<mapsto> Q)" and "requests t = requests s" and "events t = events s"
  shows "tracked L t"
proof -
  have "pend L t = pend L s" by (rule pend_cong) (use assms(2,3) in simp)
  then show ?thesis using assms(1) tracked_cong [OF assms(4,5)] by blast
qed

lemma tracked_event_gone: "tracked L s \<Longrightarrow> tracked L (s\<lparr>events := (events s)(v := None)\<rparr>)"
  by (rule tracked_sub) (auto split: if_splits)

lemma queue_left_lists:
  assumes "queue_left q Q X L s t" and "queues s q = Some Q"
  obtains L' where "linv X L' t" "shorter L L'" "tracked L s \<Longrightarrow> tracked L' t"
proof (cases "q_count Q = 1")
  case True
  then show ?thesis using that [of "L(q := [])"] assms(1) shorter_upd [of "[]" L q] by (auto simp: queue_left_def)
next
  case False
  then have "queues t = (queues s)(q \<mapsto> Q\<lparr>q_count := q_count Q - 1\<rparr>)" "requests t = requests s" "events t = events s"
    using assms(1) by (simp_all add: queue_left_def)
  then have "tracked L s \<Longrightarrow> tracked L t" by (rule tracked_queue_upd [rotated 2]) (use assms(2) in simp_all)
  then show ?thesis using that [of L] assms(1) False by (simp add: queue_left_def)
qed

lemma keeps_tracked: "keeps s t \<Longrightarrow> tracked L t = tracked L s"
  by (rule tracked_cong) (simp_all add: keeps_def pend_def)

lemma release_event_client:
  assumes i: "linv (add1 (Evt v) X) L s" and f: "fds_ok s" and V: "events s v = Some V" and n: "length (L (e_queue V)) < n"
  shows "returns (xrp_release_event n E v s) (\<lambda>t. (\<exists>L'. linv X L' t \<and> shorter L L' \<and>
    (tracked L s \<longrightarrow> tracked L' t)) \<and> fds_ok t)"
proof -
  have less: "tracked L (put_event v (V\<lparr>e_count := c\<rparr>) s)" if "tracked L s" for c
    by (rule tracked_put_event [OF that V]) simp
  obtain Y where Y: "inv (add1 (Evt v) (padd X Y)) L s" using i by (auto simp: linv_def)
  show ?thesis
  proof (cases "e_count V = 1")
    case False
    have "xrp_release_event n E v s = Some (put_event v (V\<lparr>e_count := e_count V - 1\<rparr>) s)"
      using V False by (simp add: xrp_release_event_def xrp_release_event_in_def last_release_refcounted_def)
    then show ?thesis using linvI [OF inv_event_drop(1) [OF Y V False]] f shorter_refl less by auto
  next
    case True
    let ?q = "e_queue V" and ?s = "put_event v (V\<lparr>e_count := 0\<rparr>) s"
    obtain Q where Q: "queues s ?q = Some Q" by (rule event_queue_live [OF i V]) (use True in auto)
    have i2: "linv (add1 (Que ?q) X) L ?s"
      using inv_event_dying(1) [OF Y V True] linvI [of "add1 (Que ?q) X" Y] by simp
    have Q2: "queues ?s ?q = Some Q" "fds_ok ?s" using Q f by simp_all
    obtain t where t: "xrp_release_queue n E ?q ?s = Some t" "queue_left ?q Q X L ?s t"
      by (rule returnsE [OF release_queue_client [OF i2 Q2(2,1) n, where E = E]])
    have tv: "events t v = Some (V\<lparr>e_count := 0\<rparr>)" "fds_ok t" using t(2) by (auto simp: queue_left_def)
    obtain L' where L': "linv X L' t" "shorter L L'" "tracked L ?s \<Longrightarrow> tracked L' t"
      using queue_left_lists [OF t(2) Q2(1)] by blast
    have "linv X L' (t\<lparr>events := (events t)(v := None)\<rparr>)" by (rule linv_event_gone [OF L'(1) tv(1)]) simp
    moreover have "tracked L' (t\<lparr>events := (events t)(v := None)\<rparr>)" if "tracked L s"
      by (rule tracked_event_gone [OF L'(3) [OF less [OF that]]])
    moreover have "xrp_release_event n E v s = Some (t\<lparr>events := (events t)(v := None)\<rparr>)"
      using V True t(1) by (simp add: xrp_release_event_def xrp_release_event_in_def last_release_refcounted_def xrp_release_queue_def)
    ultimately show ?thesis using L'(2) tv(2) by auto
  qed
qed

section \<open>Waiting\<close>

definition waiting_at :: "nat \<Rightarrow> ptr \<Rightarrow> (ptr \<Rightarrow> ptr list) \<Rightarrow> xrp_state \<Rightarrow> bool" where
  "waiting_at k v L s \<longleftrightarrow> (\<exists>V. events s v = Some V \<and> k < length (L (e_queue V)) \<and>
     (\<exists>R. requests s (L (e_queue V) ! k) = Some R \<and> r_event R = v))"

text \<open>One round of the wait, from the state without the client's lock: either the event has ended,
  or the request it waits for has moved up.\<close>

lemma wait_round:
  assumes i: "linv (add1 (Evt v) X) L s" and f: "fds_ok s" and V: "events s v = Some V" and w: "waiting_at k v L s"
  shows "returns (xrp_queue_process run E (e_queue V) s) (\<lambda>(again, t). \<exists>L' V'. linv (add1 (Evt v) X) L' t \<and> fds_ok t \<and>
    shorter L L' \<and> (tracked L s \<longrightarrow> tracked L' t) \<and> events t v = Some V' \<and> e_queue V' = e_queue V \<and> (e_status V' = XRP_STATUS_PENDING \<longrightarrow> 0 < k \<and> waiting_at (k - 1) v L' t))"
proof -
  let ?q = "e_queue V"
  have c: "e_count V \<noteq> 0" using held_event [OF i] V by auto
  obtain Q where Q: "queues s ?q = Some Q" "q_count Q \<noteq> 0" by (rule event_queue_live [OF i V c])
  obtain R where R: "k < length (L ?q)" "requests s (L ?q ! k) = Some R" "r_event R = v"
    using w V by (auto simp: waiting_at_def)
  then obtain r xs where L: "L ?q = r # xs" by (cases "L ?q") auto
  have v0: "v \<noteq> 0"
  proof -
    obtain Y where "inv (padd (add1 (Evt v) X) Y) L s" using i by (auto simp: linv_def)
    then show ?thesis using invD(1) V by (auto simp: maps_ok_def)
  qed
  obtain again t R0 l where t: "xrp_queue_process run E ?q s = Some (again, t)" "requests s r = Some R0"
      "linv (add1 (Evt v) X) (L(?q := xs)) t" "processed ?q r R0 (taken ?q Q l s) t"
    using worker_step [OF i f Q(1) L linv_queue_ok(4) [OF i Q], of run E] Q(2) by (auto elim!: returnsE)
  obtain V' where V': "events t v = Some V'" by (rule held_event [OF t(3)])
  have fd: "fds_ok t" and rq: "requests t = (requests s)(r := None)"
    using t(4) by (simp_all add: processed_def)
  have qv: "e_queue V' = ?q" using t(4) V V' v0 by (cases "r_event R0 = v") (auto simp: processed_def completes_def split: if_splits)
  have tk: "tracked L s \<Longrightarrow> tracked (L(?q := xs)) t"
    by (rule processed_tracked [OF i t(3,4,2) Q(1) L])
  show ?thesis
  proof (cases "r_event R0 = v")
    case True
    then have "e_status V' \<noteq> XRP_STATUS_PENDING" "e_queue V' = ?q"
      using t(4) V V' v0 by (auto simp: processed_def completes_def)
    then show ?thesis using t(1,3) fd V' L shorter_upd [of xs L ?q] tk by auto
  next
    case False
    then have ev: "events t v = events s v"
      using t(4) by (auto simp: processed_def completes_def split: if_splits)
    then have V'': "V' = V" using V' V by simp
    have k: "k \<noteq> 0" using False R t(2) L by (cases k) auto
    have "L ?q ! k \<noteq> r"
    proof
      assume "L ?q ! k = r"
      then show False using R t(2) False by simp
    qed
    then have "waiting_at (k - 1) v (L(?q := xs)) t"
      using R k L V' V'' rq by (auto simp: waiting_at_def nth_Cons')
    then show ?thesis using t(1,3) fd V' V'' L k shorter_upd [of xs L ?q] tk by auto
  qed
qed

lemma put_event_idem: "events s v = Some V \<Longrightarrow> put_event v V s = s"
  by (cases s) (auto simp: put_event_def)

lemma put_event_unlocked: "events s v = Some V \<Longrightarrow> \<not> e_cond V \<Longrightarrow> put_event v (V\<lparr>e_cond := False\<rparr>) s = s"
  using put_event_idem [of s v V] by (cases V) simp

definition waited :: "ptr \<Rightarrow> ptr \<Rightarrow> refs \<Rightarrow> (ptr \<Rightarrow> ptr list) \<Rightarrow> xrp_state \<Rightarrow> xrp_state \<Rightarrow> bool" where
  "waited v q X L s t \<longleftrightarrow> (\<exists>L' V. linv (add1 (Evt v) X) L' t \<and> fds_ok t \<and> shorter L L' \<and> (tracked L s \<longrightarrow> tracked L' t) \<and>
     events t v = Some V \<and> e_queue V = q \<and> e_status V \<noteq> XRP_STATUS_PENDING)"

lemma waited_shorter:
  "waited v q X L' s' t \<Longrightarrow> shorter L L' \<Longrightarrow> (tracked L s \<Longrightarrow> tracked L' s') \<Longrightarrow> waited v q X L s t"
  unfolding waited_def using shorter_trans by blast

lemma wait_loop_ends:
  assumes "linv (add1 (Evt v) X) L s" and "fds_ok s" and "events s v = Some V"
    and "e_status V = XRP_STATUS_PENDING \<Longrightarrow> waiting_at k v L s \<and> k + 1 < n" and "0 < n"
  shows "returns (wait_loop n E v (put_event v (V\<lparr>e_cond := True\<rparr>) s))
    (\<lambda>u. \<exists>t V'. u = put_event v (V'\<lparr>e_cond := True\<rparr>) t \<and> events t v = Some V' \<and> waited v (e_queue V) X L s t)"
  using assms
proof (induction n arbitrary: k L s V)
  case (Suc n)
  let ?q = "e_queue V"
  have nc: "\<not> e_cond V" "e_count V \<noteq> 0" using held_event [OF Suc.prems(1)] Suc.prems(3) by auto
  show ?case
  proof (cases "e_status V = XRP_STATUS_PENDING")
    case False
    then have "waited v ?q X L s s" using Suc.prems(1-3) shorter_refl unfolding waited_def by blast
    then show ?thesis using False Suc.prems(3) by auto
  next
    case True
    then have w: "waiting_at k v L s" and k: "k < n" using Suc.prems(4) by simp_all
    obtain Q where Q: "queues s ?q = Some Q" "q_count Q \<noteq> 0"
      by (rule event_queue_live [OF Suc.prems(1,3) nc(2)])
    have th: "rq_thread (q_impl Q)" using linv_queue_ok(2) [OF Suc.prems(1) Q] by simp
    have id: "put_event v (V\<lparr>e_cond := False\<rparr>) s = s" by (rule put_event_unlocked [OF Suc.prems(3) nc(1)])
    obtain again t L' V' where t: "xrp_queue_process (xrp_queue_thread n E) E ?q s = Some (again, t)"
        "linv (add1 (Evt v) X) L' t" "fds_ok t" "shorter L L'" "events t v = Some V'" "e_queue V' = ?q" "tracked L s \<Longrightarrow> tracked L' t"
        "e_status V' = XRP_STATUS_PENDING \<Longrightarrow> 0 < k \<and> waiting_at (k - 1) v L' t"
      using wait_round [OF Suc.prems(1-3) w, of "xrp_queue_thread n E" E] by (auto elim!: returnsE)
    have c': "\<not> e_cond V'" using held_event [OF t(2)] t(5) by auto
    have step: "wait_loop (Suc n) E v (put_event v (V\<lparr>e_cond := True\<rparr>) s) = wait_loop n E v (put_event v (V'\<lparr>e_cond := True\<rparr>) t)"
      using True nc Q th id t(1,5) c' by (simp add: lock_defs)
    have "returns (wait_loop n E v (put_event v (V'\<lparr>e_cond := True\<rparr>) t))
      (\<lambda>u. \<exists>t' W. u = put_event v (W\<lparr>e_cond := True\<rparr>) t' \<and> events t' v = Some W \<and> waited v (e_queue V') X L' t t')"
      by (rule Suc.IH [OF t(2,3,5), of "k - 1"]) (use t(8) k in auto)
    then show ?thesis unfolding step t(6)
      by (rule returns_mono) (use waited_shorter t(4,7) in blast)
  qed
qed simp

lemma wait_returns:
  assumes i: "linv (add1 (Evt v) X) L s" and f: "fds_ok s" and V: "events s v = Some V"
    and w: "e_status V = XRP_STATUS_PENDING \<Longrightarrow> waiting_at k v L s \<and> k + 1 < n" and n: "0 < n"
  shows "returns (xrp_wait n E v s) (\<lambda>(st, t). st = XRP_STATUS_SUCCESS \<and> waited v (e_queue V) X L s t)"
proof -
  obtain t V' where t: "wait_loop n E v (put_event v (V\<lparr>e_cond := True\<rparr>) s) = Some (put_event v (V'\<lparr>e_cond := True\<rparr>) t)"
      "events t v = Some V'" "waited v (e_queue V) X L s t"
    using wait_loop_ends [OF i f V w n, where E = E] by (auto elim!: returnsE)
  have nc: "\<not> e_cond V" using held_event [OF i] V by auto
  have nc': "\<not> e_cond V'" using t(3) held_event t(2) unfolding waited_def by (metis option.inject)
  have "put_event v (V'\<lparr>e_cond := False\<rparr>) t = t" by (rule put_event_unlocked [OF t(2) nc'])
  then show ?thesis using t nc V by (simp add: xrp_wait_def lock_defs)
qed

section \<open>A synchronous command\<close>

lemma enqueuedE:
  assumes "enqueued q grp v X L s t"
  obtains r R where "requests s r = None" "requests t r = Some R" "requests t = (requests s)(r \<mapsto> R)"
    "r_event R = v" "r_buffer_group R = grp" "inv (holder v X) (L(q := L q @ [r])) t" "fds_ok t"
    "v \<noteq> 0 \<Longrightarrow> events t v = Some (new_event q)" "tracked L s \<Longrightarrow> tracked (L(q := L q @ [r])) t"
proof -
  obtain r R where r: "requests s r = None" "requests t = (requests s)(r \<mapsto> R)" "r_event R = v" "r_buffer_group R = grp"
      "inv (holder v X) (L(q := L q @ [r])) t" "fds_ok t" "events t = (if v = 0 then events s else (events s)(v \<mapsto> new_event q))"
      "\<forall>p. p \<noteq> q \<longrightarrow> queues t p = queues s p" "queues t q \<noteq> None"
    using assms unfolding enqueued_def by auto
  have "tracked (L(q := L q @ [r])) t" if tr: "tracked L s"
    unfolding tracked_def
  proof (intro allI impI)
    fix w W
    assume w: "w \<noteq> 0" "events t w = Some W" "e_status W = XRP_STATUS_PENDING"
    show "\<exists>x R. x \<in> pend (L(q := L q @ [r])) t \<and> requests t x = Some R \<and> r_event R = w"
    proof (cases "w = v")
      case True
      have "r \<in> set ((L(q := L q @ [r])) q)" by simp
      then have "r \<in> pend (L(q := L q @ [r])) t" using r(9) unfolding pend_mem by blast
      then show ?thesis using True r(2,3) by (intro exI [of _ r] exI [of _ R]) simp
    next
      case False
      then have "events s w = Some W" using w(2) r(7) by (simp split: if_splits)
      then obtain x R' where x: "x \<in> pend L s" "requests s x = Some R'" "r_event R' = w" using tr w unfolding tracked_def by blast
      obtain y where y: "queues s y \<noteq> None" "x \<in> set (L y)" using x(1) unfolding pend_mem by blast
      have "queues t y \<noteq> None" "x \<in> set ((L(q := L q @ [r])) y)" using y r(8,9) by (cases "y = q"; simp)+
      then have "x \<in> pend (L(q := L q @ [r])) t" unfolding pend_mem by blast
      then show ?thesis using x r(1,2) by (intro exI [of _ x] exI [of _ R']) auto
    qed
  qed
  then show thesis using that [of r R] r by simp
qed

lemma run_sync:
  assumes i: "inv X L s" and f: "fds_ok s" and Q: "queues s q = Some Q" "q_count Q \<noteq> 0" "unat (q_count Q) + 1 < 2 ^ 64"
    and b: "sz \<noteq> 0 \<Longrightarrow> in_data \<noteq> 0"
    and g: "grp \<noteq> 0 \<Longrightarrow> 0 < cnt s (Grp grp) \<and> cnt s (Grp grp) + 1 < 2 ^ 64"
    and n: "length (L q) + 1 < n"
  shows "returns (xrp_run_command_sync n E q in_data fd sz od ofd osz grp s) (\<lambda>(st, t).
    st \<noteq> XRP_STATUS_PENDING \<and> fds_ok t \<and> (\<exists>L'. linv X L' t \<and> shorter (L(q := L q @ [0])) L' \<and>
    (tracked L s \<longrightarrow> tracked L' t)))"
proof -
  obtain v st t where t: "xrp_enqueue_command E q in_data fd sz od ofd osz grp True s = Some (v, st, t)"
      "st = XRP_STATUS_FAILURE \<and> v = 0 \<and> inv X L t \<and> fds_ok t \<and> queues t = queues s \<and> events t = events s \<and> requests t = requests s \<or>
       st = XRP_STATUS_SUCCESS \<and> v \<noteq> 0 \<and> enqueued q grp v X L s t"
    by (rule returnsE [OF enqueue_inv [where E = E and fd = fd and od = od and ofd = ofd and osz = osz and evt = True,
        OF i f Q b g]]) auto
  show ?thesis
  proof (cases "st = XRP_STATUS_SUCCESS")
    case False
    have "shorter (L(q := L q @ [0])) L" by (simp add: shorter_def)
    moreover have "tracked L s \<Longrightarrow> tracked L t" using False t(2) tracked_cong [of t s L] by (auto simp: pend_def)
    ultimately show ?thesis using False t by (auto simp: xrp_run_command_sync_def intro: inv_linv)
  next
    case True
    then have v: "v \<noteq> 0" and en: "enqueued q grp v X L s t" using t(2) by auto
    obtain r R where r: "requests t r = Some R" "r_event R = v" "inv (add1 (Evt v) X) (L(q := L q @ [r])) t"
        "fds_ok t" "events t v = Some (new_event q)" "tracked L s \<Longrightarrow> tracked (L(q := L q @ [r])) t"
      by (rule enqueuedE [OF en]) (rule that, use v in \<open>simp_all add: holder_def\<close>)
    have w: "waiting_at (length (L q)) v (L(q := L q @ [r])) t"
      using r by (simp add: waiting_at_def new_event_def)
    have n0: "0 < n" "length (L q) + 1 < n" using n by simp_all
    obtain u where u: "xrp_wait n E v t = Some (XRP_STATUS_SUCCESS, u)" "waited v (e_queue (new_event q)) X (L(q := L q @ [r])) t u"
      using wait_returns [OF inv_linv [OF r(3)] r(4,5) _ n0(1), of "length (L q)", where E = E] w n0(2) by (auto elim!: returnsE)
    obtain L' V where L': "linv (add1 (Evt v) X) L' u" "fds_ok u" "shorter (L(q := L q @ [r])) L'"
        "events u v = Some V" "e_queue V = q" "e_status V \<noteq> XRP_STATUS_PENDING"
        "tracked (L(q := L q @ [r])) t \<Longrightarrow> tracked L' u"
      using u(2) by (auto simp: waited_def new_event_def)
    have sh: "shorter (L(q := L q @ [0])) L'" using L'(3) unfolding shorter_def
      by (metis (no_types, lifting) fun_upd_apply length_append_singleton)
    have nl: "length (L' (e_queue V)) < n"
      using L'(3,5) n unfolding shorter_def by (metis fun_upd_same length_append_singleton add.commute le_less_trans plus_1_eq_Suc)
    obtain x where x: "xrp_release_event n E v u = Some x" "\<exists>L''. linv X L'' x \<and> shorter L' L'' \<and> (tracked L' u \<longrightarrow> tracked L'' x)" "fds_ok x"
      using release_event_client [OF L'(1,2,4) nl, where E = E] by (auto elim!: returnsE)
    have "xrp_run_command_sync n E q in_data fd sz od ofd osz grp s = Some (e_status V, x)"
      using t(1) True u(1) L'(4) x(1) by (simp add: xrp_run_command_sync_def xrp_event_status_def)
    then show ?thesis using x(2,3) L'(6,7) r(6) sh shorter_trans by auto
  qed
qed

end
