(* ===== verification/Vdsp_Command.thy ===== *)
theory Vdsp_Command
  imports Xrp_Worker
begin

text \<open>
  \<open>sprd_vdsp_send_command\<close> of vdsp_interface_internal.c: a command that goes through a queue of
  its own. It makes a group and a queue, wraps the caller's buffers, runs the command
  synchronously and takes everything down again.
\<close>

definition sprd_vdsp_send_command ::
    "nat \<Rightarrow> env \<Rightarrow> ptr \<Rightarrow> byte list \<Rightarrow> sprd_vdsp_inout option \<Rightarrow> sprd_vdsp_inout option
       \<Rightarrow> sprd_vdsp_inout list \<Rightarrow> u32 \<Rightarrow> i32 \<Rightarrow> xrp_state \<Rightarrow> (sprd_vdsp_status \<times> xrp_state) option" where
  "sprd_vdsp_send_command n E device nsid input output buffer buf_num priority s =
     do { len \<leftarrow> c_strlen nsid;
          if len > XRP_NAMESPACE_ID_SIZE - 1 then Some (SPRD_XRP_STATUS_FAILURE, s)
          else
            (let (buf, s) = malloc E s
             in if buf = 0 then Some (SPRD_XRP_STATUS_FAILURE, s)
                else
                  (let (grp, status, s) = xrp_create_buffer_group E s
                   in if status \<noteq> XRP_STATUS_SUCCESS then Some (SPRD_XRP_STATUS_FAILURE, s)
                      else do {
                        (queue, status, s) \<leftarrow> xrp_create_nsp_queue E device (Some nsid) priority s;
                        if status \<noteq> XRP_STATUS_SUCCESS
                        then do { s \<leftarrow> xrp_release_buffer_group E grp s; Some (SPRD_XRP_STATUS_FAILURE, s) }
                        else do {
                          (wrapped, buf, s) \<leftarrow> wrap_buffers E device grp (\<lambda>_. XRP_READ_WRITE) buffer (unat buf_num) [] s;
                          if \<not> wrapped
                          then do { s \<leftarrow> xrp_release_buffer_group E grp s;
                                    s \<leftarrow> release_xrp_buffers E buf (of_nat (length buf)) s;
                                    s \<leftarrow> xrp_release_queue n E queue s;
                                    Some (SPRD_XRP_STATUS_FAILURE, s) }
                          else do {
                            (status, s) \<leftarrow> xrp_run_command_sync n E queue
                               (inout_vir input) (inout_fd input) (ucast (inout_size input))
                               (inout_vir output) (inout_fd output) (ucast (inout_size output)) grp s;
                            s \<leftarrow> xrp_release_buffer_group E grp s;
                            s \<leftarrow> release_xrp_buffers E buf buf_num s;
                            s \<leftarrow> xrp_release_queue n E queue s;
                            Some (if status \<noteq> XRP_STATUS_SUCCESS then SPRD_XRP_STATUS_FAILURE
                                  else SPRD_XRP_STATUS_SUCCESS, s) } } })) }"

end
