(* ===== verification/Vdsp_Command_Refs.thy ===== *)
theory Vdsp_Command_Refs
  imports Xrp_Sync Vdsp_Command
begin

text \<open>
  The life of a queue around one command: \<open>xrp_create_nsp_queue\<close> adds a queue to a store in
  order, and \<open>sprd_vdsp_send_command\<close>, which makes a group and a queue for its command, always
  comes back and leaves none of them behind.
\<close>

section \<open>A new queue\<close>

lemma str_len_bound: "i < m \<Longrightarrow> str_len str m i = Some n \<Longrightarrow> i < n \<and> n \<le> m"
  by (induction str m i rule: str_len.induct) (auto split: if_splits)

lemma str_len_string: "0 \<in> set str \<Longrightarrow> \<exists>n. str_len str m i = Some n"
  by (induction str m i rule: str_len.induct) auto

lemma str_len_terminated:
  "str_len str m i = Some n \<Longrightarrow> length (takeWhile (\<lambda>b. b \<noteq> 0) str) + i < m \<Longrightarrow> 0 \<in> set str \<Longrightarrow>
   n = length (takeWhile (\<lambda>b. b \<noteq> 0) str) + i + 1"
  by (induction str m i rule: str_len.induct) (auto split: if_splits)

lemma take_terminated: "0 \<in> set str \<Longrightarrow> (0::byte) \<in> set (take (length (takeWhile (\<lambda>b. b \<noteq> 0) str) + 1) str)"
  by (induction str) auto

lemma inv_queue_new:
  assumes i: "inv (add1 (Dev d) X) L s" and q: "q \<noteq> 0" "queues s q = None"
    and Q: "q_count Q = 1" "q_device Q = d" "0 \<in> set (q_nsid Q)"
    and m: "q_impl Q = \<lparr>rq_thread = True, rq_cond = False, rq_request_queue = \<lparr>rl_head = 0, rl_tail = 0\<rparr>, rq_exit = False\<rparr>"
  shows "X (Que q) = 0" and "inv (add1 (Que q) X) (L(q := [])) (put_queue q Q s)"
proof -
  let ?L = "L(q := [])" and ?s = "put_queue q Q s"
  have z: "X (Que q) = 0" "msum (events s) (event_que q) = 0"
    using refs_okD [OF invD(9) [OF i], of "Que q"] q by simp_all
  show "X (Que q) = 0" by (rule z(1))
  have f: "finite (dom (queues s))" using invD(1) [OF i] by (simp add: maps_ok_def)
  have dom: "queues ?s p \<noteq> None \<and> r \<in> set (?L p) \<longleftrightarrow> queues s p \<noteq> None \<and> r \<in> set (L p)" for p r
    using q by auto
  have P: "pend ?L ?s = pend L s" unfolding set_eq_iff pend_mem dom by blast
  have "queues_ok ?L ?s"
    using invD(6) [OF i] Q m unfolding queues_ok_def
    by (auto simp: put_queue_def rlist_def)
  moreover have "requests_ok ?L ?s"
  proof (rule requests_okI [OF i])
    fix p x
    assume "queues ?s p \<noteq> None" "x \<in> set (?L p)"
    then show "queues s p \<noteq> None \<and> x \<in> set (L p)" using dom by blast
  qed simp_all
  moreover have "maps_ok ?s" "counts_ok ?s" "devices_ok ?s" "buffers_ok ?s" "groups_ok ?s" "events_ok ?s"
    using invD(1-5,7) [OF i] q by (auto simp: maps_ok_def put_queue_def)
  moreover have "cnt ?s ob = add1 (Que q) X ob + irefs (pend L s) ?s ob" for ob
  proof -
    note r = refs_okD [OF invD(9) [OF i], of ob]
    have e: "msum ((queues s)(q \<mapsto> Q)) (queue_dev p) = queue_dev p Q + msum (queues s) (queue_dev p)" for p
      by (rule msum_new [OF f q(2)])
    show ?thesis
    proof (cases ob)
      case (Dev p)
      then show ?thesis using r e [of p] Q by (auto simp: put_queue_def queue_dev_def add1_def)
    next
      case (Que p)
      then show ?thesis using r q z Q by (auto simp: put_queue_def add1_def)
    qed (use r in \<open>simp_all add: put_queue_def add1_def\<close>)
  qed
  ultimately show "inv (add1 (Que q) X) ?L ?s" using P by (simp add: inv_def store_ok_def refs_ok_def)
qed

lemma put_queue_trace: "put_queue q Q (s\<lparr>trace := tr\<rparr>) = (put_queue q Q s)\<lparr>trace := tr\<rparr>"
  by (simp add: put_queue_def)

definition nsid_ok :: "byte list option \<Rightarrow> bool" where
  "nsid_ok nsid \<longleftrightarrow> (case nsid of None \<Rightarrow> True
     | Some str \<Rightarrow> 0 \<in> set str \<and> length (takeWhile (\<lambda>b. b \<noteq> 0) str) < XRP_NAMESPACE_ID_SIZE)"

lemma copied_nsid:
  assumes "nsid_ok nsid"
  shows "\<exists>b id. (case nsid of None \<Rightarrow> Some (False, replicate XRP_NAMESPACE_ID_SIZE 0)
        | Some str \<Rightarrow> do { len \<leftarrow> str_len str XRP_NAMESPACE_ID_SIZE 0;
            Some (True, take len str @ replicate (XRP_NAMESPACE_ID_SIZE - len) 0) }) = Some (b, id) \<and> 0 \<in> set id"
proof (cases nsid)
  case None
  then show ?thesis by (auto simp: XRP_NAMESPACE_ID_SIZE_def)
next
  case (Some str)
  then have ns: "0 \<in> set str" "length (takeWhile (\<lambda>b. b \<noteq> 0) str) + 0 < XRP_NAMESPACE_ID_SIZE"
    using assms by (simp_all add: nsid_ok_def)
  then obtain len where len: "str_len str XRP_NAMESPACE_ID_SIZE 0 = Some len" using str_len_string by blast
  have "len = length (takeWhile (\<lambda>b. b \<noteq> 0) str) + 1" using str_len_terminated [OF len ns(2,1)] by simp
  then show ?thesis using take_terminated [OF ns(1)] Some len by auto
qed

text \<open>What is left of a store by the creation of a queue: nothing but memory when it fails, else
  one reference to a new queue, whose list is empty.\<close>

definition created_queue :: "ptr \<Rightarrow> refs \<Rightarrow> (ptr \<Rightarrow> ptr list) \<Rightarrow> xrp_state \<Rightarrow> ptr \<times> xrp_status \<times> xrp_state \<Rightarrow> bool" where
  "created_queue d X L s r = (case r of (q, st, t) \<Rightarrow>
     q = 0 \<and> st = XRP_STATUS_FAILURE \<and> inv X L t \<and> queues t = queues s \<and> buffers t = buffers s \<and>
       requests t = requests s \<and> events t = events s \<or>
     q \<noteq> 0 \<and> st = XRP_STATUS_SUCCESS \<and> queues s q = None \<and> X (Que q) = 0 \<and> inv (add1 (Que q) X) (L(q := [])) t \<and>
     (\<exists>Q. queues t = (queues s)(q \<mapsto> Q) \<and> q_count Q = 1 \<and> q_device Q = d) \<and> cnt s (Dev d) \<le> cnt t (Dev d) \<and>
     groups t = groups s \<and> buffers t = buffers s \<and> events t = events s \<and> requests t = requests s)"

lemma created_queue_tracked:
  assumes "created_queue d X L s (q, st, t)" and "tracked L s"
  shows "if st = XRP_STATUS_SUCCESS then tracked (L(q := [])) t else tracked L t"
proof -
  have same: "requests t = requests s" "events t = events s" using assms(1) by (auto simp: created_queue_def)
  have "pend (if st = XRP_STATUS_SUCCESS then L(q := []) else L) t = pend L s"
  proof (cases "st = XRP_STATUS_SUCCESS")
    case True
    then have q: "queues s q = None" "\<exists>Q. queues t = (queues s)(q \<mapsto> Q)" using assms(1) by (auto simp: created_queue_def)
    then have "queues t p \<noteq> None \<and> r \<in> set ((L(q := [])) p) \<longleftrightarrow> queues s p \<noteq> None \<and> r \<in> set (L p)" for p r by auto
    then show ?thesis using True unfolding set_eq_iff pend_mem by simp
  qed (use assms(1) in \<open>auto simp: created_queue_def pend_def\<close>)
  then show ?thesis using assms(2) same by (simp add: tracked_def split: if_splits)
qed

lemma create_queue_inv:
  assumes i: "inv X L s" and d: "0 < cnt s (Dev d)" "cnt s (Dev d) + 1 < 2 ^ 64" and ns: "nsid_ok nsid"
    and th: "\<And>tr q. ans_ret (env_sys E tr (Sys_thread_create q)) = 0"
  shows "returns (xrp_create_nsp_queue E d nsid pr s) (created_queue d X L s)"
proof -
  obtain D where D: "devices s d = Some D" using d(1) by (auto split: option.splits)
  let ?s1 = "s\<lparr>devices := (devices s)(d \<mapsto> D\<lparr>d_count := retain_refcounted (d_count D)\<rparr>)\<rparr>"
  have r: "xrp_retain_device d s = Some ?s1" by (simp add: xrp_retain_device_def D)
  have "inv (X(Dev d := X (Dev d) + 1)) L ?s1" using retain_device_inv [OF i d] r by simp
  then have i1: "inv (add1 (Dev d) X) L ?s1" by (simp add: add1_def)
  show ?thesis
  proof (cases "new_ptr E ?s1 = 0")
    case True
    have i2: "inv (add1 (Dev d) X) L (?s1\<lparr>allocs := Suc (allocs ?s1)\<rparr>)" using i1 by simp
    obtain dv tr where "xrp_release_device E d (?s1\<lparr>allocs := Suc (allocs ?s1)\<rparr>) =
        Some (?s1\<lparr>allocs := Suc (allocs ?s1), devices := dv, trace := tr\<rparr>)"
      "inv X L (?s1\<lparr>allocs := Suc (allocs ?s1), devices := dv, trace := tr\<rparr>)"
      by (rule release_device_put [OF i2])
    then show ?thesis using True by (simp add: xrp_create_nsp_queue_def r alloc_refcounted_eq created_queue_def)
  next
    case False
    let ?q = "new_ptr E ?s1" and ?s2 = "?s1\<lparr>allocs := Suc (allocs ?s1)\<rparr>"
    have fr: "queues s ?q = None" "queues ?s2 ?q = None" using new_ptr_fresh [of E ?s1] False by (simp_all add: fresh_def)
    obtain b id where id: "(case nsid of None \<Rightarrow> Some (False, replicate XRP_NAMESPACE_ID_SIZE 0)
        | Some str \<Rightarrow> do { len \<leftarrow> str_len str XRP_NAMESPACE_ID_SIZE 0;
            Some (True, take len str @ replicate (XRP_NAMESPACE_ID_SIZE - len) 0) }) = Some (b, id)" "0 \<in> set id"
      using copied_nsid [OF ns] by blast
    let ?Q = "\<lparr>q_count = 1, q_device = d, q_use_nsid = b, q_priority = pr, q_nsid = id,
      q_impl = \<lparr>rq_thread = True, rq_cond = False, rq_request_queue = \<lparr>rl_head = 0, rl_tail = 0\<rparr>, rq_exit = False\<rparr>\<rparr>"
    let ?t = "(put_queue ?q ?Q ?s2)\<lparr>trace := trace s @ [Sys_thread_create ?q]\<rparr>"
    have eq: "xrp_create_nsp_queue E d nsid pr s = Some (?q, XRP_STATUS_SUCCESS, ?t)"
      unfolding xrp_create_nsp_queue_def r id(1) alloc_refcounted_eq using False
      by (simp add: xrp_impl_create_queue_def xrp_queue_init_def sys_def th put_queue_def)
    have i2: "inv (add1 (Dev d) X) L ?s2" using i1 by simp
    note nq = inv_queue_new [OF i2 False fr(2), of ?Q]
    have "cnt s (Dev d) \<le> cnt ?t (Dev d)"
      using D d(2) retain_count [of "d_count D"] by (simp add: put_queue_def)
    moreover have "\<exists>Q. queues ?t = (queues s)(?q \<mapsto> Q) \<and> q_count Q = 1 \<and> q_device Q = d"
      by (intro exI [of _ ?Q]) (simp add: put_queue_def)
    ultimately show ?thesis unfolding eq using nq fr(1) id(2) False by (simp add: created_queue_def del: cnt.simps)
  qed
qed

section \<open>A command with a queue of its own\<close>

lemma hold_pass:
  "hold (add1 (Grp g) X) bs = add1 (Grp g) (hold X bs)" "hold (add1 (Que q) X) bs = add1 (Que q) (hold X bs)"
  "hold (padd X Y) bs = padd (hold X bs) Y"
  by (rule ext; simp add: hold_def add1_def padd_def split: obj.splits)+

lemma hold_some: "hold X (bs @ cs) = padd (hold X bs) (hold (\<lambda>_. 0) cs)"
  by (rule ext) (simp add: hold_def padd_def split: obj.splits)

lemma linv_release_buffers:
  assumes i: "linv (hold X bs) L s" and f: "fds_ok s" and n: "unat num = length bs"
  shows "returns (release_xrp_buffers E bs num s) (ran X L s)"
proof -
  obtain Y where "inv (padd (hold X bs) Y) L s" using i by (auto simp: linv_def)
  then have "inv (hold (padd X Y) (bs @ [])) L s" by (simp add: hold_pass)
  from release_each_plain [OF this, of E] obtain t where
    t: "release_each E bs s = Some t" "inv (padd X Y) L t" "keeps s t" by (auto elim!: returnsE)
  have "fds_ok t" using alwaysD [OF release_each_tidy [OF tidy_refl] t(1)] f by (simp add: tidy_def)
  then show ?thesis using t by (auto simp: ran_def release_buffers_all [OF n] intro: linvI)
qed

text \<open>The group, the buffers and the queue go back, from a store up to lost references.\<close>

lemma command_take_down:
  assumes i: "linv (add1 (Grp g) (hold (add1 (Que q) X) bs)) L s" and f: "fds_ok s"
    and m: "unat num = length bs" and n: "length (L q) < n"
  shows "returns (do { s \<leftarrow> xrp_release_buffer_group E g s; s \<leftarrow> release_xrp_buffers E bs num s;
      s \<leftarrow> xrp_release_queue n E q s; Some (st, s) })
    (\<lambda>(r, t). r = st \<and> fds_ok t \<and> (\<exists>L'. linv X L' t \<and> (tracked L s \<longrightarrow> tracked L' t)))"
proof -
  obtain t where t: "xrp_release_buffer_group E g s = Some t" "linv (hold (add1 (Que q) X) bs) L t" "fds_ok t" "keeps s t"
    using linv_release_group [OF i f, of E] by (auto elim!: returnsE simp: ran_def)
  obtain u where u: "release_xrp_buffers E bs num t = Some u" "linv (add1 (Que q) X) L u" "fds_ok u" "keeps t u"
    using linv_release_buffers [OF t(2,3) m, of E] by (auto elim!: returnsE simp: ran_def)
  obtain Y where "inv (padd (add1 (Que q) X) Y) L u" using u(2) by (auto simp: linv_def)
  then obtain Q where Q: "queues u q = Some Q" using owned_live(4) [of "padd (add1 (Que q) X) Y" L u q] by (auto simp: padd_app)
  obtain v where v: "xrp_release_queue n E q u = Some v" "queue_left q Q X L u v"
    using release_queue_client [OF u(2,3) Q n, of E] by (auto elim!: returnsE)
  obtain L' where "linv X L' v" "tracked L u \<Longrightarrow> tracked L' v" using queue_left_lists [OF v(2) Q] by blast
  then show ?thesis using v t(1) u(1) keeps_tracked [OF t(4), of L] keeps_tracked [OF u(4), of L]
    by (auto simp: queue_left_def)
qed

text \<open>The part of the command after its group and its queue are there.\<close>

lemma command_with_queue:
  assumes i: "inv (add1 (Grp g) (add1 (Que q) X)) L s" and f: "fds_ok s"
    and g: "groups s g = Some G" "group_records G = []" "g_count G = 1"
    and Q: "queues s q = Some Q" "q_count Q = 1" "L q = []" and d: "0 < cnt s (Dev d)"
    and b: "unat num \<le> length buffer" "\<not> needs_memory buffer (unat num)"
    and io: "inout_size inp \<noteq> 0 \<Longrightarrow> inout_vir inp \<noteq> 0" and n: "1 < n"
  shows "returns (do {
      (wrapped, buf, s) \<leftarrow> wrap_buffers E d g (\<lambda>_. XRP_READ_WRITE) buffer (unat num) [] s;
      if \<not> wrapped
      then do { s \<leftarrow> xrp_release_buffer_group E g s; s \<leftarrow> release_xrp_buffers E buf (of_nat (length buf)) s;
                s \<leftarrow> xrp_release_queue n E q s; Some (SPRD_XRP_STATUS_FAILURE, s) }
      else do {
        (status, s) \<leftarrow> xrp_run_command_sync n E q
           (inout_vir inp) (inout_fd inp) (ucast (inout_size inp))
           (inout_vir out) (inout_fd out) (ucast (inout_size out)) g s;
        s \<leftarrow> xrp_release_buffer_group E g s;
        s \<leftarrow> release_xrp_buffers E buf num s;
        s \<leftarrow> xrp_release_queue n E q s;
        Some (if status \<noteq> XRP_STATUS_SUCCESS then SPRD_XRP_STATUS_FAILURE
              else SPRD_XRP_STATUS_SUCCESS, s) } })
    (\<lambda>(st, t). fds_ok t \<and> (\<exists>L'. linv X L' t \<and> (tracked L s \<longrightarrow> tracked L' t)))"
proof -
  let ?X = "add1 (Grp g) (add1 (Que q) X)"
  have i0: "inv (hold ?X []) L s" using i by simp
  have num: "unat num < 2 ^ 32" by (rule order_less_le_trans [OF unsigned_less]) simp
  have "returns_unless (needs_memory buffer (unat num))
      (wrap_buffers E d g (\<lambda>_. XRP_READ_WRITE) buffer (unat num) [] s) (wrapped ?X L s d [] (unat num))"
    by (rule wrap_buffers_inv [where G = G, OF i0 g(1)]) (use g b d num in simp_all)
  then obtain ok buf t where t: "wrap_buffers E d g (\<lambda>_. XRP_READ_WRITE) buffer (unat num) [] s = Some (ok, buf, t)"
    and w: "wrapped ?X L s d [] (unat num) (ok, buf, t)"
    using b(2) by (auto elim!: returnsE)
  obtain lost where k: "keeps s t" and it: "inv (hold ?X (buf @ lost)) L t"
    and len: "length buf \<le> unat num" "ok \<longrightarrow> lost = [] \<and> length buf = unat num"
    using w unfolding wrapped_def prod.case append_Nil by (metis add_leD1)
  have ft: "fds_ok t" using alwaysD [OF wrap_buffers_tidy [OF tidy_refl b(2)] t] f by (simp add: tidy_def)
  show ?thesis
  proof (cases ok)
    case False
    have "linv (add1 (Grp g) (hold (add1 (Que q) X) buf)) L t"
      using linvI [of "hold ?X buf" "hold (\<lambda>_. 0) lost"] it [unfolded hold_some [of ?X]] by (simp add: hold_pass)
    moreover have "unat (of_nat (length buf) :: u32) = length buf" using len(1) num by (simp add: unat_of_nat)
    ultimately show ?thesis using command_take_down [of g q X buf L t "of_nat (length buf)" n] ft Q(3) n False t keeps_tracked [OF k, of L]
      by (auto elim!: returnsE)
  next
    case True
    have i2: "inv (hold ?X buf) L t" using it len(2) True by simp
    have Qt: "queues t q = Some Q" using k Q(1) by (simp add: keeps_def)
    have P: "pend L t = pend L s" using k by (simp add: keeps_def pend_def)
    have "cnt t (Grp g) = cnt s (Grp g)"
      using refs_okD [OF invD(9) [OF i], of "Grp g"] refs_okD [OF invD(9) [OF i2], of "Grp g"] k P
      by (simp add: keeps_def)
    then have gc: "0 < cnt t (Grp g) \<and> cnt t (Grp g) + 1 < 2 ^ 64" using g by simp
    have sz: "(ucast (inout_size inp) :: size_t) \<noteq> 0 \<Longrightarrow> inout_vir inp \<noteq> 0"
      by (rule io, rule notI) (simp only: unsigned_0)
    have q1: "q_count Q \<noteq> 0" "unat (q_count Q) + 1 < 2 ^ 64" "length (L q) + 1 < n" using Q n by simp_all
    obtain st u L' where u: "xrp_run_command_sync n E q (inout_vir inp) (inout_fd inp) (ucast (inout_size inp))
           (inout_vir out) (inout_fd out) (ucast (inout_size out)) g t = Some (st, u)"
        "fds_ok u" "linv (hold ?X buf) L' u" "shorter (L(q := L q @ [0])) L'" "tracked L t \<longrightarrow> tracked L' u"
      using run_sync [where E = E and sz = "ucast (inout_size inp)" and in_data = "inout_vir inp" and fd = "inout_fd inp" and od = "inout_vir out" and ofd = "inout_fd out"
          and osz = "ucast (inout_size out)" and grp = g, OF i2 ft Qt q1(1,2) sz gc q1(3)] by (auto elim!: returnsE)
    have "length (L' q) < n" using u(4) Q(3) n by (auto simp: shorter_def dest: spec [of _ q])
    then show ?thesis
      using command_take_down [of g q X buf L' u num n E "if st \<noteq> XRP_STATUS_SUCCESS then SPRD_XRP_STATUS_FAILURE else SPRD_XRP_STATUS_SUCCESS"]
        u(1-3,5) len True t keeps_tracked [OF k, of L] by (auto simp: hold_pass elim!: returnsE)
  qed
qed

lemma send_command_inv:
  assumes i: "inv X L s" and f: "fds_ok s" and d: "0 < cnt s (Dev d)" "cnt s (Dev d) + 1 < 2 ^ 64"
    and ns: "0 \<in> set nsid" and b: "unat num \<le> length buffer" "\<not> needs_memory buffer (unat num)"
    and io: "inout_size inp \<noteq> 0 \<Longrightarrow> inout_vir inp \<noteq> 0" and n: "1 < n"
    and th: "\<And>tr q. ans_ret (env_sys E tr (Sys_thread_create q)) = 0"
  shows "returns (sprd_vdsp_send_command n E d nsid inp out buffer num pr s)
    (\<lambda>(st, t). fds_ok t \<and> (\<exists>L'. linv X L' t \<and> (tracked L s \<longrightarrow> tracked L' t)))"
proof -
  define len where "len = length (takeWhile (\<lambda>b. b \<noteq> 0) nsid)"
  have len: "c_strlen nsid = Some len" using ns by (simp add: c_strlen_def len_def)
  define s1 where "s1 = s\<lparr>allocs := Suc (allocs s)\<rparr>"
  have i1: "inv X L s1" using i by (simp add: s1_def)
  obtain g st s2 where gr: "xrp_create_buffer_group E s1 = (g, st, s2)" by (cases "xrp_create_buffer_group E s1")
  note cg = create_group_inv [OF i1 gr]
  have s2: "devices s2 = devices s" "buffers s2 = buffers s"
    using gr by (auto simp: s1_def xrp_create_buffer_group_def alloc_refcounted_eq put_group_def split: if_splits)
  have k: "keeps s s1" "keeps s s2" using cg by (simp_all add: s1_def keeps_def)
  note tk = keeps_tracked [OF k(1), of L] keeps_tracked [OF k(2), of L]
  from s2 have f2: "fds_ok s2" and d2: "cnt s2 (Dev d) = cnt s (Dev d)" using f by (simp_all add: fds_ok_def)
  consider (early) "len > XRP_NAMESPACE_ID_SIZE - 1 \<or> new_ptr E s = 0 \<or> st \<noteq> XRP_STATUS_SUCCESS"
    | (go) "len \<le> XRP_NAMESPACE_ID_SIZE - 1" "new_ptr E s \<noteq> 0" "st = XRP_STATUS_SUCCESS" by linarith
  then show ?thesis
  proof cases
    case early
    have "linv X L s" "linv X L s1" "fds_ok s1" using i i1 f by (simp_all add: inv_linv s1_def)
    moreover have "st \<noteq> XRP_STATUS_SUCCESS \<Longrightarrow> linv X L s2" using cg inv_linv by auto
    ultimately show ?thesis using early f f2 gr tk
      by (auto 4 4 simp: sprd_vdsp_send_command_def len malloc_def s1_def [symmetric])
  next
    case go
    obtain G where G: "X (Grp g) = 0" "inv (X(Grp g := 1)) L s2" "groups s2 g = Some G" "group_records G = []"
      using cg go(3) by auto
    have g1: "g_count G = 1"
      using gr G(3) go(3) by (auto simp: xrp_create_buffer_group_def alloc_refcounted_eq put_group_def split: if_splits)
    have i2: "inv (add1 (Grp g) X) L s2" using G(1,2) by (simp add: add1_def)
    have nsid: "nsid_ok (Some nsid)" using ns go(1) by (simp add: nsid_ok_def len_def XRP_NAMESPACE_ID_SIZE_def)
    have d3: "0 < cnt s2 (Dev d)" "cnt s2 (Dev d) + 1 < 2 ^ 64" using d d2 by simp_all
    obtain q st' s3 where q: "xrp_create_nsp_queue E d (Some nsid) pr s2 = Some (q, st', s3)"
        "created_queue d (add1 (Grp g) X) L s2 (q, st', s3)"
      using create_queue_inv [OF i2 d3 nsid th, of pr] by (auto elim!: returnsE)
    have go1: "\<not> len > XRP_NAMESPACE_ID_SIZE - 1" using go(1) by simp
    show ?thesis
    proof (cases "st' = XRP_STATUS_SUCCESS")
      case False
      then have "linv (add1 (Grp g) X) L s3" using q(2) inv_linv by (auto simp: created_queue_def)
      moreover have "fds_ok s3" using q(2) False f2 by (auto simp: created_queue_def fds_ok_def)
      ultimately obtain t where t: "xrp_release_buffer_group E g s3 = Some t" "linv X L t" "fds_ok t" "keeps s3 t"
        using linv_release_group [of g X L s3 E] by (auto simp: ran_def elim!: returnsE)
      have "tracked L s \<longrightarrow> tracked L t" using created_queue_tracked [OF q(2)] False tk keeps_tracked [OF t(4), of L] by simp
      moreover have "sprd_vdsp_send_command n E d nsid inp out buffer num pr s = Some (SPRD_XRP_STATUS_FAILURE, t)"
        using q(1) t(1) go go1 False gr by (simp add: sprd_vdsp_send_command_def len malloc_def s1_def [symmetric])
      ultimately show ?thesis using t(2,3) by auto
    next
      case True
      obtain Q where Q: "queues s3 q = Some Q" "q_count Q = 1" "cnt s2 (Dev d) \<le> cnt s3 (Dev d)"
          "groups s3 = groups s2" "buffers s3 = buffers s2" and i3: "inv (add1 (Que q) (add1 (Grp g) X)) (L(q := [])) s3"
        using q(2) True by (auto simp: created_queue_def simp del: cnt.simps)
      have f3: "fds_ok s3" using f2 Q(5) by (simp add: fds_ok_def)
      note cq = command_with_queue [where E = E and inp = inp and out = out and num = num and buffer = buffer,
          OF i3 [unfolded add1_commute [of "Que q"]] f3 _ G(4) g1 Q(1,2) _ _ b io n]
      have "groups s3 g = Some G" "(L(q := [])) q = []" "0 < cnt s3 (Dev d)" using G(3) Q(3,4) d3(1) by simp_all
      note cq = cq [OF this]
      have "tracked L s \<Longrightarrow> tracked (L(q := [])) s3" using created_queue_tracked [OF q(2)] True tk by simp
      then show ?thesis using cq q(1) go go1 True gr
        by (auto simp: sprd_vdsp_send_command_def len malloc_def s1_def [symmetric] elim!: returns_mono)
    qed
  qed
qed

end
