(* ===== verification/Xrp_Queue_Props.thy ===== *)
theory Xrp_Queue_Props
  imports Vdsp_Command_Refs Xrp_Sample
begin

text \<open>
  The properties of queues, their workers and events, and of commands that are sent through a
  queue. The witnesses apply them in the sample store, whose queue has two waiting requests.
\<close>

lemma sample_fds: "fds_ok sample_state"
  by (simp add: fds_ok_def sample_buffer_def)

lemma sample_counts:
  "cnt sample_state (Dev 0x1000) = 2" "cnt sample_state (Grp 0x6000) = 2" "cnt sample_state (Que 0x2000) = 2"
  by (simp_all add: sample_objects)

lemma sample_waiting: "waiting_at 1 0x5000 sample_lists sample_state"
  by (simp add: waiting_at_def sample_objects sample_lists_def)

section \<open>The list of requests\<close>

text \<open>Property C14: requests come off the list of a queue in the order they were pushed, and none is lost.\<close>

theorem requests_fifo:
  assumes "rlist (fst l) (snd l) []" and "0 \<notin> set xs" and "distinct xs"
  shows "fst (rl.pops (length xs) (rl.pushes xs l)) = xs"
  by (rule rl.fifo_order) (use assms in auto)

theorem requests_fifo_witness:
  "fst (rl.pops 3 (rl.pushes [8, 24, 16] ((\<lambda>_. 0), \<lparr>rl_head = 0, rl_tail = 0\<rparr>))) = [8, 24, 16]"
  using requests_fifo [of "((\<lambda>_. 0), \<lparr>rl_head = 0, rl_tail = 0\<rparr>)" "[8, 24, 16]"] by (simp add: rlist_def numeral_3_eq_3)

section \<open>Putting a command in a queue\<close>



section \<open>The worker\<close>




text \<open>The sample store without the event, so that the client's reference to the queue is the last.\<close>

definition sample_last :: xrp_state where
  "sample_last = sample_state\<lparr>queues := [0x2000 \<mapsto> sample_queue\<lparr>q_count := 1\<rparr>], events := Map.empty,
     requests := [0x3000 \<mapsto> sample_request 0 0, 0x4000 \<mapsto> sample_request 0x6000 0]\<rparr>"

lemma sample_last_inv: "inv (sample_refs(Evt 0x5000 := 0)) sample_lists sample_last"
proof -
  have pend: "pend sample_lists sample_last = {0x3000, 0x4000}" by (simp add: pend_def sample_lists_def sample_last_def)
  have "store_ok sample_lists sample_last"
    unfolding store_ok_def
    by (intro conjI)
      (auto simp: maps_ok_def counts_ok_def devices_ok_def buffers_ok_def groups_ok_def group_ok_def
        queues_ok_def events_ok_def requests_ok_def sample_lists_def sample_objects rlist_def less_Suc_eq
        pend sample_last_def split: if_splits)
  moreover have "cnt sample_last ob = (sample_refs(Evt 0x5000 := 0)) ob + irefs {0x3000, 0x4000} sample_last ob" for ob
    by (cases ob) (auto simp: sample_last_def sample_refs_def msum_new restrict_map_insert ref_defs group_buf_def group_bufs_def
        group_records_def map_refs_def sample_objects)
  ultimately show ?thesis by (simp add: inv_def refs_ok_def pend)
qed


section \<open>Waiting for a command\<close>






text \<open>A kernel that grants everything and creates threads.\<close>

definition thread_env :: env where
  "thread_env = sample_env\<lparr>env_sys := (\<lambda>h c. case c of Sys_thread_create _ \<Rightarrow> granted\<lparr>ans_ret := 0\<rparr> | _ \<Rightarrow> granted)\<rparr>"


text \<open>Property C13: the failures of the driver get lost on the way through a queue: a queued command fails only
  when there is no memory for the array of its buffers. \<open>sprd_vdsp_send_cmd_direc\<close> answers a failure
  with the positive SPRD_VDSP_RESULT_FAIL, and \<open>_xrp_run_command\<close> takes only negative values for one.\<close>

theorem queued_failures_hidden:
  assumes "xrp_run_command E q in_data fd sz od ofd osz grp s = Some (st, t)"
    and "grp = 0 \<or> new_ptr E s \<noteq> 0"
  shows "st = XRP_STATUS_SUCCESS"
proof -
  have "result_int r \<ge> 0" for r by (cases r) (simp_all add: result_int_def)
  then show ?thesis using assms
    by (auto simp: xrp_run_command_def bind_eq_Some_conv malloc_def not_less split: if_splits prod.splits)
qed

text \<open>A kernel that refuses every command.\<close>

definition refusing_env :: env where
  "refusing_env = sample_env\<lparr>env_sys := (\<lambda>h c. case c of Sys_ioctl_queue _ _ \<Rightarrow> granted\<lparr>ans_ret := - 1\<rparr> | _ \<Rightarrow> granted)\<rparr>"

theorem queued_failures_hidden_witness:
  "map_option fst (xrp_run_command refusing_env 0x2000 0 (- 1) 0 0 (- 1) 0 0 sample_state) = Some XRP_STATUS_SUCCESS \<and>
   map_option fst (sprd_vdsp_send_command_directly refusing_env 0x1000 (q_nsid sample_queue) None None [] 0 0 sample_state)
     = Some SPRD_XRP_STATUS_FAILURE"
proof -
  have d: "map_option fst (sprd_vdsp_send_command_directly refusing_env 0x1000 (q_nsid sample_queue) None None [] 0 0 sample_state)
     = Some SPRD_XRP_STATUS_FAILURE" by code_simp
  then obtain t where "xrp_run_command refusing_env 0x2000 0 (- 1) 0 0 (- 1) 0 0 sample_state \<noteq> None"
    by (auto simp: xrp_run_command_def sprd_vdsp_send_cmd_direc_def client_inout_def sample_queue_def)
  then obtain st t where r: "xrp_run_command refusing_env 0x2000 0 (- 1) 0 0 (- 1) 0 0 sample_state = Some (st, t)" by auto
  show ?thesis using d r queued_failures_hidden [OF r] by simp
qed

end
