(* ===== verification/Xrp_Api.thy ===== *)
theory Xrp_Api
  imports Vdsp_Command_Refs Xrp_Sample
begin

text \<open>
  The programs that use the library. A client holds references; a call is allowed when the client
  holds the objects it names. Every allowed call returns and leaves a store in which the next
  allowed call returns: no sequence of them reaches a freed object, a null pointer, a second lock
  of a held mutex or a wait without end.
\<close>

section \<open>The invariant of a client program\<close>

text \<open>\<open>X\<close> is what the client holds. The library may have lost references (\<open>Y\<close>), never given back
  one too many.\<close>

definition good :: "refs \<Rightarrow> xrp_state \<Rightarrow> bool" where
  "good X s \<longleftrightarrow> (\<exists>L. linv X L s \<and> fds_ok s \<and> tracked L s)"

definition drop1 :: "obj \<Rightarrow> refs \<Rightarrow> refs" where
  "drop1 k X = X(k := X k - 1)"

lemma goodE:
  assumes "good X s"
  obtains L Y where "inv (padd X Y) L s" "fds_ok s" "tracked L s"
  using assms by (auto simp: good_def linv_def)

lemma goodI: "inv (padd X Y) L s \<Longrightarrow> fds_ok s \<Longrightarrow> tracked L s \<Longrightarrow> good X s"
  unfolding good_def using linvI by blast

lemma good_keep: "inv (padd X Y) L t \<Longrightarrow> fds_ok t \<Longrightarrow> keeps s t \<Longrightarrow> tracked L s \<Longrightarrow> good X t"
  using goodI keeps_tracked by blast

lemma good_ran: "ran X L s t \<Longrightarrow> tracked L s \<Longrightarrow> good X t"
  using keeps_tracked by (auto simp: ran_def good_def)

lemma add1_drop1: "0 < X k \<Longrightarrow> add1 k (drop1 k X) = X"
  by (rule ext) (simp add: add1_def drop1_def)

lemma drop1_add1: "drop1 k (add1 k X) = X"
  by (rule ext) (simp add: add1_def drop1_def)

lemma padd_new: "padd X Y k = 0 \<Longrightarrow> (padd X Y)(k := 1) = padd (add1 k X) Y"
  "padd X Y k = 0 \<Longrightarrow> (padd X Y)(k := 1) = padd X (add1 k Y)"
  by (rule ext; simp add: padd_def add1_def)+

lemma padd_gain: "(padd X Y)(k := padd X Y k + 1) = padd (add1 k X) Y"
  by (rule ext) (simp add: padd_def add1_def)

lemma good_counts: "good X s \<Longrightarrow> X ob \<le> cnt s ob"
  by (elim goodE) (simp add: refs_okD [OF invD(9)] padd_app del: cnt.simps irefs.simps)

lemma fds_same: "buffers t = buffers s \<Longrightarrow> fds_ok t = fds_ok s"
  by (simp add: fds_ok_def)

lemma owned_count: "inv Z L s \<Longrightarrow> 0 < Z ob \<Longrightarrow> 0 < cnt s ob"
  by (simp add: refs_okD [OF invD(9)] del: cnt.simps irefs.simps)

section \<open>Reference counting\<close>

text \<open>The contract the five kinds of objects share. Retaining an object its client holds adds one
  reference to the client's account; releasing one takes it away again. What a release needs
  beside the reference (fuel for the worker, where the last reference ends a queue) depends on the
  requests alone.\<close>

locale retained =
  fixes obj :: "ptr \<Rightarrow> obj"
    and retain :: "ptr \<Rightarrow> xrp_state \<Rightarrow> xrp_state option"
  assumes retain_inv: "inv Z L s \<Longrightarrow> 0 < Z (obj p) \<Longrightarrow> cnt s (obj p) + 1 < 2 ^ 64 \<Longrightarrow>
      returns (retain p s) (inv (Z(obj p := Z (obj p) + 1)) L)"
    and retain_frame: "retain p s = Some t \<Longrightarrow> fds_ok s \<Longrightarrow> fds_ok t \<and> requests t = requests s"
    and retain_tracked: "retain p s = Some t \<Longrightarrow> tracked L s \<Longrightarrow> tracked L t"
begin

lemma retain_good:
  assumes "good X s" and "0 < X (obj p)" and "cnt s (obj p) + 1 < 2 ^ 64"
  shows "returns (retain p s) (\<lambda>t. good (add1 (obj p) X) t \<and> requests t = requests s)"
proof -
  obtain L Y where i: "inv (padd X Y) L s" "fds_ok s" "tracked L s" by (rule goodE [OF assms(1)])
  have "0 < padd X Y (obj p)" using assms(2) by (simp add: padd_app)
  then obtain t where t: "retain p s = Some t" "inv (padd (add1 (obj p) X) Y) L t"
    using retain_inv [OF i(1) _ assms(3)] unfolding padd_gain by (auto elim!: returnsE)
  then show ?thesis using goodI retain_frame [OF t(1) i(2)] retain_tracked [OF t(1) i(3)] by auto
qed

end

locale counted = retained +
  fixes release :: "ptr \<Rightarrow> xrp_state \<Rightarrow> xrp_state option"
    and enough :: "(ptr \<rightharpoonup> xrp_request) \<Rightarrow> bool"
  assumes release_good: "good X s \<Longrightarrow> 0 < X (obj p) \<Longrightarrow> enough (requests s) \<Longrightarrow>
      returns (release p s) (good (drop1 (obj p) X))"
begin

text \<open>A retain that a release follows leaves the client what it held.\<close>

lemma retain_release:
  assumes "good X s" and "0 < X (obj p)" and "cnt s (obj p) + 1 < 2 ^ 64" and "enough (requests s)"
  shows "returns (do { s \<leftarrow> retain p s; release p s }) (good X)"
proof -
  obtain t where t: "retain p s = Some t" "good (add1 (obj p) X) t" "requests t = requests s"
    using retain_good [OF assms(1-3)] by (auto elim!: returnsE)
  then have "returns (release p t) (good (drop1 (obj p) (add1 (obj p) X)))"
    using assms(4) by (intro release_good) (simp_all add: add1_def)
  then show ?thesis using t(1) by (simp add: drop1_add1)
qed

end

section \<open>Devices\<close>

lemma good_open:
  assumes "good X s" and o: "xrp_open_device_newmode E idx type s = (d, st, t)"
  shows "good (if d = 0 then X else add1 (Dev d) X) t"
proof -
  obtain L Y where i: "inv (padd X Y) L s" "fds_ok s" "tracked L s" by (rule goodE [OF assms(1)])
  have k: "keeps s t" "buffers t = buffers s"
    using o by (cases rule: open_newmode_cases; simp)+
  note oi = open_newmode_inv [OF i(1) o]
  show ?thesis
  proof (cases "d = 0")
    case True
    then show ?thesis using oi good_keep [of X Y L t s] i k fds_same [OF k(2)] by simp
  next
    case False
    then have z: "padd X Y (Dev d) = 0" using oi dead_refs(1) [OF i(1), of "Dev d"] by (simp add: fresh_def)
    have "inv ((padd X Y)(Dev d := 1)) L t" using oi False by simp
    then show ?thesis using False good_keep [OF _ _ k(1) i(3)] i(2) fds_same [OF k(2)] unfolding padd_new(1) [OF z] by simp
  qed
qed

lemma open_device_keeps:
  assumes "xrp_open_device E idx type s = Some (d, st, t)"
  shows "keeps s t \<and> buffers t = buffers s"
proof -
  have n: "keeps s v \<and> buffers v = buffers s" if "xrp_open_device_newmode E 0 ty s = (c, st, v)" for c v st ty
    using that by (cases rule: open_newmode_cases) simp_all
  have "keeps s v \<and> buffers v = buffers s" if "sprd_cavdsp_open_device E ty True s = Some (r, h, v)" for r h v ty
    using that n by (cases ty) (auto simp: sprd_cavdsp_open_device_def sprd_vdsp_open_device_def Let_def split: prod.splits if_splits)
  then show ?thesis using assms
    by (auto simp: xrp_open_device_def bind_eq_Some_conv alloc_refcounted_eq Let_def split: option.splits if_splits prod.splits)
qed

lemma good_open_wrapped:
  assumes "good X s"
  shows "returns (xrp_open_device E idx type s) (\<lambda>(d, st, t). good (if d = 0 then X else add1 (Dev d) X) t)"
proof -
  obtain L Y where i: "inv (padd X Y) L s" "fds_ok s" "tracked L s" by (rule goodE [OF assms(1)])
  obtain d st t where r: "xrp_open_device E idx type s = Some (d, st, t)"
    and c: "(d = 0 \<and> st = XRP_STATUS_FAILURE \<and>
       (inv (padd X Y) L t \<or> (\<exists>k. fresh s k \<and> inv ((padd X Y)(Dev k := 1)) L t))) \<or>
    (d \<noteq> 0 \<and> st = XRP_STATUS_SUCCESS \<and> padd X Y (Dev d) = 0 \<and> inv ((padd X Y)(Dev d := 1)) L t)"
    using open_device_inv [OF i(1), of E idx type] by (auto elim!: returnsE)
  have k: "keeps s t" "fds_ok t" using open_device_keeps [OF r] i(2) by (auto simp: fds_ok_def)
  have "\<exists>Z. inv (padd (if d = 0 then X else add1 (Dev d) X) Z) L t"
  proof (cases "d = 0")
    case True
    have "(padd X Y)(Dev k := 1) = padd X (add1 (Dev k) Y)" if "fresh s k" for k
      by (rule padd_new(2)) (use that dead_refs(1) [OF i(1), of "Dev k"] in \<open>simp add: fresh_def\<close>)
    then show ?thesis using c True by (metis (full_types))
  next
    case False
    then have "inv ((padd X Y)(Dev d := 1)) L t" "padd X Y (Dev d) = 0" using c by blast+
    then show ?thesis using False padd_new(1) [of X Y "Dev d"] by (metis (full_types))
  qed
  then show ?thesis using r good_keep [OF _ k(2,1) i(3)] by auto
qed

lemma good_release_device:
  assumes "good X s" and "0 < X (Dev d)"
  shows "returns (xrp_release_device E d s) (good (drop1 (Dev d) X))"
proof -
  obtain L Y where i: "inv (padd X Y) L s" "fds_ok s" "tracked L s" by (rule goodE [OF assms(1)])
  have i1: "inv (add1 (Dev d) (padd (drop1 (Dev d) X) Y)) L s"
    using i(1) add1_drop1 [of X "Dev d"] assms(2) by (metis padd_simps(1))
  obtain dv tr where "xrp_release_device E d s = Some (s\<lparr>devices := dv, trace := tr\<rparr>)"
    "inv (padd (drop1 (Dev d) X) Y) L (s\<lparr>devices := dv, trace := tr\<rparr>)" by (rule release_device_put [OF i1])
  then show ?thesis using good_keep [OF _ _ _ i(3)] i(2) by simp
qed

interpretation dev: counted Dev xrp_retain_device "xrp_release_device E" "\<lambda>_. True" for E
proof
  fix X Z :: refs and L p s t
  show "returns (xrp_retain_device p s) (inv (Z(Dev p := Z (Dev p) + 1)) L)"
    if "inv Z L s" "0 < Z (Dev p)" "cnt s (Dev p) + 1 < 2 ^ 64"
    using that by (intro retain_device_inv) (auto dest: owned_count)
  show "fds_ok t \<and> requests t = requests s" if "xrp_retain_device p s = Some t" "fds_ok s"
    using that by (auto simp: xrp_retain_device_def bind_eq_Some_conv fds_ok_def)
  show "tracked L t" if "xrp_retain_device p s = Some t" "tracked L s"
    using that(2) by (rule keeps_tracked [THEN iffD2, rotated])
      (use that(1) in \<open>auto simp: xrp_retain_device_def bind_eq_Some_conv\<close>)
  show "returns (xrp_release_device E p s) (good (drop1 (Dev p) X))" if "good X s" "0 < X (Dev p)"
    using that by (rule good_release_device)
qed

section \<open>Buffers\<close>

lemma good_create_buffer:
  assumes "good X s" and "fd = - 1 \<Longrightarrow> 0 < X (Dev d) \<and> cnt s (Dev d) + 1 < 2 ^ 64"
    and "fd = - 1 \<Longrightarrow> returns (xrp_create_buffer E d sz hp fd s) (\<lambda>(b, st, t). fds_ok t)"
  shows "returns (xrp_create_buffer E d sz hp fd s) (\<lambda>(b, st, t). good (if b = 0 then X else add1 (Buf b) X) t)"
proof -
  obtain L Y where i: "inv (padd X Y) L s" "fds_ok s" "tracked L s" by (rule goodE [OF assms(1)])
  have d: "fd = - 1 \<Longrightarrow> 0 < cnt s (Dev d) \<and> cnt s (Dev d) + 1 < 2 ^ 64"
    using assms(2) good_counts [OF assms(1), of "Dev d"] by (metis less_le_trans)
  note ci = create_buffer_inv [where E = E and sz = sz and hp = hp and fd = fd, OF i(1) d]
  have "xrp_create_buffer E d sz hp fd s \<noteq> None"
    using assms(3) ci by (cases "fd = - 1") (auto elim!: returnsE)
  then obtain b st t where r: "xrp_create_buffer E d sz hp fd s = Some (b, st, t)" by auto
  have c: "created_buffer (padd X Y) L sz (b, st, t)" "keeps s t" using ci r by auto
  have f: "fds_ok t"
  proof (cases "fd = - 1")
    case False
    then show ?thesis using alwaysD [OF create_host_tidy [OF tidy_refl] r] i(2) by (simp add: tidy_def)
  qed (use assms(3) r in simp)
  have "inv (padd (if b = 0 then X else add1 (Buf b) X) Y) L t"
  proof (cases "b = 0")
    case False
    then have "inv ((padd X Y)(Buf b := 1)) L t" and z: "padd X Y (Buf b) = 0"
      using c(1) unfolding created_buffer_def prod.case by blast+
    then show ?thesis using False unfolding padd_new(1) [OF z] by simp
  qed (use c(1) in \<open>simp add: created_buffer_def\<close>)
  then show ?thesis using r good_keep [OF _ f c(2) i(3)] by auto
qed

lemma good_release_buffer:
  assumes "good X s" and "0 < X (Buf b)"
  shows "returns (xrp_release_buffer E b s) (good (drop1 (Buf b) X))"
proof -
  obtain L Y where i: "inv (padd X Y) L s" "fds_ok s" "tracked L s" by (rule goodE [OF assms(1)])
  have x: "0 < padd X Y (Buf b)" using assms(2) by (simp add: padd_app)
  have e: "(padd X Y)(Buf b := padd X Y (Buf b) - 1) = padd (drop1 (Buf b) X) Y"
    using assms(2) by (auto simp: padd_def drop1_def)
  obtain B where B: "buffers s b = Some B" using owned_live(2) [OF i(1) x] by blast
  have r: "xrp_release_buffer E b s = Some (released_buffer E B b s)" by (rule release_buffer_eq [OF i(1) B])
  have "inv (padd (drop1 (Buf b) X) Y) L (released_buffer E B b s)"
    using release_buffer_inv [OF i(1) x, of E] r unfolding e by simp
  moreover have "fds_ok (released_buffer E B b s)"
    using alwaysD [OF release_buffer_tidy [OF tidy_refl] r] i(2) by (simp add: tidy_def)
  ultimately have "good (drop1 (Buf b) X) (released_buffer E B b s)"
    by (rule good_keep [OF _ _ released_buffer_keeps i(3)])
  then show ?thesis using r by simp
qed

interpretation buf: counted Buf xrp_retain_buffer "xrp_release_buffer E" "\<lambda>_. True" for E
proof
  fix X Z :: refs and L p s t
  show "returns (xrp_retain_buffer p s) (inv (Z(Buf p := Z (Buf p) + 1)) L)"
    if "inv Z L s" "0 < Z (Buf p)" "cnt s (Buf p) + 1 < 2 ^ 64"
    using that by (intro retain_buffer_inv) (auto dest: owned_count)
  show "fds_ok t \<and> requests t = requests s" if r: "xrp_retain_buffer p s = Some t" and "fds_ok s"
    using alwaysD [OF retain_buffer_tidy [OF tidy_refl] r] that
    by (auto simp: tidy_def xrp_retain_buffer_def put_buffer_def bind_eq_Some_conv)
  show "tracked L t" if "xrp_retain_buffer p s = Some t" "tracked L s"
    using keeps_tracked [of s t L] retain_buffer_keeps [OF that(1)] that(2) by blast
  show "returns (xrp_release_buffer E p s) (good (drop1 (Buf p) X))" if "good X s" "0 < X (Buf p)"
    using that by (rule good_release_buffer)
qed

lemma good_map_buffer:
  assumes "good X s" and "0 < X (Buf b)" and "cnt s (Buf b) + 1 < 2 ^ 64"
  shows "returns (xrp_map_buffer b off sz fl s) (\<lambda>(p, st, t). good X t)"
proof -
  obtain L Y where i: "inv (padd X Y) L s" "fds_ok s" "tracked L s" by (rule goodE [OF assms(1)])
  have c: "0 < cnt s (Buf b)" using good_counts [OF assms(1), of "Buf b"] assms(2) by linarith
  obtain p st t where t: "xrp_map_buffer b off sz fl s = Some (p, st, t)" "inv (padd X Y) L t"
    using map_buffer_inv [OF i(1) c assms(3), of off sz fl] by (auto elim!: returnsE)
  then have "keeps s t" "fds_ok t"
    using i(2) by (auto simp: xrp_map_buffer_def bind_eq_Some_conv fds_ok_def put_buffer_def split: if_splits)
  then show ?thesis using t good_keep i(3) by auto
qed

lemma good_unmap_buffer:
  assumes "good X s" and "buffers s b = Some B" and "b_map_count B \<noteq> 0"
  shows "returns (xrp_unmap_buffer E b p s) (\<lambda>(st, t). good X t)"
proof -
  obtain L Y where i: "inv (padd X Y) L s" "fds_ok s" "tracked L s" by (rule goodE [OF assms(1)])
  obtain st t where t: "xrp_unmap_buffer E b p s = Some (st, t)" "inv (padd X Y) L t" "st \<noteq> XRP_STATUS_SUCCESS \<longrightarrow> t = s"
    using unmap_buffer_inv [OF i(1) assms(2,3), of E p] by (auto elim!: returnsE)
  let ?s = "put_buffer b (B\<lparr>b_map_count := b_map_count B - 1\<rparr>) s"
  have "keeps s t \<and> fds_ok t"
  proof (cases "st = XRP_STATUS_SUCCESS")
    case True
    then have r: "xrp_release_buffer E b ?s = Some t"
      using t(1) assms(2) by (auto simp: xrp_unmap_buffer_def bind_eq_Some_conv split: if_splits)
    have "releasable s B" by (rule releasable_inv [OF i(1) assms(2)])
    then have "releasable ?s (B\<lparr>b_map_count := b_map_count B - 1\<rparr>)" by (simp add: releasable_def put_buffer_def)
    then have "t = released_buffer E (B\<lparr>b_map_count := b_map_count B - 1\<rparr>) b ?s"
      using r release_buffer_eq_raw [of ?s "B\<lparr>b_map_count := b_map_count B - 1\<rparr>" b E] by (simp add: put_buffer_def)
    then have "keeps ?s t" using released_buffer_keeps by simp
    moreover have "tidy ?s t" using alwaysD [OF release_buffer_tidy [OF tidy_refl] r] .
    moreover have "fds_ok ?s" using i(2) assms(2) by (auto simp: fds_ok_def put_buffer_def)
    ultimately show ?thesis by (auto simp: tidy_def keeps_def put_buffer_def)
  qed (use t(3) i(2) in auto)
  then have "good X t" using good_keep [OF t(2) _ _ i(3)] by blast
  then show ?thesis using t(1) by simp
qed

section \<open>Buffer groups\<close>

lemma good_create_group:
  assumes "good X s" and r: "xrp_create_buffer_group E s = (g, st, t)"
  shows "good (if g = 0 then X else add1 (Grp g) X) t"
proof -
  obtain L Y where i: "inv (padd X Y) L s" "fds_ok s" "tracked L s" by (rule goodE [OF assms(1)])
  note c = create_group_inv [OF i(1) r]
  have f: "fds_ok t" using r i(2) by (auto simp: create_group_eq Let_def fds_ok_def split: if_splits)
  have "inv (padd (if g = 0 then X else add1 (Grp g) X) Y) L t"
  proof (cases "g = 0")
    case False
    then have "inv ((padd X Y)(Grp g := 1)) L t" and z: "padd X Y (Grp g) = 0" using c by blast+
    then show ?thesis using False unfolding padd_new(1) [OF z] by simp
  qed (use c in simp)
  then show ?thesis using good_keep [OF _ f _ i(3)] c by simp
qed

lemma good_release_group:
  assumes "good X s" and "0 < X (Grp g)"
  shows "returns (xrp_release_buffer_group E g s) (good (drop1 (Grp g) X))"
proof -
  obtain L where i: "linv X L s" "fds_ok s" "tracked L s" using assms(1) by (auto simp: good_def)
  have "linv (add1 (Grp g) (drop1 (Grp g) X)) L s" using i(1) add1_drop1 [of X "Grp g"] assms(2) by simp
  from linv_release_group [OF this i(2), of E] show ?thesis
    by (rule returns_mono) (rule good_ran [OF _ i(3)])
qed

interpretation grp: counted Grp xrp_retain_buffer_group "xrp_release_buffer_group E" "\<lambda>_. True" for E
proof
  fix X Z :: refs and L p s t
  show "returns (xrp_retain_buffer_group p s) (inv (Z(Grp p := Z (Grp p) + 1)) L)"
    if "inv Z L s" "0 < Z (Grp p)" "cnt s (Grp p) + 1 < 2 ^ 64"
    using retain_group_inv [OF that(1) owned_count [OF that(1,2)] that(3)] by (rule returns_mono) simp
  show "fds_ok t \<and> requests t = requests s" if "xrp_retain_buffer_group p s = Some t" "fds_ok s"
    using that by (auto simp: xrp_retain_buffer_group_def bind_eq_Some_conv fds_ok_def put_group_def)
  show "tracked L t" if "xrp_retain_buffer_group p s = Some t" "tracked L s"
    using that(2) by (rule keeps_tracked [THEN iffD2, rotated])
      (use that(1) in \<open>auto simp: xrp_retain_buffer_group_def bind_eq_Some_conv put_group_def\<close>)
  show "returns (xrp_release_buffer_group E p s) (good (drop1 (Grp p) X))" if "good X s" "0 < X (Grp p)"
    using that by (rule good_release_group)
qed

lemma good_add_buffer:
  assumes "good X s" and "0 < X (Grp g)" and "0 < X (Buf b)" and "cnt s (Buf b) + 1 < 2 ^ 64"
    and "\<And>G. groups s g = Some G \<Longrightarrow> unat (g_n_buffers G) < 2 ^ 58"
  shows "returns (xrp_add_buffer_to_group E g b fl s) (\<lambda>(n, st, t). good X t)"
proof -
  obtain L Y where i: "inv (padd X Y) L s" "fds_ok s" "tracked L s" by (rule goodE [OF assms(1)])
  have c: "0 < cnt s (Buf b)" using good_counts [OF assms(1), of "Buf b"] assms(3) by linarith
  obtain G where G: "groups s g = Some G" using owned_live(3) [OF i(1), of g] assms(2) by (auto simp: padd_app)
  obtain n st t where t: "xrp_add_buffer_to_group E g b fl s = Some (n, st, t)" "inv (padd X Y) L t" "keeps s t"
    using add_buffer_inv [OF i(1) G c assms(4) assms(5) [OF G], of E fl] by (auto elim!: returnsE)
  have "fds_ok t" using alwaysD [OF add_buffer_tidy [OF tidy_refl] t(1)] i(2) by (simp add: tidy_def)
  then show ?thesis using t good_keep i(3) by auto
qed

lemma set_buffer_tidy: "always (xrp_set_buffer_in_group E g idx b fl s) (\<lambda>x. tidy s (snd x))"
  unfolding xrp_set_buffer_in_group_def Let_def
proof (rule always_bindI [OF retain_buffer_tidy [OF tidy_refl]], rule always_readI, rule always_readI,
    rule always_readI, clarify, rule always_readI)
  fix t :: xrp_state and G m old st G' m'
  assume "tidy s t"
  then show "always (do { u \<leftarrow> xrp_release_buffer E old (put_group g (G'\<lparr>g_mutex := m'\<rparr>) t); Some (st, u) }) (\<lambda>x. tidy s (snd x))"
    by (intro always_bindI [OF release_buffer_tidy [of s]]) simp_all
qed

lemma get_buffer_tidy: "always (xrp_get_buffer_from_group g idx s) (\<lambda>x. tidy s (snd (snd x)))"
  unfolding xrp_get_buffer_from_group_def Let_def
proof (rule always_readI, rule always_readI, rule always_bindI)
  fix G m
  show "always (if idx < g_n_buffers (G\<lparr>g_mutex := m\<rparr>)
      then do { r \<leftarrow> slot (G\<lparr>g_mutex := m\<rparr>) idx; s \<leftarrow> xrp_retain_buffer (gr_buffer r) s; Some (gr_buffer r, XRP_STATUS_SUCCESS, s) }
      else Some (0, XRP_STATUS_FAILURE, s)) (\<lambda>x. tidy s (snd (snd x)))"
    by (auto simp del: always_simps(3) intro!: always_readI [of "slot _ _"] always_bindI [OF retain_buffer_tidy [OF tidy_refl]])
qed (auto simp del: always_simps(3) intro!: always_readI)

lemma good_set_buffer:
  assumes "good X s" and "0 < X (Grp g)" and "0 < X (Buf b)" and "cnt s (Buf b) + 1 < 2 ^ 64"
  shows "returns (xrp_set_buffer_in_group E g idx b fl s) (\<lambda>(st, t). good X t)"
proof -
  obtain L Y where i: "inv (padd X Y) L s" "fds_ok s" "tracked L s" by (rule goodE [OF assms(1)])
  have c: "0 < cnt s (Buf b)" using good_counts [OF assms(1), of "Buf b"] assms(3) by linarith
  obtain G where G: "groups s g = Some G" using owned_live(3) [OF i(1), of g] assms(2) by (auto simp: padd_app)
  obtain st t where t: "xrp_set_buffer_in_group E g idx b fl s = Some (st, t)" "inv (padd X Y) L t" "keeps s t"
    using set_buffer_inv [OF i(1) G c assms(4), of E idx fl] by (auto elim!: returnsE)
  have "fds_ok t" using alwaysD [OF set_buffer_tidy t(1)] i(2) by (simp add: tidy_def)
  then show ?thesis using t good_keep i(3) by auto
qed

lemma good_get_buffer:
  assumes "good X s" and "0 < X (Grp g)" and "\<And>b. cnt s (Buf b) + 1 < 2 ^ 64"
  shows "returns (xrp_get_buffer_from_group g idx s) (\<lambda>(b, st, t). good (if b = 0 then X else add1 (Buf b) X) t)"
proof -
  obtain L Y where i: "inv (padd X Y) L s" "fds_ok s" "tracked L s" by (rule goodE [OF assms(1)])
  obtain G where G: "groups s g = Some G" using owned_live(3) [OF i(1), of g] assms(2) by (auto simp: padd_app)
  obtain b st t where t: "xrp_get_buffer_from_group g idx s = Some (b, st, t)" "keeps s t"
      "if idx < g_n_buffers G
       then st = XRP_STATUS_SUCCESS \<and> b = gr_buffer (group_records G ! unat idx) \<and> inv ((padd X Y)(Buf b := padd X Y (Buf b) + 1)) L t
       else st = XRP_STATUS_FAILURE \<and> b = 0 \<and> t = s"
    using get_buffer_inv [OF i(1) G, of idx] assms(3) by (auto elim!: returnsE)
  have f: "fds_ok t" using alwaysD [OF get_buffer_tidy t(1)] i(2) by (simp add: tidy_def)
  have "inv (padd (if b = 0 then X else add1 (Buf b) X) Y) L t"
  proof (cases "idx < g_n_buffers G")
    case True
    then have b: "inv (padd (add1 (Buf b) X) Y) L t" using t(3) unfolding padd_gain if_P [OF True] by blast
    then have "b \<noteq> 0" using owned_live(2) [OF b, of b] invD(1) [OF b] by (auto simp: padd_app maps_ok_def)
    then show ?thesis using b by simp
  qed (use t(3) i(1) in simp)
  then show ?thesis using t(1) good_keep [OF _ f t(2) i(3)] by simp
qed

section \<open>Queues and events\<close>

lemma good_create_queue:
  assumes "good X s" and "0 < X (Dev d)" and "cnt s (Dev d) + 1 < 2 ^ 64" and "nsid_ok nsid"
    and th: "\<And>tr q. ans_ret (env_sys E tr (Sys_thread_create q)) = 0"
  shows "returns (xrp_create_nsp_queue E d nsid pr s) (\<lambda>(q, st, t). good (if q = 0 then X else add1 (Que q) X) t)"
proof -
  obtain L Y where i: "inv (padd X Y) L s" "fds_ok s" "tracked L s" by (rule goodE [OF assms(1)])
  have c: "0 < cnt s (Dev d)" using good_counts [OF assms(1), of "Dev d"] assms(2) by linarith
  obtain q st t where t: "xrp_create_nsp_queue E d nsid pr s = Some (q, st, t)" "created_queue d (padd X Y) L s (q, st, t)"
    using create_queue_inv [OF i(1) c assms(3,4) th, of pr] by (auto elim!: returnsE)
  have f: "fds_ok t" using t(2) i(2) by (auto simp: created_queue_def fds_ok_def)
  have "good (if q = 0 then X else add1 (Que q) X) t"
    using t(2) created_queue_tracked [OF t(2) i(3)] goodI [OF _ f, of X Y] goodI [OF _ f, of "add1 (Que q) X" Y]
    unfolding created_queue_def by auto
  then show ?thesis using t(1) by simp
qed

text \<open>The number of requests in the store bounds the length of every list.\<close>

lemma list_bound: "inv X L s \<Longrightarrow> queues s q \<noteq> None \<Longrightarrow> length (L q) \<le> card (dom (requests s))"
proof -
  assume i: "inv X L s" and q: "queues s q \<noteq> None"
  then obtain Q where Q: "queues s q = Some Q" by blast
  have "distinct (L q)" using live_queue_ok(4) [OF i Q] by (simp add: rlist_def)
  moreover have "set (L q) \<subseteq> dom (requests s)"
    using q pend_request [OF i] unfolding pend_mem by blast
  moreover have "finite (dom (requests s))" using invD(1) [OF i] by (simp add: maps_ok_def)
  ultimately show ?thesis by (metis card_mono distinct_card)
qed

lemma good_release_queue:
  assumes "good X s" and "0 < X (Que q)" and "card (dom (requests s)) < n"
  shows "returns (xrp_release_queue n E q s) (good (drop1 (Que q) X))"
proof -
  obtain L Y where i: "inv (padd X Y) L s" "fds_ok s" "tracked L s" by (rule goodE [OF assms(1)])
  obtain Q where Q: "queues s q = Some Q" using owned_live(4) [OF i(1), of q] assms(2) by (auto simp: padd_app)
  have n: "length (L q) < n" using list_bound [OF i(1), of q] Q assms(3) by simp
  have l: "linv (add1 (Que q) (drop1 (Que q) X)) L s" using linvI [OF i(1)] add1_drop1 [of X "Que q"] assms(2) by simp
  obtain t where t: "xrp_release_queue n E q s = Some t" "queue_left q Q (drop1 (Que q) X) L s t"
    using release_queue_client [OF l i(2) Q n, of E] by (auto elim!: returnsE)
  obtain L' where "linv (drop1 (Que q) X) L' t" "tracked L s \<Longrightarrow> tracked L' t" using queue_left_lists [OF t(2) Q] by blast
  then show ?thesis using t i(3) by (auto simp: good_def queue_left_def)
qed

interpretation que: counted Que xrp_retain_queue "xrp_release_queue n E" "\<lambda>rq. card (dom rq) < n" for n E
proof
  fix X Z :: refs and L p s t
  show "returns (xrp_retain_queue p s) (inv (Z(Que p := Z (Que p) + 1)) L)"
    if i: "inv Z L s" and z: "0 < Z (Que p)" and c: "cnt s (Que p) + 1 < 2 ^ 64"
  proof -
    obtain Q where Q: "queues s p = Some Q" "q_count Q \<noteq> 0" using owned_live(4) [OF i z] by blast
    have u: "unat (q_count Q) + 1 < 2 ^ 64" using c Q by simp
    have "inv (Z(Que p := Z (Que p) + 1)) L (put_queue p (Q\<lparr>q_count := retain_refcounted (q_count Q)\<rparr>) s)"
      unfolding put_queue_def by (rule inv_queue_count [OF i Q(1) _ Q(2)]) (simp_all add: retain_count [OF u])
    then show ?thesis using Q by (simp add: xrp_retain_queue_def)
  qed
  show "fds_ok t \<and> requests t = requests s" if "xrp_retain_queue p s = Some t" "fds_ok s"
    using that by (auto simp: xrp_retain_queue_def bind_eq_Some_conv fds_ok_def put_queue_def)
  show "tracked L t" if r: "xrp_retain_queue p s = Some t" and l: "tracked L s"
  proof -
    obtain Q where Q: "queues s p = Some Q" using r by (auto simp: xrp_retain_queue_def bind_eq_Some_conv)
    then have "t = put_queue p (Q\<lparr>q_count := retain_refcounted (q_count Q)\<rparr>) s"
      using r by (simp add: xrp_retain_queue_def)
    with Q show ?thesis by (intro tracked_queue_upd [OF l, of p]) (simp_all add: put_queue_def)
  qed
  show "returns (xrp_release_queue n E p s) (good (drop1 (Que p) X))"
    if "good X s" "0 < X (Que p)" "card (dom (requests s)) < n"
    using that by (rule good_release_queue)
qed

lemma good_enqueue:
  assumes "good X s" and "0 < X (Que q)" and "cnt s (Que q) + 1 < 2 ^ 64" and "sz \<noteq> 0 \<Longrightarrow> in_data \<noteq> 0"
    and "grp \<noteq> 0 \<Longrightarrow> 0 < X (Grp grp) \<and> cnt s (Grp grp) + 1 < 2 ^ 64"
  shows "returns (xrp_enqueue_command E q in_data fd sz od ofd osz grp evt s)
    (\<lambda>(v, st, t). good (if v = 0 then X else add1 (Evt v) X) t)"
proof -
  obtain L Y where i: "inv (padd X Y) L s" "fds_ok s" "tracked L s" by (rule goodE [OF assms(1)])
  obtain Q where Q: "queues s q = Some Q" "q_count Q \<noteq> 0" using owned_live(4) [OF i(1), of q] assms(2) by (auto simp: padd_app)
  have c: "unat (q_count Q) + 1 < 2 ^ 64" using assms(3) Q by simp
  have g: "grp \<noteq> 0 \<Longrightarrow> 0 < cnt s (Grp grp) \<and> cnt s (Grp grp) + 1 < 2 ^ 64"
    using assms(5) good_counts [OF assms(1), of "Grp grp"] by (metis less_le_trans)
  obtain v st t where t: "xrp_enqueue_command E q in_data fd sz od ofd osz grp evt s = Some (v, st, t)"
      "st = XRP_STATUS_FAILURE \<and> v = 0 \<and> inv (padd X Y) L t \<and> fds_ok t \<and> queues t = queues s \<and> events t = events s \<and> requests t = requests s \<or>
       st = XRP_STATUS_SUCCESS \<and> (v \<noteq> 0 \<longleftrightarrow> evt) \<and> enqueued q grp v (padd X Y) L s t"
    using enqueue_inv [where E = E and sz = sz and in_data = in_data and grp = grp and fd = fd and od = od and ofd = ofd
        and osz = osz and evt = evt, OF i(1,2) Q c assms(4) g] by (auto elim!: returnsE)
  have "good (if v = 0 then X else add1 (Evt v) X) t"
  proof (cases "st = XRP_STATUS_SUCCESS")
    case True
    then have e: "enqueued q grp v (padd X Y) L s t" using t(2) by simp
    have h: "holder v (padd X Y) = padd (if v = 0 then X else add1 (Evt v) X) Y" by (simp add: holder_def)
    show ?thesis by (rule enqueuedE [OF e]) (use goodI i(3) in \<open>auto simp: h\<close>)
  next
    case False
    then have f: "v = 0" "inv (padd X Y) L t" "fds_ok t" "tracked L t"
      using t(2) i(3) tracked_cong [of t s L] by (auto simp: pend_def)
    then show ?thesis using goodI by auto
  qed
  then show ?thesis using t(1) by simp
qed

lemma event_list_bound:
  assumes "linv X L s" and "events s v = Some V" "e_count V \<noteq> 0"
  shows "length (L (e_queue V)) \<le> card (dom (requests s))"
proof -
  obtain Y where Y: "inv (padd X Y) L s" using assms(1) by (auto simp: linv_def)
  obtain Q where "queues s (e_queue V) = Some Q" by (rule event_queue_live [OF assms])
  then show ?thesis using list_bound [OF Y, of "e_queue V"] by simp
qed

lemma good_release_event:
  assumes "good X s" and "0 < X (Evt v)" and "card (dom (requests s)) < n"
  shows "returns (xrp_release_event n E v s) (good (drop1 (Evt v) X))"
proof -
  obtain L where i: "linv X L s" "fds_ok s" "tracked L s" using assms(1) by (auto simp: good_def)
  have l: "linv (add1 (Evt v) (drop1 (Evt v) X)) L s" using i(1) add1_drop1 [of X "Evt v"] assms(2) by simp
  obtain V where V: "events s v = Some V" "e_count V \<noteq> 0" by (rule held_event [OF l])
  have "length (L (e_queue V)) < n" using event_list_bound [OF i(1) V] assms(3) by simp
  from release_event_client [OF l i(2) V(1) this, of E] show ?thesis
    by (rule returns_mono) (use i(3) in \<open>auto simp: good_def\<close>)
qed

interpretation evt: counted Evt xrp_retain_event "xrp_release_event n E" "\<lambda>rq. card (dom rq) < n" for n E
proof
  fix X Z :: refs and L p s t
  show "returns (xrp_retain_event p s) (inv (Z(Evt p := Z (Evt p) + 1)) L)"
    if i: "inv Z L s" and z: "0 < Z (Evt p)" and c: "cnt s (Evt p) + 1 < 2 ^ 64"
  proof -
    obtain V where V: "events s p = Some V" "e_count V \<noteq> 0" using owned_live(5) [OF i z] by blast
    have u: "unat (e_count V) + 1 < 2 ^ 64" using c V by simp
    have "inv (Z(Evt p := Z (Evt p) + 1)) L (put_event p (V\<lparr>e_count := retain_refcounted (e_count V)\<rparr>) s)"
      unfolding put_event_def by (rule inv_event_count [OF i V(1) _ V(2)]) (simp_all add: retain_count [OF u])
    then show ?thesis using V by (simp add: xrp_retain_event_def)
  qed
  show "fds_ok t \<and> requests t = requests s" if "xrp_retain_event p s = Some t" "fds_ok s"
    using that by (auto simp: xrp_retain_event_def bind_eq_Some_conv fds_ok_def put_event_def)
  show "tracked L t" if "xrp_retain_event p s = Some t" "tracked L s"
    using that by (auto simp: xrp_retain_event_def bind_eq_Some_conv intro: tracked_put_event)
  show "returns (xrp_release_event n E p s) (good (drop1 (Evt p) X))"
    if "good X s" "0 < X (Evt p)" "card (dom (requests s)) < n"
    using that by (rule good_release_event)
qed

text \<open>A pending event waits for a request of its queue.\<close>

lemma tracked_waiting:
  assumes i: "inv X L s" and "tracked L s" and V: "events s v = Some V" "e_status V = XRP_STATUS_PENDING"
  obtains k where "waiting_at k v L s" and "k < length (L (e_queue V))"
proof -
  have "v \<noteq> 0" using V(1) invD(1) [OF i] by (auto simp: maps_ok_def)
  then obtain r R where p: "r \<in> pend L s" and r: "requests s r = Some R" "r_event R = v" using assms(2) V unfolding tracked_def by blast
  from p obtain q where q: "queues s q \<noteq> None" "r \<in> set (L q)" unfolding pend_mem by blast
  obtain R' where "requests s r = Some R'" "r_event R' \<noteq> 0 \<Longrightarrow> \<exists>V. events s (r_event R') = Some V \<and> e_queue V = q"
    by (rule pending_request [OF i q]) blast
  then have "e_queue V = q" using r V(1) \<open>v \<noteq> 0\<close> by auto
  then obtain k where "k < length (L (e_queue V))" "L (e_queue V) ! k = r" using q(2) by (auto simp: in_set_conv_nth)
  then show thesis using that [of k] r V(1) by (auto simp: waiting_at_def)
qed

lemma good_wait:
  assumes "good X s" and "0 < X (Evt v)" and "card (dom (requests s)) < n"
  shows "returns (xrp_wait n E v s) (\<lambda>(st, t). st = XRP_STATUS_SUCCESS \<and> good X t \<and>
    (\<exists>V. events t v = Some V \<and> e_status V \<noteq> XRP_STATUS_PENDING))"
proof -
  obtain L Y where i: "inv (padd X Y) L s" "fds_ok s" "tracked L s" by (rule goodE [OF assms(1)])
  have e: "X = add1 (Evt v) (drop1 (Evt v) X)" using add1_drop1 [of X "Evt v"] assms(2) by simp
  have l: "linv (add1 (Evt v) (drop1 (Evt v) X)) L s" using linvI [OF i(1)] e by simp
  obtain V where V: "events s v = Some V" "e_count V \<noteq> 0" by (rule held_event [OF l])
  have b: "length (L (e_queue V)) < n" using event_list_bound [OF l V] assms(3) by simp
  have n: "0 < n" using assms(3) by simp
  have "\<exists>k. e_status V = XRP_STATUS_PENDING \<longrightarrow> waiting_at k v L s \<and> k + 1 < n"
  proof (cases "e_status V = XRP_STATUS_PENDING")
    case True
    then obtain k where "waiting_at k v L s" "k < length (L (e_queue V))" by (rule tracked_waiting [OF i(1,3) V(1)])
    then show ?thesis using b by (intro exI [of _ k]) simp
  qed simp
  then obtain k where w: "e_status V = XRP_STATUS_PENDING \<Longrightarrow> waiting_at k v L s \<and> k + 1 < n" by blast
  obtain t where t: "xrp_wait n E v s = Some (XRP_STATUS_SUCCESS, t)" "waited v (e_queue V) (drop1 (Evt v) X) L s t"
    using wait_returns [OF l i(2) V(1) w n, of E] by (auto elim!: returnsE)
  then have "good X t" using i(3) by (subst e) (auto simp: waited_def good_def)
  moreover have "\<exists>V. events t v = Some V \<and> e_status V \<noteq> XRP_STATUS_PENDING" using t(2) by (auto simp: waited_def)
  ultimately show ?thesis using t(1) by simp
qed

text \<open>The worker of a live queue with a waiting request runs one round.\<close>

lemma good_worker_round:
  assumes "good X s" and Q: "queues s q = Some Q" "q_count Q \<noteq> 0" "rl_head (rq_request_queue (q_impl Q)) \<noteq> 0"
  shows "returns (xrp_queue_process run E q s) (\<lambda>(again, t). good X t)"
proof -
  obtain L where i: "linv X L s" "fds_ok s" "tracked L s" using assms(1) by (auto simp: good_def)
  have "rlist (next_item s) (rq_request_queue (q_impl Q)) (L q)" by (rule linv_queue_ok(3) [OF i(1) Q(1)])
  then obtain r xs where L: "L q = r # xs" using Q(3) by (cases "L q") (auto simp: rlist_def)
  obtain again t R l where t: "xrp_queue_process run E q s = Some (again, t)" "requests s r = Some R"
      "linv X (L(q := xs)) t" "processed q r R (taken q Q l s) t"
    using worker_step [OF i(1,2) Q(1) L linv_queue_ok(4) [OF i(1) Q(1,2)], of run E] Q(2) by (auto elim!: returnsE)
  have "tracked (L(q := xs)) t" by (rule processed_tracked [OF i(1) t(3,4,2) Q(1) L i(3)])
  then have "good X t" using t(3,4) by (auto simp: good_def processed_def)
  then show ?thesis using t(1) by simp
qed

section \<open>Commands\<close>

lemma good_run_sync:
  assumes "good X s" and "0 < X (Que q)" and "cnt s (Que q) + 1 < 2 ^ 64" and "sz \<noteq> 0 \<Longrightarrow> in_data \<noteq> 0"
    and "grp \<noteq> 0 \<Longrightarrow> 0 < X (Grp grp) \<and> cnt s (Grp grp) + 1 < 2 ^ 64" and "card (dom (requests s)) + 1 < n"
  shows "returns (xrp_run_command_sync n E q in_data fd sz od ofd osz grp s) (\<lambda>(st, t). good X t)"
proof -
  obtain L Y where i: "inv (padd X Y) L s" "fds_ok s" "tracked L s" by (rule goodE [OF assms(1)])
  obtain Q where Q: "queues s q = Some Q" "q_count Q \<noteq> 0" using owned_live(4) [OF i(1), of q] assms(2) by (auto simp: padd_app)
  have c: "unat (q_count Q) + 1 < 2 ^ 64" using assms(3) Q by simp
  have g: "grp \<noteq> 0 \<Longrightarrow> 0 < cnt s (Grp grp) \<and> cnt s (Grp grp) + 1 < 2 ^ 64"
    using assms(5) good_counts [OF assms(1), of "Grp grp"] by (metis less_le_trans)
  have n: "length (L q) + 1 < n" using list_bound [OF i(1), of q] Q(1) assms(6) by simp
  show ?thesis
    by (rule returns_mono [OF run_sync [OF i(1,2) Q c assms(4) g n]])
      (use i(3) in \<open>auto simp: good_def dest: linv_weaken\<close>)
qed

lemma good_send_directly:
  assumes "good X s" and "0 < X (Dev d)" and "unat num \<le> length buffer" and "0 \<in> set nsid" and "\<not> needs_memory buffer (unat num)"
  shows "returns (sprd_vdsp_send_command_directly E d nsid inp out buffer num pr s) (\<lambda>(st, t). good X t)"
proof -
  obtain L Y where i: "inv (padd X Y) L s" "fds_ok s" "tracked L s" by (rule goodE [OF assms(1)])
  have d: "0 < cnt s (Dev d)" using good_counts [OF assms(1), of "Dev d"] assms(2) by linarith
  have room: "needs_memory buffer (unat num) \<longrightarrow> cnt s (Dev d) + unat num < 2 ^ 64" using assms(5) by simp
  obtain st t where t: "sprd_vdsp_send_command_directly E d nsid inp out buffer num pr s = Some (st, t)" "sent (padd X Y) L s (st, t)"
    using send_directly_inv [OF i(1) d room assms(3,4), of E inp out pr] assms(5) by (auto elim!: returnsE)
  have "fds_ok t" using alwaysD [OF send_directly_tidy [OF tidy_refl assms(5)] t(1)] i(2) by (simp add: tidy_def)
  moreover obtain lost where "inv (hold (padd X Y) lost) L t" "keeps s t" using t(2) by (auto simp: sent_def)
  ultimately have "good X t" using good_keep [of X "padd Y (hold (\<lambda>_. 0) lost)" L t s] i(3) by (simp add: hold_padd [of "padd X Y"])
  then show ?thesis using t(1) by simp
qed

lemma good_send_command:
  assumes "good X s" and "0 < X (Dev d)" and "cnt s (Dev d) + 1 < 2 ^ 64" and "0 \<in> set nsid" and "unat num \<le> length buffer"
    and "\<not> needs_memory buffer (unat num)" and "inout_size inp \<noteq> 0 \<Longrightarrow> inout_vir inp \<noteq> 0" and "1 < n"
    and th: "\<And>tr q. ans_ret (env_sys E tr (Sys_thread_create q)) = 0"
  shows "returns (sprd_vdsp_send_command n E d nsid inp out buffer num pr s) (\<lambda>(st, t). good X t)"
proof -
  obtain L Y where i: "inv (padd X Y) L s" "fds_ok s" "tracked L s" by (rule goodE [OF assms(1)])
  have d: "0 < cnt s (Dev d)" using good_counts [OF assms(1), of "Dev d"] assms(2) by linarith
  show ?thesis
    by (rule returns_mono [OF send_command_inv [OF i(1,2) d assms(3-8) th]])
      (use i(3) in \<open>auto simp: good_def dest: linv_weaken\<close>)
qed

end
