(* ===== verification/Xrp_Programs.thy ===== *)
theory Xrp_Programs
  imports Xrp_Api
begin

text \<open>
  Programs over the library: the calls of xrp_api.h and vdsp_interface.h as one type, what each
  needs from its client and what the client holds afterwards, and the transition system of a
  client whose calls interleave with the rounds of the worker threads. The system is an
  instance of the prelude's locale, and its invariant is \<open>good\<close>.
\<close>

section \<open>Calls\<close>

datatype api_call =
    Open_device i32 xrp_open_type
  | Open_device_newmode i32 xrp_open_type
  | Retain_device ptr
  | Release_device ptr
  | Create_buffer ptr size_t ptr i32
  | Retain_buffer ptr
  | Release_buffer ptr
  | Map_buffer ptr size_t size_t u32
  | Unmap_buffer ptr ptr
  | Create_group
  | Retain_group ptr
  | Release_group ptr
  | Add_buffer ptr ptr u32
  | Set_buffer ptr size_t ptr u32
  | Get_buffer ptr size_t
  | Create_queue ptr "byte list option" i32
  | Retain_queue ptr
  | Release_queue ptr
  | Enqueue ptr ptr i32 size_t ptr i32 size_t ptr bool
  | Wait ptr
  | Retain_event ptr
  | Release_event ptr
  | Run_sync ptr ptr i32 size_t ptr i32 size_t ptr
  | Send_directly ptr "byte list" "sprd_vdsp_inout option" "sprd_vdsp_inout option" "sprd_vdsp_inout list" u32 u32
  | Send_command ptr "byte list" "sprd_vdsp_inout option" "sprd_vdsp_inout option" "sprd_vdsp_inout list" u32 i32

text \<open>The pointer a call hands to its client; 0 for none.\<close>

primrec api_run :: "nat \<Rightarrow> env \<Rightarrow> api_call \<Rightarrow> xrp_state \<Rightarrow> (ptr \<times> xrp_state) option" where
  "api_run n E (Open_device idx ty) s = do { (d, _, t) \<leftarrow> xrp_open_device E idx ty s; Some (d, t) }"
| "api_run n E (Open_device_newmode idx ty) s = (case xrp_open_device_newmode E idx ty s of (d, _, t) \<Rightarrow> Some (d, t))"
| "api_run n E (Retain_device d) s = do { t \<leftarrow> xrp_retain_device d s; Some (0, t) }"
| "api_run n E (Release_device d) s = do { t \<leftarrow> xrp_release_device E d s; Some (0, t) }"
| "api_run n E (Create_buffer d sz hp fd) s = do { (b, _, t) \<leftarrow> xrp_create_buffer E d sz hp fd s; Some (b, t) }"
| "api_run n E (Retain_buffer b) s = do { t \<leftarrow> xrp_retain_buffer b s; Some (0, t) }"
| "api_run n E (Release_buffer b) s = do { t \<leftarrow> xrp_release_buffer E b s; Some (0, t) }"
| "api_run n E (Map_buffer b off sz fl) s = do { (p, _, t) \<leftarrow> xrp_map_buffer b off sz fl s; Some (p, t) }"
| "api_run n E (Unmap_buffer b p) s = do { (_, t) \<leftarrow> xrp_unmap_buffer E b p s; Some (0, t) }"
| "api_run n E Create_group s = (case xrp_create_buffer_group E s of (g, _, t) \<Rightarrow> Some (g, t))"
| "api_run n E (Retain_group g) s = do { t \<leftarrow> xrp_retain_buffer_group g s; Some (0, t) }"
| "api_run n E (Release_group g) s = do { t \<leftarrow> xrp_release_buffer_group E g s; Some (0, t) }"
| "api_run n E (Add_buffer g b fl) s = do { (_, _, t) \<leftarrow> xrp_add_buffer_to_group E g b fl s; Some (0, t) }"
| "api_run n E (Set_buffer g idx b fl) s = do { (_, t) \<leftarrow> xrp_set_buffer_in_group E g idx b fl s; Some (0, t) }"
| "api_run n E (Get_buffer g idx) s = do { (b, _, t) \<leftarrow> xrp_get_buffer_from_group g idx s; Some (b, t) }"
| "api_run n E (Create_queue d nsid pr) s = do { (q, _, t) \<leftarrow> xrp_create_nsp_queue E d nsid pr s; Some (q, t) }"
| "api_run n E (Retain_queue q) s = do { t \<leftarrow> xrp_retain_queue q s; Some (0, t) }"
| "api_run n E (Release_queue q) s = do { t \<leftarrow> xrp_release_queue n E q s; Some (0, t) }"
| "api_run n E (Enqueue q inp ifd isz out ofd osz g evt) s =
     do { (v, _, t) \<leftarrow> xrp_enqueue_command E q inp ifd isz out ofd osz g evt s; Some (v, t) }"
| "api_run n E (Wait v) s = do { (_, t) \<leftarrow> xrp_wait n E v s; Some (0, t) }"
| "api_run n E (Retain_event v) s = do { t \<leftarrow> xrp_retain_event v s; Some (0, t) }"
| "api_run n E (Release_event v) s = do { t \<leftarrow> xrp_release_event n E v s; Some (0, t) }"
| "api_run n E (Run_sync q inp ifd isz out ofd osz g) s =
     do { (_, t) \<leftarrow> xrp_run_command_sync n E q inp ifd isz out ofd osz g s; Some (0, t) }"
| "api_run n E (Send_directly d ns inp out bs num pr) s =
     do { (_, t) \<leftarrow> sprd_vdsp_send_command_directly E d ns inp out bs num pr s; Some (0, t) }"
| "api_run n E (Send_command d ns inp out bs num pr) s =
     do { (_, t) \<leftarrow> sprd_vdsp_send_command n E d ns inp out bs num pr s; Some (0, t) }"

text \<open>The objects a call names; its client must hold a reference to each.\<close>

primrec api_needs :: "api_call \<Rightarrow> obj list" where
  "api_needs (Open_device idx ty) = []"
| "api_needs (Open_device_newmode idx ty) = []"
| "api_needs (Retain_device d) = [Dev d]"
| "api_needs (Release_device d) = [Dev d]"
| "api_needs (Create_buffer d sz hp fd) = (if fd = - 1 then [Dev d] else [])"
| "api_needs (Retain_buffer b) = [Buf b]"
| "api_needs (Release_buffer b) = [Buf b]"
| "api_needs (Map_buffer b off sz fl) = [Buf b]"
| "api_needs (Unmap_buffer b p) = []"
| "api_needs Create_group = []"
| "api_needs (Retain_group g) = [Grp g]"
| "api_needs (Release_group g) = [Grp g]"
| "api_needs (Add_buffer g b fl) = [Grp g, Buf b]"
| "api_needs (Set_buffer g idx b fl) = [Grp g, Buf b]"
| "api_needs (Get_buffer g idx) = [Grp g]"
| "api_needs (Create_queue d nsid pr) = [Dev d]"
| "api_needs (Retain_queue q) = [Que q]"
| "api_needs (Release_queue q) = [Que q]"
| "api_needs (Enqueue q inp ifd isz out ofd osz g evt) = Que q # (if g = 0 then [] else [Grp g])"
| "api_needs (Wait v) = [Evt v]"
| "api_needs (Retain_event v) = [Evt v]"
| "api_needs (Release_event v) = [Evt v]"
| "api_needs (Run_sync q inp ifd isz out ofd osz g) = Que q # (if g = 0 then [] else [Grp g])"
| "api_needs (Send_directly d ns inp out bs num pr) = [Dev d]"
| "api_needs (Send_command d ns inp out bs num pr) = [Dev d]"

text \<open>Device memory is granted when the object of the buffer can be made and gets a descriptor.
  Without it the code aborts in \<open>new\<close> or leaves a buffer whose descriptor is invalid.\<close>

definition ion_granted :: "env \<Rightarrow> ptr \<Rightarrow> size_t \<Rightarrow> ptr \<Rightarrow> xrp_state \<Rightarrow> bool" where
  "ion_granted E d sz hp s \<longleftrightarrow> new_ptr E s \<noteq> 0 \<longrightarrow> \<not> new_fails E (new_ptr E s) s \<and>
     (case xrp_create_buffer E d sz hp (- 1) s of None \<Rightarrow> True
      | Some (b, _, t) \<Rightarrow> map_option b_ion_fd (buffers t b) \<noteq> Some (- 1))"

definition threads_start :: "env \<Rightarrow> bool" where
  "threads_start E \<longleftrightarrow> (\<forall>tr q. ans_ret (env_sys E tr (Sys_thread_create q)) = 0)"

text \<open>What a call asks of its arguments beyond the references.\<close>

fun api_args :: "env \<Rightarrow> xrp_state \<Rightarrow> api_call \<Rightarrow> bool" where
  "api_args E s (Create_buffer d sz hp fd) = (fd = - 1 \<longrightarrow> ion_granted E d sz hp s)"
| "api_args E s (Unmap_buffer b p) = (case buffers s b of None \<Rightarrow> False | Some B \<Rightarrow> b_map_count B \<noteq> 0)"
| "api_args E s (Create_queue d nsid pr) = (nsid_ok nsid \<and> threads_start E)"
| "api_args E s (Enqueue q inp ifd isz out ofd osz g evt) = (isz \<noteq> 0 \<longrightarrow> inp \<noteq> 0)"
| "api_args E s (Run_sync q inp ifd isz out ofd osz g) = (isz \<noteq> 0 \<longrightarrow> inp \<noteq> 0)"
| "api_args E s (Send_directly d ns inp out bs num pr) =
     (0 \<in> set ns \<and> unat num \<le> length bs \<and> \<not> needs_memory bs (unat num))"
| "api_args E s (Send_command d ns inp out bs num pr) =
     (0 \<in> set ns \<and> unat num \<le> length bs \<and> \<not> needs_memory bs (unat num) \<and>
      (inout_size inp \<noteq> 0 \<longrightarrow> inout_vir inp \<noteq> 0) \<and> threads_start E)"
| "api_args E s c = True"

text \<open>No count is about to wrap around, and no group is too large for its array.\<close>

definition roomy :: "xrp_state \<Rightarrow> bool" where
  "roomy s \<longleftrightarrow> (\<forall>ob. cnt s ob + 1 < 2 ^ 64) \<and>
     (\<forall>g G. groups s g = Some G \<longrightarrow> unat (g_n_buffers G) < 2 ^ 58)"

definition api_ok :: "env \<Rightarrow> refs \<Rightarrow> xrp_state \<Rightarrow> api_call \<Rightarrow> bool" where
  "api_ok E X s c \<longleftrightarrow> (\<forall>ob\<in>set (api_needs c). 0 < X ob) \<and> api_args E s c \<and> roomy s"

text \<open>What the client holds when the call has returned the pointer \<open>p\<close>.\<close>

definition gain :: "(ptr \<Rightarrow> obj) \<Rightarrow> ptr \<Rightarrow> refs \<Rightarrow> refs" where
  "gain k p X = (if p = 0 then X else add1 (k p) X)"

fun api_refs :: "api_call \<Rightarrow> ptr \<Rightarrow> refs \<Rightarrow> refs" where
  "api_refs (Open_device idx ty) p X = gain Dev p X"
| "api_refs (Open_device_newmode idx ty) p X = gain Dev p X"
| "api_refs (Retain_device d) p X = add1 (Dev d) X"
| "api_refs (Release_device d) p X = drop1 (Dev d) X"
| "api_refs (Create_buffer d sz hp fd) p X = gain Buf p X"
| "api_refs (Retain_buffer b) p X = add1 (Buf b) X"
| "api_refs (Release_buffer b) p X = drop1 (Buf b) X"
| "api_refs Create_group p X = gain Grp p X"
| "api_refs (Retain_group g) p X = add1 (Grp g) X"
| "api_refs (Release_group g) p X = drop1 (Grp g) X"
| "api_refs (Get_buffer g idx) p X = gain Buf p X"
| "api_refs (Create_queue d nsid pr) p X = gain Que p X"
| "api_refs (Retain_queue q) p X = add1 (Que q) X"
| "api_refs (Release_queue q) p X = drop1 (Que q) X"
| "api_refs (Enqueue q inp ifd isz out ofd osz g evt) p X = gain Evt p X"
| "api_refs (Retain_event v) p X = add1 (Evt v) X"
| "api_refs (Release_event v) p X = drop1 (Evt v) X"
| "api_refs c p X = X"

text \<open>Enough fuel: every request in the store may have to run, and one more.\<close>

definition api_fuel :: "xrp_state \<Rightarrow> nat" where
  "api_fuel s = card (dom (requests s)) + 2"

section \<open>Every allowed call returns\<close>

lemma ion_granted_returns:
  assumes "good X s" and "0 < X (Dev d)" and "ion_granted E d sz hp s"
  shows "returns (xrp_create_buffer E d sz hp (- 1) s) (\<lambda>(b, st, t). fds_ok t)"
proof -
  obtain L Y where i: "inv (padd X Y) L s" "fds_ok s" by (rule goodE [OF assms(1)])
  obtain D where D: "devices s d = Some D" using owned_live(1) [OF i(1), of d] assms(2) by (auto simp: padd_app)
  have d0: "d \<noteq> 0" using D invD(1) [OF i(1)] by (auto simp: maps_ok_def)
  show ?thesis
  proof (cases "new_ptr E s = 0")
    case True
    then show ?thesis using d0 i(2) by (simp add: xrp_create_buffer_def alloc_refcounted_eq fds_ok_def)
  next
    case False
    then show ?thesis
      by (cases rule: create_device_buffer_cases [OF D d0 refl False, where host_ptr = hp and sz = sz])
        (use assms(3) i(2) in \<open>auto simp: ion_granted_def fds_ok_def put_buffer_def\<close>)
  qed
qed

definition api_safe :: "env \<Rightarrow> refs \<Rightarrow> xrp_state \<Rightarrow> api_call \<Rightarrow> bool" where
  "api_safe E X s c \<longleftrightarrow> (api_ok E X s c \<longrightarrow> (\<forall>n. api_fuel s \<le> n \<longrightarrow>
     returns (api_run n E c s) (\<lambda>(p, t). good (api_refs c p X) t)))"

lemma roomyD: "roomy s \<Longrightarrow> cnt s ob + 1 < 2 ^ 64"
  "roomy s \<Longrightarrow> groups s g = Some G \<Longrightarrow> unat (g_n_buffers G) < 2 ^ 58"
  by (simp_all add: roomy_def)

lemma api_safeI:
  assumes "\<And>n. roomy s \<Longrightarrow> (\<And>ob. ob \<in> set (api_needs c) \<Longrightarrow> 0 < X ob) \<Longrightarrow> api_args E s c \<Longrightarrow>
      card (dom (requests s)) + 1 < n \<Longrightarrow> returns (api_run n E c s) (\<lambda>(p, t). good (api_refs c p X) t)"
  shows "api_safe E X s c"
  using assms by (auto simp: api_safe_def api_ok_def api_fuel_def)

lemma device_calls_safe:
  assumes g: "good X s"
  shows "api_safe E X s (Open_device idx ty)" and "api_safe E X s (Open_device_newmode idx ty)"
    and "api_safe E X s (Retain_device d)" and "api_safe E X s (Release_device d)"
proof -
  show "api_safe E X s (Open_device idx ty)"
    by (rule api_safeI) (use good_open_wrapped [OF g, of E idx ty] in \<open>auto simp: gain_def elim!: returnsE\<close>)
  show "api_safe E X s (Open_device_newmode idx ty)"
    by (rule api_safeI) (use good_open [OF g, of E idx ty] in \<open>auto simp: gain_def split: prod.splits\<close>)
  show "api_safe E X s (Retain_device d)"
    by (rule api_safeI) (use dev.retain_good [OF g, of d] roomyD(1) [of s "Dev d"] in \<open>auto simp del: cnt.simps elim!: returnsE\<close>)
  show "api_safe E X s (Release_device d)"
    by (rule api_safeI) (use good_release_device [OF g, of d E] in \<open>auto elim!: returnsE\<close>)
qed

lemma buffer_calls_safe:
  assumes g: "good X s"
  shows "api_safe E X s (Create_buffer d sz hp fd)" and "api_safe E X s (Retain_buffer b)"
    and "api_safe E X s (Release_buffer b)" and "api_safe E X s (Map_buffer b off sz fl)"
    and "api_safe E X s (Unmap_buffer b p)"
proof -
  show "api_safe E X s (Create_buffer d sz hp fd)"
  proof (rule api_safeI)
    assume a: "roomy s" "\<And>ob. ob \<in> set (api_needs (Create_buffer d sz hp fd)) \<Longrightarrow> 0 < X ob"
      "api_args E s (Create_buffer d sz hp fd)"
    have "returns (xrp_create_buffer E d sz hp fd s) (\<lambda>(b, st, t). good (if b = 0 then X else add1 (Buf b) X) t)"
      by (rule good_create_buffer [OF g])
        (use a(2) [of "Dev d"] a(3) roomyD(1) [OF a(1), of "Dev d"] ion_granted_returns [OF g, of d E sz hp] in simp_all)
    then show "returns (api_run n E (Create_buffer d sz hp fd) s) (\<lambda>(p, t). good (api_refs (Create_buffer d sz hp fd) p X) t)" for n
      by (auto simp: gain_def elim!: returnsE)
  qed
  show "api_safe E X s (Retain_buffer b)"
    by (rule api_safeI) (use buf.retain_good [OF g, of b] roomyD(1) [of s "Buf b"] in \<open>auto simp del: cnt.simps elim!: returnsE\<close>)
  show "api_safe E X s (Release_buffer b)"
    by (rule api_safeI) (use good_release_buffer [OF g, of b E] in \<open>auto elim!: returnsE\<close>)
  show "api_safe E X s (Map_buffer b off sz fl)"
    by (rule api_safeI) (use good_map_buffer [OF g, of b off sz fl] roomyD(1) [of s "Buf b"] in \<open>auto simp del: cnt.simps elim!: returnsE\<close>)
  show "api_safe E X s (Unmap_buffer b p)"
    by (rule api_safeI) (use good_unmap_buffer [OF g, of b _ E p] in \<open>fastforce split: option.splits elim!: returnsE\<close>)
qed

lemma group_calls_safe:
  assumes g: "good X s"
  shows "api_safe E X s Create_group" and "api_safe E X s (Retain_group gr)" and "api_safe E X s (Release_group gr)"
    and "api_safe E X s (Add_buffer gr b fl)" and "api_safe E X s (Set_buffer gr idx b fl)" and "api_safe E X s (Get_buffer gr idx)"
proof -
  show "api_safe E X s Create_group"
    by (rule api_safeI) (use good_create_group [OF g, of E] in \<open>auto simp: gain_def split: prod.splits\<close>)
  show "api_safe E X s (Retain_group gr)"
    by (rule api_safeI) (use grp.retain_good [OF g, of gr] roomyD(1) [of s "Grp gr"] in \<open>auto simp del: cnt.simps elim!: returnsE\<close>)
  show "api_safe E X s (Release_group gr)"
    by (rule api_safeI) (use good_release_group [OF g, of gr E] in \<open>auto elim!: returnsE\<close>)
  show "api_safe E X s (Add_buffer gr b fl)"
    by (rule api_safeI) (use good_add_buffer [OF g, of gr b E fl] roomyD(1) [of s "Buf b"] roomyD(2) [of s gr]
        in \<open>auto simp del: cnt.simps elim!: returnsE\<close>)
  show "api_safe E X s (Set_buffer gr idx b fl)"
    by (rule api_safeI) (use good_set_buffer [OF g, of gr b E idx fl] roomyD(1) [of s "Buf b"] in \<open>auto simp del: cnt.simps elim!: returnsE\<close>)
  show "api_safe E X s (Get_buffer gr idx)"
    by (rule api_safeI) (use good_get_buffer [OF g, of gr idx] roomyD(1) in \<open>auto simp: gain_def simp del: cnt.simps elim!: returnsE\<close>)
qed

lemma queue_calls_safe:
  assumes g: "good X s"
  shows "api_safe E X s (Create_queue d nsid pr)" and "api_safe E X s (Retain_queue q)" and "api_safe E X s (Release_queue q)"
    and "api_safe E X s (Enqueue q inp ifd isz out ofd osz gr evt)" and "api_safe E X s (Wait v)"
    and "api_safe E X s (Retain_event v)" and "api_safe E X s (Release_event v)"
proof -
  show "api_safe E X s (Create_queue d nsid pr)"
    by (rule api_safeI) (use good_create_queue [OF g, of d nsid E pr] roomyD(1) [of s "Dev d"]
        in \<open>auto simp: gain_def threads_start_def simp del: cnt.simps elim!: returnsE\<close>)
  show "api_safe E X s (Retain_queue q)"
    by (rule api_safeI) (use que.retain_good [OF g, of q] roomyD(1) [of s "Que q"] in \<open>auto simp del: cnt.simps elim!: returnsE\<close>)
  show "api_safe E X s (Release_queue q)"
    by (rule api_safeI) (use good_release_queue [OF g, of q _ E] in \<open>auto elim!: returnsE\<close>)
  show "api_safe E X s (Enqueue q inp ifd isz out ofd osz gr evt)"
    by (rule api_safeI) (use good_enqueue [OF g, where q = q and sz = isz and in_data = inp and grp = gr and E = E and fd = ifd
          and od = out and ofd = ofd and osz = osz and evt = evt] roomyD(1) [of s] in \<open>auto simp: gain_def simp del: cnt.simps split: if_splits elim!: returnsE\<close>)
  show "api_safe E X s (Wait v)"
  proof (rule api_safeI)
    fix n
    assume "\<And>ob. ob \<in> set (api_needs (Wait v)) \<Longrightarrow> 0 < X ob" "card (dom (requests s)) + 1 < n"
    then show "returns (api_run n E (Wait v) s) (\<lambda>(p, t). good (api_refs (Wait v) p X) t)"
      using good_wait [OF g, of v n E] by (auto elim!: returnsE)
  qed
  show "api_safe E X s (Retain_event v)"
    by (rule api_safeI) (use evt.retain_good [OF g, of v] roomyD(1) [of s "Evt v"] in \<open>auto simp del: cnt.simps elim!: returnsE\<close>)
  show "api_safe E X s (Release_event v)"
    by (rule api_safeI) (use good_release_event [OF g, of v _ E] in \<open>auto elim!: returnsE\<close>)
qed

lemma command_calls_safe:
  assumes g: "good X s"
  shows "api_safe E X s (Run_sync q inp ifd isz out ofd osz gr)" and "api_safe E X s (Send_directly d ns ii oo bs num prw)"
    and "api_safe E X s (Send_command d ns ii oo bs num pr)"
proof -
  show "api_safe E X s (Run_sync q inp ifd isz out ofd osz gr)"
  proof (rule api_safeI)
    fix n
    assume a: "roomy s" "\<And>ob. ob \<in> set (api_needs (Run_sync q inp ifd isz out ofd osz gr)) \<Longrightarrow> 0 < X ob"
      "api_args E s (Run_sync q inp ifd isz out ofd osz gr)" "card (dom (requests s)) + 1 < n"
    have "returns (xrp_run_command_sync n E q inp ifd isz out ofd osz gr s) (\<lambda>(st, t). good X t)"
      by (rule good_run_sync [OF g]) (use a(2) [of "Que q"] a(2) [of "Grp gr"] a(3,4) roomyD(1) [OF a(1)] in \<open>simp_all del: cnt.simps\<close>)
    then show "returns (api_run n E (Run_sync q inp ifd isz out ofd osz gr) s)
        (\<lambda>(p, t). good (api_refs (Run_sync q inp ifd isz out ofd osz gr) p X) t)"
      by (auto elim!: returnsE)
  qed
  show "api_safe E X s (Send_directly d ns ii oo bs num prw)"
    by (rule api_safeI) (use good_send_directly [OF g, where E = E and nsid = ns and inp = ii and out = oo and buffer = bs and num = num and pr = prw and d = d]
        in \<open>auto elim!: returnsE\<close>)
  show "api_safe E X s (Send_command d ns ii oo bs num pr)"
  proof (rule api_safeI)
    fix n
    assume a: "roomy s" "\<And>ob. ob \<in> set (api_needs (Send_command d ns ii oo bs num pr)) \<Longrightarrow> 0 < X ob"
      "api_args E s (Send_command d ns ii oo bs num pr)" "card (dom (requests s)) + 1 < n"
    have "returns (sprd_vdsp_send_command n E d ns ii oo bs num pr s) (\<lambda>(st, t). good X t)"
      by (rule good_send_command [OF g])
        (use a(2) [of "Dev d"] a(3,4) roomyD(1) [OF a(1)] in \<open>simp_all add: threads_start_def del: cnt.simps\<close>)
    then show "returns (api_run n E (Send_command d ns ii oo bs num pr) s)
        (\<lambda>(p, t). good (api_refs (Send_command d ns ii oo bs num pr) p X) t)"
      by (auto elim!: returnsE)
  qed
qed

lemma api_calls_safe: "good X s \<Longrightarrow> api_safe E X s c"
  by (cases c) (simp_all add: device_calls_safe buffer_calls_safe group_calls_safe queue_calls_safe command_calls_safe)

section \<open>Client programs and worker threads\<close>

text \<open>A program starts with nothing. It makes an allowed call, or the worker of a live queue with a
  waiting request runs a round. A worker that gives up its own queue runs no other thread.\<close>

definition program_start :: "refs \<times> xrp_state \<Rightarrow> bool" where
  "program_start p \<longleftrightarrow> p = (\<lambda>_. 0, init_state)"

definition no_thread :: "ptr \<Rightarrow> xrp_state \<Rightarrow> xrp_state option" where
  "no_thread q s = None"

inductive program_step :: "env \<Rightarrow> refs \<times> xrp_state \<Rightarrow> refs \<times> xrp_state \<Rightarrow> bool" for E where
  client_calls: "api_ok E X s c \<Longrightarrow> api_fuel s \<le> n \<Longrightarrow> api_run n E c s = Some (p, t) \<Longrightarrow>
    program_step E (X, s) (api_refs c p X, t)"
| worker_runs: "queues s q = Some Q \<Longrightarrow> q_count Q \<noteq> 0 \<Longrightarrow> rl_head (rq_request_queue (q_impl Q)) \<noteq> 0 \<Longrightarrow>
    xrp_queue_process no_thread E q s = Some (again, t) \<Longrightarrow> program_step E (X, s) (X, t)"

inductive_cases program_stepE: "program_step E p p'"

abbreviation reachable :: "env \<Rightarrow> refs \<Rightarrow> xrp_state \<Rightarrow> bool" where
  "reachable E X s \<equiv> reach program_start (program_step E) (X, s)"

lemma good_start: "good (\<lambda>_. 0) init_state"
  by (rule goodI [where Y = "\<lambda>_. 0" and L = "\<lambda>_. []"])
    (use inv_init in \<open>simp_all add: padd_def fds_ok_def tracked_def init_state_def\<close>)

interpretation programs: transition_system program_start "program_step E" "\<lambda>(X, s). good X s" for E
proof
  fix p
  show "case p of (X, s) \<Rightarrow> good X s" if "program_start p"
    using that good_start by (simp add: program_start_def)
  show "case p' of (X, s) \<Rightarrow> good X s" if g: "case p of (X, s) \<Rightarrow> good X s" and st: "program_step E p p'" for p p'
    using st
  proof (cases rule: program_step.cases)
    case (client_calls X s c n q t)
    then show ?thesis using api_calls_safe [of X s E c] g by (fastforce simp: api_safe_def elim!: returnsE)
  next
    case (worker_runs s q Q again t X)
    then show ?thesis using good_worker_round [of X s q Q no_thread E] g by (auto elim!: returnsE)
  qed
qed

lemma reachable_good: "reachable E X s \<Longrightarrow> good X s"
  using programs.reach_invar [of E "(X, s)"] by simp

lemma good_held: "good X s \<Longrightarrow> (\<exists>L. linv X L s) \<and> (\<forall>ob. X ob \<le> cnt s ob)"
  using good_counts by (auto simp: good_def)

end
