(* ===== verification/Xrp_Program_Props.thy ===== *)
theory Xrp_Program_Props
  imports Xrp_Programs
begin

text \<open>
  What every program over the library can rely on. The witnesses run one: it opens a device,
  makes a queue on it and puts a command with an event in the queue.
\<close>

section \<open>A program\<close>

text \<open>The sample environment with threads that start.\<close>

definition thread_env :: env where
  "thread_env = sample_env\<lparr>env_sys := \<lambda>h c. case c of Sys_thread_create _ \<Rightarrow> granted\<lparr>ans_ret := 0\<rparr> | _ \<Rightarrow> sample_sys h c\<rparr>"

lemma thread_env_simps [simp]:
  "env_alloc thread_env n = 0x1000 * (1 + of_nat n)"
  "env_sys thread_env h c = (case c of Sys_thread_create _ \<Rightarrow> granted\<lparr>ans_ret := 0\<rparr> | _ \<Rightarrow> sample_sys h c)"
  by (simp_all add: thread_env_def sample_env_def)


lemmas run_defs = xrp_open_device_newmode_def sys_def sample_sys_def granted_def alloc_refcounted_eq new_ptr_def
  fresh_def init_state_def Let_def xrp_create_nsp_queue_def xrp_impl_create_queue_def xrp_queue_init_def xrp_retain_device_def
  put_queue_def put_event_def XRP_NAMESPACE_ID_SIZE_def retain_refcounted_def malloc_def read_bytes_def
  xrp_enqueue_command_def xrp_event_create_def xrp_retain_event_def xrp_retain_queue_def xrp_queue_push_def push_item_def lock_defs

definition device_trace :: "syscall list" where
  "device_trace = [Sys_open (dev_name 0) [O_RDONLY, O_CLOEXEC]]"

definition device_store :: xrp_state where
  "device_store = init_state\<lparr>devices := [0x1000 \<mapsto> \<lparr>d_count = 1, d_fd = 3, d_generation = 0, d_type = XRP_DEVICE_NEWMODE\<rparr>],
     allocs := 1, trace := device_trace\<rparr>"

definition program_queue :: "64 word \<Rightarrow> ptr \<Rightarrow> xrp_queue" where
  "program_queue n rq = \<lparr>q_count = n, q_device = 0x1000, q_use_nsid = False, q_priority = 0, q_nsid = replicate 32 0,
     q_impl = \<lparr>rq_thread = True, rq_cond = False, rq_request_queue = \<lparr>rl_head = rq, rl_tail = rq\<rparr>, rq_exit = False\<rparr>\<rparr>"

definition queue_store :: xrp_state where
  "queue_store = init_state\<lparr>devices := [0x1000 \<mapsto> \<lparr>d_count = 2, d_fd = 3, d_generation = 0, d_type = XRP_DEVICE_NEWMODE\<rparr>],
     queues := [0x2000 \<mapsto> program_queue 1 0], allocs := 2, trace := device_trace @ [Sys_thread_create 0x2000]\<rparr>"

definition request_store :: xrp_state where
  "request_store = queue_store\<lparr>queues := [0x2000 \<mapsto> program_queue 2 0x3000],
     requests := [0x3000 \<mapsto> zero_request\<lparr>r_in_data := 0x4000, r_in_data_fd := - 1, r_out_data_fd := - 1, r_event := 0x5000\<rparr>],
     events := [0x5000 \<mapsto> \<lparr>e_count = 2, e_queue = 0x2000, e_status = XRP_STATUS_PENDING, e_cond = False\<rparr>],
     blocks := [0x4000 \<mapsto> []], allocs := 5\<rparr>"

lemma opens: "api_run 2 thread_env (Open_device_newmode 0 XRP_OPEN_NORMAL_TYPE) init_state = Some (0x1000, device_store)"
  by (simp add: run_defs device_trace_def device_store_def)

lemma creates: "api_run 2 thread_env (Create_queue 0x1000 None 0) device_store = Some (0x2000, queue_store)"
  by (simp add: run_defs device_store_def queue_store_def program_queue_def)

lemma enqueues: "api_run 2 thread_env (Enqueue 0x2000 0 (- 1) 0 0 (- 1) 0 0 True) queue_store = Some (0x5000, request_store)"
  by (simp add: run_defs request_store_def queue_store_def program_queue_def zero_request_def fun_upd_idem)

lemma small_stores: "roomy init_state" "roomy device_store" "roomy queue_store" "roomy request_store"
proof -
  have "cnt init_state ob + 1 < 2 ^ 64" "cnt device_store ob + 1 < 2 ^ 64" "cnt queue_store ob + 1 < 2 ^ 64"
      "cnt request_store ob + 1 < 2 ^ 64" for ob
    by (cases ob; simp add: init_state_def device_store_def queue_store_def request_store_def program_queue_def)+
  then show "roomy init_state" "roomy device_store" "roomy queue_store" "roomy request_store"
    by (simp_all add: roomy_def init_state_def device_store_def queue_store_def request_store_def del: cnt.simps)
qed

definition refs_of :: "obj list \<Rightarrow> refs" where
  "refs_of obs ob = count_list obs ob"

lemma reachable_device: "reachable thread_env (refs_of [Dev 0x1000]) device_store"
proof -
  have "program_step thread_env (\<lambda>_. 0, init_state) (api_refs (Open_device_newmode 0 XRP_OPEN_NORMAL_TYPE) 0x1000 (\<lambda>_. 0), device_store)"
    by (rule client_calls [OF _ _ opens]) (simp_all add: api_ok_def small_stores, simp add: api_fuel_def init_state_def)
  moreover have "api_refs (Open_device_newmode 0 XRP_OPEN_NORMAL_TYPE) 0x1000 (\<lambda>_. 0) = refs_of [Dev 0x1000]"
    by (auto simp: gain_def add1_def refs_of_def)
  ultimately show ?thesis using reach_step [OF reach_init] by (metis program_start_def)
qed

lemma threads: "threads_start thread_env"
  by (simp add: threads_start_def granted_def)

lemma reachable_queue: "reachable thread_env (refs_of [Que 0x2000, Dev 0x1000]) queue_store"
proof -
  have "program_step thread_env (refs_of [Dev 0x1000], device_store)
      (api_refs (Create_queue 0x1000 None 0) 0x2000 (refs_of [Dev 0x1000]), queue_store)"
    by (rule client_calls [OF _ _ creates])
      (simp_all add: api_ok_def small_stores threads nsid_ok_def refs_of_def, simp add: api_fuel_def device_store_def init_state_def)
  moreover have "api_refs (Create_queue 0x1000 None 0) 0x2000 (refs_of [Dev 0x1000]) = refs_of [Que 0x2000, Dev 0x1000]"
    by (auto simp: gain_def add1_def refs_of_def)
  ultimately show ?thesis using reach_step [OF reachable_device] by simp
qed

lemma reachable_request: "reachable thread_env (refs_of [Evt 0x5000, Que 0x2000, Dev 0x1000]) request_store"
proof -
  let ?c = "Enqueue 0x2000 0 (- 1) 0 0 (- 1) 0 0 True"
  have "program_step thread_env (refs_of [Que 0x2000, Dev 0x1000], queue_store)
      (api_refs ?c 0x5000 (refs_of [Que 0x2000, Dev 0x1000]), request_store)"
    by (rule client_calls [OF _ _ enqueues])
      (simp_all add: api_ok_def small_stores refs_of_def, simp add: api_fuel_def queue_store_def init_state_def)
  moreover have "api_refs ?c 0x5000 (refs_of [Que 0x2000, Dev 0x1000]) = refs_of [Evt 0x5000, Que 0x2000, Dev 0x1000]"
    by (auto simp: gain_def add1_def refs_of_def)
  ultimately show ?thesis using reach_step [OF reachable_queue] by simp
qed

section \<open>The properties\<close>

text \<open>Property C1: a client that holds what its calls name and gives back no more than it was given never
  meets a freed object, a null pointer, a lock that is never freed or a wait without end, whatever
  it called before and wherever the workers' rounds fell: every such call returns, and every object
  the client then holds has at least as many counted references as the client owns.\<close>

theorem client_programs_safe:
  assumes "reachable E X s" and "api_ok E X s c" and "api_fuel s \<le> n"
  shows "\<exists>p t. api_run n E c s = Some (p, t) \<and> (\<exists>L. linv (api_refs c p X) L t) \<and> (\<forall>ob. api_refs c p X ob \<le> cnt t ob)"
proof -
  have "api_safe E X s c" by (rule api_calls_safe [OF reachable_good [OF assms(1)]])
  then obtain p t where "api_run n E c s = Some (p, t)" "good (api_refs c p X) t"
    using assms(2,3) by (auto simp: api_safe_def elim!: returnsE)
  then show ?thesis using good_held by blast
qed

theorem client_programs_safe_witness:
  "\<exists>p t. api_run 3 thread_env (Release_queue 0x2000) request_store = Some (p, t) \<and>
    (\<forall>ob. refs_of [Evt 0x5000, Dev 0x1000] ob \<le> cnt t ob)"
proof -
  have "api_ok thread_env (refs_of [Evt 0x5000, Que 0x2000, Dev 0x1000]) request_store (Release_queue 0x2000)"
    by (simp add: api_ok_def small_stores refs_of_def)
  moreover have "api_fuel request_store \<le> 3" by (simp add: api_fuel_def request_store_def)
  moreover have "drop1 (Que 0x2000) (refs_of [Evt 0x5000, Que 0x2000, Dev 0x1000]) = refs_of [Evt 0x5000, Dev 0x1000]"
    by (auto simp: drop1_def refs_of_def)
  ultimately show ?thesis
    using client_programs_safe [OF reachable_request, of "Release_queue 0x2000" 3] by auto
qed

text \<open>Property C2: in every state such a client can reach, a wait for an event it holds ends with success and
  the event completed, whatever else waits in the event's queue.\<close>

theorem client_waits_end:
  assumes "reachable E X s" and "0 < X (Evt v)" and "api_fuel s \<le> n"
  shows "\<exists>t V. xrp_wait n E v s = Some (XRP_STATUS_SUCCESS, t) \<and> events t v = Some V \<and> e_status V \<noteq> XRP_STATUS_PENDING"
proof -
  have "card (dom (requests s)) < n" using assms(3) by (simp add: api_fuel_def)
  from good_wait [OF reachable_good [OF assms(1)] assms(2) this, of E] show ?thesis by (auto elim!: returnsE)
qed

theorem client_waits_end_witness:
  "\<exists>t V. xrp_wait 3 thread_env 0x5000 request_store = Some (XRP_STATUS_SUCCESS, t) \<and>
    events t 0x5000 = Some V \<and> e_status V \<noteq> XRP_STATUS_PENDING"
proof -
  have "api_fuel request_store \<le> 3" by (simp add: api_fuel_def request_store_def)
  then show ?thesis using client_waits_end [OF reachable_request, of "0x5000" 3] by (simp add: refs_of_def)
qed

text \<open>Property C3: in every reachable state the worker of a live queue with a waiting request finishes its
  round, and the state it leaves is one the client's calls are safe in.\<close>

theorem workers_never_stuck:
  assumes "reachable E X s" and "queues s q = Some Q" and "q_count Q \<noteq> 0" and "rl_head (rq_request_queue (q_impl Q)) \<noteq> 0"
  shows "\<exists>again t. xrp_queue_process no_thread E q s = Some (again, t) \<and> reachable E X t"
proof -
  obtain again t where t: "xrp_queue_process no_thread E q s = Some (again, t)"
    using good_worker_round [OF reachable_good [OF assms(1)] assms(2-4), of no_thread E] by (auto elim!: returnsE)
  then show ?thesis using reach_step [OF assms(1) worker_runs [OF assms(2-4) t]] by blast
qed

theorem workers_never_stuck_witness:
  "\<exists>again t. xrp_queue_process no_thread thread_env 0x2000 request_store = Some (again, t) \<and>
    reachable thread_env (refs_of [Evt 0x5000, Que 0x2000, Dev 0x1000]) t"
  by (rule workers_never_stuck [OF reachable_request, of _ "program_queue 2 0x3000"])
    (simp_all add: request_store_def program_queue_def)

section \<open>The kinds of the objects behind the pointers\<close>

definition well_kinded :: "xrp_state \<Rightarrow> bool" where
  "well_kinded s \<longleftrightarrow>
     (\<forall>p D. devices s p = Some D \<longrightarrow> d_type D = XRP_DEVICE_NORMAL \<longrightarrow>
        (\<exists>I. devices s (inner_device D) = Some I \<and> d_type I = XRP_DEVICE_NEWMODE)) \<and>
     (\<forall>p B. buffers s p = Some B \<longrightarrow> b_type B = XRP_BUFFER_TYPE_DEVICE \<longrightarrow>
        devices s (b_device B) \<noteq> None \<and> ions s (b_ionhandle B) \<noteq> None) \<and>
     (\<forall>p G. groups s p = Some G \<longrightarrow> \<not> g_mutex G \<and> g_n_buffers G \<le> g_capacity G \<and>
        (\<forall>r\<in>set (group_records G). buffers s (gr_buffer r) \<noteq> None)) \<and>
     (\<forall>p Q. queues s p = Some Q \<longrightarrow> \<not> rq_cond (q_impl Q) \<and> (q_count Q \<noteq> 0 \<longrightarrow> devices s (q_device Q) \<noteq> None)) \<and>
     (\<forall>p V. events s p = Some V \<longrightarrow> \<not> e_cond V \<and> (e_count V \<noteq> 0 \<longrightarrow> queues s (e_queue V) \<noteq> None))"

lemma good_well_kinded:
  assumes "good X s"
  shows "well_kinded s"
  unfolding well_kinded_def
proof (intro conjI allI impI)
  obtain L Y where i: "inv (padd X Y) L s" by (rule goodE [OF assms])
  then have l: "linv X L s" by (rule linvI)
  {
    fix p D
    assume "devices s p = Some D" "d_type D = XRP_DEVICE_NORMAL"
    then show "\<exists>I. devices s (inner_device D) = Some I \<and> d_type I = XRP_DEVICE_NEWMODE"
      using invD(3) [OF i] by (simp add: devices_ok_def)
  next
    fix p B
    assume B: "buffers s p = Some B" "b_type B = XRP_BUFFER_TYPE_DEVICE"
    then show "ions s (b_ionhandle B) \<noteq> None" using invD(4) [OF i] by (simp add: buffers_ok_def)
    have "0 < msum (buffers s) (buffer_dev (b_device B))"
      using invD(1) [OF i] B by (intro msum_pos) (auto simp: maps_ok_def buffer_dev_def)
    then show "devices s (b_device B) \<noteq> None"
      using refs_okD [OF invD(9) [OF i], of "Dev (b_device B)"] by (auto split: option.splits)
  next
    fix p G
    assume G: "groups s p = Some G"
    then show "\<not> g_mutex G" "g_n_buffers G \<le> g_capacity G" using invD(5) [OF i] by (auto simp: groups_ok_def group_ok_def)
    show "\<forall>r\<in>set (group_records G). buffers s (gr_buffer r) \<noteq> None" using member_live [OF i G] by blast
  next
    fix p Q
    assume Q: "queues s p = Some Q"
    then show "\<not> rq_cond (q_impl Q)" by (rule linv_queue_ok(1) [OF l])
    show "devices s (q_device Q) \<noteq> None" if "q_count Q \<noteq> 0"
      using linv_queue_ok(4) [OF l Q that] by (auto split: option.splits)
  next
    fix p V
    assume V: "events s p = Some V"
    then show "\<not> e_cond V" using invD(7) [OF i] by (simp add: events_ok_def)
    show "queues s (e_queue V) \<noteq> None" if "e_count V \<noteq> 0"
      using event_queue_live [OF l V that] by (metis option.distinct(1))
  }
qed

text \<open>Property C4: in every reachable state the pointers between the library's objects lead to live objects of
  the right kind, and no lock is held between two calls: a wrapped device leads to one opened on
  a descriptor, a device buffer to its device and its ion object, a record of a group to a buffer,
  a queue to its device, an event to its queue.\<close>

theorem references_well_kinded:
  assumes "reachable E X s"
  shows "well_kinded s"
  by (rule good_well_kinded [OF reachable_good [OF assms]])

theorem references_well_kinded_witness: "well_kinded request_store \<and> events request_store 0x5000 \<noteq> None"
  using references_well_kinded [OF reachable_request] by (simp add: request_store_def)

end
