(* ===== verification/Xrp_Threads.thy ===== *)
theory Xrp_Threads
  imports Xrp_Request_List
begin

text \<open>
  The threaded queue of xrp_threaded_queue.c under concurrency. Its lock and condition cut the
  code into sections: a push, an order to stop, the part of the worker's round between taking the
  lock and giving it up or going to sleep, the completion of an event, a client's look at its
  event. A step is one section of the worker or of a client, in any order; a sleeping thread may
  also wake for no reason. The list is the pointer list of the request-list theory.
\<close>

section \<open>State\<close>

text \<open>The worker is about to take the lock, asleep in \<open>xrp_cond_wait\<close>, inside \<open>fn\<close> before and after
  the completion of the event, or has returned.\<close>

datatype worker_pc = Ready | Asleep | Running ptr | Finishing ptr | Ended

datatype waiter_pc = Away | Looking ptr | Sleeping ptr

text \<open>\<open>tq_pushed\<close> and \<open>tq_done\<close> are ghosts: what was pushed and what \<open>fn\<close> has returned from, in
  order. \<open>tq_sync\<close> is the variable of the worker's round that \<open>sync_exit\<close> points to.\<close>

record thread_queue =
  tq_next :: "ptr \<Rightarrow> ptr"
  tq_list :: request_list
  tq_exit :: bool
  tq_sync :: bool
  tq_worker :: worker_pc
  tq_event :: "ptr \<Rightarrow> ptr"
  tq_status :: "ptr \<Rightarrow> xrp_status"
  tq_waiters :: "nat \<Rightarrow> waiter_pc"
  tq_pushed :: "ptr list"
  tq_done :: "ptr list"

definition tq_init :: thread_queue where
  "tq_init = \<lparr>tq_next = (\<lambda>_. 0), tq_list = \<lparr>rl_head = 0, rl_tail = 0\<rparr>, tq_exit = False, tq_sync = False,
     tq_worker = Ready, tq_event = (\<lambda>_. 0), tq_status = (\<lambda>_. XRP_STATUS_SUCCESS), tq_waiters = (\<lambda>_. Away),
     tq_pushed = [], tq_done = []\<rparr>"

definition rouse :: "worker_pc \<Rightarrow> worker_pc" where
  "rouse w = (if w = Asleep then Ready else w)"

definition wake :: "ptr \<Rightarrow> (nat \<Rightarrow> waiter_pc) \<Rightarrow> nat \<Rightarrow> waiter_pc" where
  "wake v ws = (\<lambda>i. if ws i = Sleeping v then Looking v else ws i)"

section \<open>Sections\<close>

text \<open>A request is pushed together with the new, pending event of \<open>xrp_event_create\<close>, or without one:
  nobody can wait for the event before. \<open>exit_section\<close> is the first section of
  \<open>xrp_queue_destroy\<close>; the join that follows it waits for the worker to end.\<close>

definition push_section :: "ptr \<Rightarrow> ptr \<Rightarrow> thread_queue \<Rightarrow> thread_queue" where
  "push_section r v t =
     (let (nxt, l, broadcast) = push_item (tq_next t) (tq_list t) r
      in t\<lparr>tq_next := nxt, tq_list := l, tq_worker := (if broadcast then rouse (tq_worker t) else tq_worker t),
           tq_event := (tq_event t)(r := v),
           tq_status := (if v = 0 then tq_status t else (tq_status t)(v := XRP_STATUS_PENDING)),
           tq_pushed := tq_pushed t @ [r]\<rparr>)"

definition exit_section :: "thread_queue \<Rightarrow> thread_queue" where
  "exit_section t = t\<lparr>tq_exit := True, tq_worker := rouse (tq_worker t)\<rparr>"

definition worker_section :: "thread_queue \<Rightarrow> thread_queue" where
  "worker_section t =
     (let (rq, l) = xrp_dequeue_request (tq_next t) (tq_list t)
      in if rq \<noteq> 0 then t\<lparr>tq_list := l, tq_worker := Running rq\<rparr>
         else if tq_exit t then t\<lparr>tq_worker := Ended\<rparr> else t\<lparr>tq_worker := Asleep\<rparr>)"

definition complete_section :: "ptr \<Rightarrow> xrp_status \<Rightarrow> thread_queue \<Rightarrow> thread_queue" where
  "complete_section r st t =
     (let v = tq_event t r
      in if v = 0 then t\<lparr>tq_worker := Finishing r\<rparr>
         else t\<lparr>tq_worker := Finishing r, tq_status := (tq_status t)(v := st), tq_waiters := wake v (tq_waiters t)\<rparr>)"

definition look_section :: "nat \<Rightarrow> ptr \<Rightarrow> thread_queue \<Rightarrow> thread_queue" where
  "look_section i v t =
     t\<lparr>tq_waiters := (tq_waiters t)(i := if tq_status t v = XRP_STATUS_PENDING then Sleeping v else Away)\<rparr>"

inductive worker_step :: "thread_queue \<Rightarrow> thread_queue \<Rightarrow> bool" where
  looks: "tq_worker t = Ready \<Longrightarrow> worker_step t (worker_section t)"
| completes: "tq_worker t = Running r \<Longrightarrow> st \<noteq> XRP_STATUS_PENDING \<Longrightarrow> worker_step t (complete_section r st t)"
| returns_from_fn: "tq_worker t = Finishing r \<Longrightarrow>
    worker_step t (t\<lparr>tq_worker := if tq_sync t then Ended else Ready, tq_done := tq_done t @ [r]\<rparr>)"

text \<open>A queue is pushed to, or told to stop, by one who holds a reference. A worker destroys its own
  queue when it gives up the last reference, and a request with an event holds one.\<close>

inductive other_step :: "thread_queue \<Rightarrow> thread_queue \<Rightarrow> bool" where
  pushes: "r \<noteq> 0 \<Longrightarrow> \<not> tq_exit t \<Longrightarrow> rlist (tq_next t) (tq_list t) xs \<Longrightarrow> r \<notin> set xs \<Longrightarrow>
    tq_worker t \<noteq> Running r \<Longrightarrow> tq_worker t \<noteq> Finishing r \<Longrightarrow> other_step t (push_section r v t)"
| destroys: "\<not> tq_exit t \<Longrightarrow> other_step t (exit_section t)"
| destroys_itself: "tq_worker t = Finishing r \<Longrightarrow> \<not> tq_exit t \<Longrightarrow> rlist (tq_next t) (tq_list t) xs \<Longrightarrow>
    \<forall>x\<in>set xs. tq_event t x = 0 \<Longrightarrow> other_step t ((exit_section t)\<lparr>tq_sync := True\<rparr>)"
| begins_wait: "tq_waiters t i = Away \<Longrightarrow> v \<noteq> 0 \<Longrightarrow> other_step t (t\<lparr>tq_waiters := (tq_waiters t)(i := Looking v)\<rparr>)"
| looks_at_event: "tq_waiters t i = Looking v \<Longrightarrow> other_step t (look_section i v t)"
| worker_wakes: "tq_worker t = Asleep \<Longrightarrow> other_step t (t\<lparr>tq_worker := Ready\<rparr>)"
| waiter_wakes: "tq_waiters t i = Sleeping v \<Longrightarrow> other_step t (t\<lparr>tq_waiters := (tq_waiters t)(i := Looking v)\<rparr>)"

section \<open>The invariant\<close>

fun in_fn :: "worker_pc \<Rightarrow> ptr list" where
  "in_fn (Running r) = [r]"
| "in_fn (Finishing r) = [r]"
| "in_fn _ = []"

fun due :: "worker_pc \<Rightarrow> ptr list" where
  "due (Running r) = [r]"
| "due _ = []"

definition worker_ok :: "ptr list \<Rightarrow> thread_queue \<Rightarrow> bool" where
  "worker_ok xs t \<longleftrightarrow> (tq_worker t = Asleep \<longrightarrow> xs = [] \<and> \<not> tq_exit t) \<and>
     (tq_worker t = Ended \<longrightarrow> tq_exit t \<and> (xs = [] \<or> tq_sync t)) \<and>
     (tq_sync t \<longrightarrow> tq_exit t \<and> (\<forall>x\<in>set xs. tq_event t x = 0) \<and> (tq_worker t = Ended \<or> (\<exists>r. tq_worker t = Finishing r)))"

definition waiters_ok :: "ptr list \<Rightarrow> thread_queue \<Rightarrow> bool" where
  "waiters_ok xs t \<longleftrightarrow> (\<forall>i v. tq_waiters t i = Sleeping v \<longrightarrow> v \<noteq> 0 \<and> tq_status t v = XRP_STATUS_PENDING) \<and>
     (\<forall>i v. tq_waiters t i = Looking v \<longrightarrow> v \<noteq> 0) \<and>
     (\<forall>v. v \<noteq> 0 \<longrightarrow> tq_status t v = XRP_STATUS_PENDING \<longrightarrow> (\<exists>x\<in>set (due (tq_worker t) @ xs). tq_event t x = v))"

definition list_ok :: "ptr list \<Rightarrow> thread_queue \<Rightarrow> bool" where
  "list_ok xs t \<longleftrightarrow> rlist (tq_next t) (tq_list t) xs \<and> tq_pushed t = tq_done t @ in_fn (tq_worker t) @ xs \<and>
     distinct (in_fn (tq_worker t) @ xs)"

definition tq_inv :: "thread_queue \<Rightarrow> bool" where
  "tq_inv t \<longleftrightarrow> (\<exists>xs. list_ok xs t \<and> worker_ok xs t \<and> waiters_ok xs t)"

lemma rlist_unique: "rlist nxt l xs \<Longrightarrow> rlist nxt l ys \<Longrightarrow> xs = ys"
proof -
  have "linked nxt p xs \<Longrightarrow> linked nxt p ys \<Longrightarrow> xs = ys" for p
  proof (induction xs arbitrary: p ys)
    case Nil
    then show ?case by (cases ys) auto
  next
    case (Cons x xs)
    then show ?case by (cases ys) auto
  qed
  then show "rlist nxt l xs \<Longrightarrow> rlist nxt l ys \<Longrightarrow> xs = ys" by (auto simp: rlist_def)
qed

lemma worker_section_cases:
  assumes "list_ok xs t" and "tq_worker t = Ready"
  obtains (takes) r ys l where "xs = r # ys" "worker_section t = t\<lparr>tq_list := l, tq_worker := Running r\<rparr>" "rlist (tq_next t) l ys" "r \<noteq> 0"
  | (ends) "xs = []" "tq_exit t" "worker_section t = t\<lparr>tq_worker := Ended\<rparr>"
  | (sleeps) "xs = []" "\<not> tq_exit t" "worker_section t = t\<lparr>tq_worker := Asleep\<rparr>"
proof (cases xs)
  case Nil
  then have "xrp_dequeue_request (tq_next t) (tq_list t) = (0, tq_list t)" using assms(1) dequeue_empty by (simp add: list_ok_def)
  then show ?thesis using Nil ends sleeps by (cases "tq_exit t") (simp_all add: worker_section_def)
next
  case (Cons r ys)
  then have rl: "rlist (tq_next t) (tq_list t) (r # ys)" using assms(1) by (simp add: list_ok_def)
  obtain l where l: "xrp_dequeue_request (tq_next t) (tq_list t) = (r, l)" "rlist (tq_next t) l ys" by (rule dequeue_rlist [OF rl])
  have "r \<noteq> 0" using rlist_nonzero [OF rl] by auto
  then show ?thesis using takes [OF Cons _ l(2)] l(1) by (simp add: worker_section_def)
qed

lemma worker_step_inv:
  assumes "worker_step t u" and "tq_inv t"
  shows "tq_inv u"
  using assms(1)
proof (cases rule: worker_step.cases)
  case looks
  obtain xs where i: "list_ok xs t" "worker_ok xs t" "waiters_ok xs t" using assms(2) by (auto simp: tq_inv_def)
  from i(1) looks(2) show ?thesis
  proof (cases rule: worker_section_cases)
    case (takes r ys l)
    then have "list_ok ys u \<and> worker_ok ys u \<and> waiters_ok ys u"
      using i looks by (auto simp: list_ok_def worker_ok_def waiters_ok_def)
    then show ?thesis by (auto simp: tq_inv_def)
  next
    case ends
    then have "list_ok xs u \<and> worker_ok xs u \<and> waiters_ok xs u"
      using i looks by (auto simp: list_ok_def worker_ok_def waiters_ok_def)
    then show ?thesis by (auto simp: tq_inv_def)
  next
    case sleeps
    then have "list_ok xs u \<and> worker_ok xs u \<and> waiters_ok xs u"
      using i looks by (auto simp: list_ok_def worker_ok_def waiters_ok_def)
    then show ?thesis by (auto simp: tq_inv_def)
  qed
next
  case (completes r st)
  obtain xs where i: "list_ok xs t" "worker_ok xs t" "waiters_ok xs t" using assms(2) by (auto simp: tq_inv_def)
  have "list_ok xs u \<and> worker_ok xs u" using i(1,2) completes
    by (auto simp: list_ok_def worker_ok_def complete_section_def Let_def)
  moreover have "waiters_ok xs u"
    using i(3) completes by (auto simp: waiters_ok_def complete_section_def Let_def wake_def split: if_splits)
  ultimately show ?thesis by (auto simp: tq_inv_def)
next
  case (returns_from_fn r)
  obtain xs where i: "list_ok xs t" "worker_ok xs t" "waiters_ok xs t" using assms(2) by (auto simp: tq_inv_def)
  have "list_ok xs u \<and> worker_ok xs u \<and> waiters_ok xs u"
    using i returns_from_fn by (auto simp: list_ok_def worker_ok_def waiters_ok_def)
  then show ?thesis by (auto simp: tq_inv_def)
qed

lemma other_step_inv:
  assumes "other_step t u" and "tq_inv t"
  shows "tq_inv u"
  using assms(1)
proof (cases rule: other_step.cases)
  case (pushes r xs v)
  obtain ys where i: "list_ok ys t" "worker_ok ys t" "waiters_ok ys t" using assms(2) by (auto simp: tq_inv_def)
  have ys: "ys = xs" using i(1) pushes(4) rlist_unique by (auto simp: list_ok_def)
  obtain nxt l b where p: "push_item (tq_next t) (tq_list t) r = (nxt, l, b)" by (cases "push_item (tq_next t) (tq_list t) r")
  note pi = push_item_rlist(1,2) [OF pushes(4,5,2) p]
  have ns: "\<not> tq_sync t" using i(2) pushes(3) by (auto simp: worker_ok_def)
  have "list_ok (xs @ [r]) u"
    using i(1) pushes pi p ys by (cases "tq_worker t") (auto simp: list_ok_def push_section_def rouse_def)
  moreover have "worker_ok (xs @ [r]) u"
    using i(2) pushes pi p ys ns by (auto simp: worker_ok_def push_section_def rouse_def split: if_splits)
  moreover have "waiters_ok (xs @ [r]) u"
    using i(3) pushes pi p ys by (cases "tq_worker t") (auto simp: waiters_ok_def push_section_def rouse_def split: if_splits)
  ultimately show ?thesis by (auto simp: tq_inv_def)
qed (use assms(2) in \<open>auto simp: tq_inv_def list_ok_def worker_ok_def waiters_ok_def exit_section_def look_section_def rouse_def dest: rlist_unique split: if_splits\<close>)

definition tq_start :: "thread_queue \<Rightarrow> bool" where
  "tq_start t \<longleftrightarrow> t = tq_init"

definition tq_step :: "thread_queue \<Rightarrow> thread_queue \<Rightarrow> bool" where
  "tq_step t u \<longleftrightarrow> worker_step t u \<or> other_step t u"

interpretation threads: transition_system tq_start tq_step tq_inv
proof
  show "tq_inv t" if "tq_start t" for t
    using that by (auto simp: tq_start_def tq_inv_def tq_init_def list_ok_def worker_ok_def waiters_ok_def rlist_def intro!: exI [of _ "[]"])
  show "tq_inv u" if "tq_inv t" "tq_step t u" for t u
    using that worker_step_inv other_step_inv by (auto simp: tq_step_def)
qed

section \<open>The worker goes on\<close>

text \<open>What the worker does on its own before it sleeps or ends.\<close>

fun pc_rank :: "worker_pc \<Rightarrow> nat" where
  "pc_rank Ready = 1"
| "pc_rank (Running r) = 3"
| "pc_rank (Finishing r) = 2"
| "pc_rank _ = 0"

definition rank :: "ptr list \<Rightarrow> thread_queue \<Rightarrow> nat" where
  "rank xs t = 3 * length xs + pc_rank (tq_worker t)"

text \<open>While an event is pending the worker has a step, and its steps come to the request of the
  event.\<close>

lemma pending_served:
  assumes "list_ok xs t" and "worker_ok xs t" and "waiters_ok xs t" and "v \<noteq> 0" and "tq_status t v = XRP_STATUS_PENDING"
  shows "\<exists>u n. (worker_step ^^ n) t u \<and> n \<le> rank xs t \<and> tq_status u v \<noteq> XRP_STATUS_PENDING \<and>
    (\<forall>i. tq_waiters t i = Sleeping v \<longrightarrow> tq_waiters u i = Looking v)"
  using assms
proof (induction "rank xs t" arbitrary: xs t rule: less_induct)
  case less
  obtain x where x: "x \<in> set (due (tq_worker t) @ xs)" "tq_event t x = v"
    using less.prems(3-5) unfolding waiters_ok_def by blast
  have go: ?case
    if st: "worker_step t u" and r: "rank ys u < rank xs t" and ok: "list_ok ys u" "worker_ok ys u" "waiters_ok ys u"
      and same: "tq_status u v = XRP_STATUS_PENDING" "\<forall>i. tq_waiters t i = Sleeping v \<longrightarrow> tq_waiters u i = Sleeping v" for u ys
  proof -
    obtain w n where w: "(worker_step ^^ n) u w" "n \<le> rank ys u" "tq_status w v \<noteq> XRP_STATUS_PENDING"
        "\<forall>i. tq_waiters u i = Sleeping v \<longrightarrow> tq_waiters w i = Looking v"
      using less.hyps [OF r ok less.prems(4) same(1)] by blast
    have "(worker_step ^^ Suc n) t w" using st w(1) by (rule relpowp_Suc_I2)
    then show ?case using w(2-4) r same(2) by (intro exI [of _ w] exI [of _ "Suc n"]) auto
  qed
  show ?case
  proof (cases "tq_worker t")
    case Ready
    from less.prems(1) Ready show ?thesis
    proof (cases rule: worker_section_cases)
      case (takes r ys l)
      show ?thesis
      proof (rule go [of "worker_section t" ys])
        show "worker_step t (worker_section t)" using Ready by (rule looks)
        show "rank ys (worker_section t) < rank xs t" using takes Ready by (simp add: rank_def)
        show "list_ok ys (worker_section t)" "worker_ok ys (worker_section t)" "waiters_ok ys (worker_section t)"
          using less.prems(1-3) takes Ready by (auto simp: list_ok_def worker_ok_def waiters_ok_def)
      qed (use less.prems(5) takes in simp_all)
    qed (use x Ready in simp_all)
  next
    case (Running r)
    let ?u = "complete_section r XRP_STATUS_SUCCESS t"
    have st: "worker_step t ?u" using Running by (rule completes) simp
    show ?thesis
    proof (cases "tq_event t r = v")
      case True
      have "(worker_step ^^ 1) t ?u" using st by (simp only: relpowp_1)
      moreover have "1 \<le> rank xs t" using Running by (simp add: rank_def)
      moreover have "tq_status ?u v \<noteq> XRP_STATUS_PENDING \<and> (\<forall>i. tq_waiters t i = Sleeping v \<longrightarrow> tq_waiters ?u i = Looking v)"
        using True less.prems(4) by (simp add: complete_section_def wake_def)
      ultimately show ?thesis by blast
    next
      case False
      show ?thesis
      proof (rule go [of ?u xs])
        show "worker_step t ?u" by (rule st)
        show "rank xs ?u < rank xs t" using Running by (simp add: rank_def complete_section_def Let_def)
        show "list_ok xs ?u" "worker_ok xs ?u"
          using less.prems(1,2) Running by (auto simp: list_ok_def worker_ok_def complete_section_def Let_def)
        show "waiters_ok xs ?u" using less.prems(3) Running
          by (auto simp: waiters_ok_def complete_section_def Let_def wake_def split: if_splits)
      qed (use False less.prems(5) in \<open>auto simp: complete_section_def wake_def Let_def\<close>)
    qed
  next
    case (Finishing r)
    let ?u = "t\<lparr>tq_worker := if tq_sync t then Ended else Ready, tq_done := tq_done t @ [r]\<rparr>"
    have ns: "\<not> tq_sync t" using less.prems(2,4) x Finishing by (auto simp: worker_ok_def)
    show ?thesis
    proof (rule go [of ?u xs])
      show "worker_step t ?u" using Finishing by (rule returns_from_fn)
      show "rank xs ?u < rank xs t" using ns Finishing by (simp add: rank_def)
      show "list_ok xs ?u" "worker_ok xs ?u" "waiters_ok xs ?u"
        using less.prems(1-3) ns Finishing by (auto simp: list_ok_def worker_ok_def waiters_ok_def)
    qed (use less.prems(5) in simp_all)
  qed (use less.prems(2,4) x in \<open>auto simp: worker_ok_def\<close>)
qed

section \<open>A run\<close>

text \<open>The worker goes to sleep on the empty list, a request with an event is pushed, and a client
  waits for the event.\<close>

definition sleeping_client :: thread_queue where
  "sleeping_client =
     (let t = push_section 4 9 (worker_section tq_init)
      in look_section 0 9 (t\<lparr>tq_waiters := (tq_waiters t)(0 := Looking 9)\<rparr>))"

lemma reach_sleeping_client: "reach tq_start tq_step sleeping_client"
proof -
  let ?a = "worker_section tq_init"
  let ?b = "push_section 4 9 ?a"
  let ?c = "?b\<lparr>tq_waiters := (tq_waiters ?b)(0 := Looking 9)\<rparr>"
  have "tq_step tq_init ?a" unfolding tq_step_def by (intro disjI1 looks) (simp add: tq_init_def)
  moreover have "tq_step ?a ?b" unfolding tq_step_def
    by (intro disjI2 pushes [where xs = "[]"]) (simp_all add: worker_section_def xrp_dequeue_request_def tq_init_def rlist_def)
  moreover have "tq_step ?b ?c" unfolding tq_step_def
    by (intro disjI2 begins_wait) (simp_all add: worker_section_def xrp_dequeue_request_def tq_init_def push_section_def push_item_def)
  moreover have "tq_step ?c (look_section 0 9 ?c)" unfolding tq_step_def
    by (intro disjI2 looks_at_event) simp
  moreover have "reach tq_start tq_step tq_init" by (intro reach_init) (simp add: tq_start_def)
  ultimately have "reach tq_start tq_step (look_section 0 9 ?c)" by (meson reach_step)
  then show ?thesis by (simp only: sleeping_client_def Let_def)
qed

section \<open>Properties\<close>

text \<open>Property C16: under every interleaving of pushes, waits, orders to stop and spurious wake-ups, the worker
  runs each request exactly once and in the order of the pushes: what was pushed is what is done,
  then the request in \<open>fn\<close>, then the list. When the worker has ended because it was told to, every
  request is done.\<close>

theorem requests_run_in_order:
  assumes "reach tq_start tq_step t"
  shows "\<exists>xs. rlist (tq_next t) (tq_list t) xs \<and> tq_pushed t = tq_done t @ in_fn (tq_worker t) @ xs \<and>
    (tq_worker t = Ended \<and> \<not> tq_sync t \<longrightarrow> tq_done t = tq_pushed t)"
proof -
  obtain xs where "list_ok xs t" "worker_ok xs t" using threads.reach_invar [OF assms] by (auto simp: tq_inv_def)
  then show ?thesis by (intro exI [of _ xs]) (auto simp: list_ok_def worker_ok_def)
qed

theorem requests_run_in_order_witness:
  "\<exists>xs. rlist (tq_next sleeping_client) (tq_list sleeping_client) xs \<and>
    tq_pushed sleeping_client = tq_done sleeping_client @ in_fn (tq_worker sleeping_client) @ xs"
  using requests_run_in_order [OF reach_sleeping_client] by blast

text \<open>Property C15: no wake-up is lost: when a client sleeps on its event, in any reachable state, the worker is
  neither asleep nor ended, and by its own steps alone, no more than three for each waiting request
  and three for the one it runs, it completes the event and wakes the client.\<close>

theorem no_lost_wakeup:
  assumes "reach tq_start tq_step t" and "tq_waiters t i = Sleeping v"
  shows "tq_worker t \<noteq> Asleep \<and> tq_worker t \<noteq> Ended \<and>
    (\<exists>u n. (worker_step ^^ n) t u \<and> n \<le> 3 * length (tq_pushed t) + 3 \<and>
      tq_status u v \<noteq> XRP_STATUS_PENDING \<and> tq_waiters u i = Looking v)"
proof -
  obtain xs where i: "list_ok xs t" "worker_ok xs t" "waiters_ok xs t"
    using threads.reach_invar [OF assms(1)] by (auto simp: tq_inv_def)
  have v: "v \<noteq> 0" "tq_status t v = XRP_STATUS_PENDING" using i(3) assms(2) by (auto simp: waiters_ok_def)
  obtain x where x: "x \<in> set (due (tq_worker t) @ xs)" "tq_event t x = v" using i(3) v unfolding waiters_ok_def by blast
  have w: "tq_worker t \<noteq> Asleep" "tq_worker t \<noteq> Ended"
    using i(2) x v(1) by (auto simp: worker_ok_def)
  have "rank xs t \<le> 3 * length (tq_pushed t) + 3"
    using i(1) by (cases "tq_worker t") (auto simp: rank_def list_ok_def)
  then show ?thesis using pending_served [OF i v] w assms(2) by (meson order_trans)
qed

theorem no_lost_wakeup_witness:
  "\<exists>u n. (worker_step ^^ n) sleeping_client u \<and> n \<le> 6 \<and>
    tq_status u 9 \<noteq> XRP_STATUS_PENDING \<and> tq_waiters u 0 = Looking 9"
proof -
  have "tq_waiters sleeping_client 0 = Sleeping 9" "tq_pushed sleeping_client = [4]"
    by (simp_all add: sleeping_client_def Let_def worker_section_def xrp_dequeue_request_def tq_init_def push_section_def
        push_item_def look_section_def)
  then show ?thesis using no_lost_wakeup [OF reach_sleeping_client, of 0 9] by simp
qed

end
