(* ===== verification/Xrp_Rounds.thy ===== *)
theory Xrp_Rounds
  imports Xrp_Threads Xrp_Sync Xrp_Sample
begin

text \<open>
  The calls of Xrp_Queue against the lock sections of Xrp_Threads: a call that enqueues a command
  is a push, and a round of the worker is three steps of its thread.
\<close>

section \<open>Where the two meet\<close>

text \<open>The queue \<open>q\<close> of a store, with the list \<open>xs\<close>, is the threaded queue \<open>t\<close>: the same items wait, the exit
  flags agree, and so do the events of all requests and the status of all events.\<close>

definition seen_as :: "ptr \<Rightarrow> ptr list \<Rightarrow> xrp_state \<Rightarrow> thread_queue \<Rightarrow> bool" where
  "seen_as q xs s t \<longleftrightarrow> rlist (tq_next t) (tq_list t) xs \<and>
     (\<exists>Q. queues s q = Some Q \<and> rlist (next_item s) (rq_request_queue (q_impl Q)) xs \<and> tq_exit t = rq_exit (q_impl Q)) \<and>
     (\<forall>r R. requests s r = Some R \<longrightarrow> tq_event t r = r_event R) \<and>
     (\<forall>v V. events s v = Some V \<longrightarrow> tq_status t v = e_status V)"

lemma round_sections:
  assumes i: "linv X L s" "fds_ok s" and Q: "queues s q = Some Q" "q_count Q \<noteq> 0" and L: "L q = r # xs"
    and t: "seen_as q (r # xs) s t" "tq_worker t = Ready" "\<not> tq_sync t"
  shows "\<exists>again s' t'. xrp_queue_process run E q s = Some (again, s') \<and> (worker_step ^^ 3) t t' \<and>
    tq_done t' = tq_done t @ [r] \<and>
    (if queues s' q = None then \<not> again else again \<and> seen_as q xs s' t' \<and> tq_worker t' = Ready)"
proof -
  obtain again s' R l where p: "xrp_queue_process run E q s = Some (again, s')" "requests s r = Some R"
      "linv X (L(q := xs)) s'" "processed q r R (taken q Q l s) s'" "again = (\<not> sync_exit s' q)"
    using Xrp_Process.worker_step [OF i Q(1) L linv_queue_ok(4) [OF i(1) Q], of run E] Q(2) by (auto elim!: returnsE)
  have rl: "rlist (tq_next t) (tq_list t) (r # xs)" using t(1) by (simp add: seen_as_def)
  obtain k where k: "xrp_dequeue_request (tq_next t) (tq_list t) = (r, k)" "rlist (tq_next t) k xs" by (rule dequeue_rlist [OF rl])
  have r0: "r \<noteq> 0" using rlist_nonzero [OF rl] by auto
  have ev: "tq_event t r = r_event R" using t(1) p(2) by (simp add: seen_as_def)
  define st where "st = (case events s' (r_event R) of Some V \<Rightarrow> e_status V | None \<Rightarrow> XRP_STATUS_SUCCESS)"
  have st: "st \<noteq> XRP_STATUS_PENDING \<or> r_event R = 0"
    using p(4) by (auto simp: st_def processed_def completes_def split: option.splits if_splits)
  define a where "a = t\<lparr>tq_list := k, tq_worker := Running r\<rparr>"
  define b where "b = complete_section r (if r_event R = 0 then XRP_STATUS_SUCCESS else st) a"
  define c where "c = b\<lparr>tq_worker := Ready, tq_done := tq_done b @ [r]\<rparr>"
  have steps: "worker_step t a" "worker_step a b" "worker_step b c"
  proof -
    have "worker_section t = a" using k(1) r0 by (simp add: worker_section_def a_def)
    then show "worker_step t a" using looks [OF t(2)] by simp
    show "worker_step a b" unfolding b_def by (rule worker_step.completes) (use st in \<open>auto simp: a_def\<close>)
    have "tq_worker b = Finishing r" "\<not> tq_sync b" using t(3) by (simp_all add: b_def a_def complete_section_def Let_def)
    then show "worker_step b c" using returns_from_fn [of b r] by (simp add: c_def)
  qed
  have "(worker_step ^^ 3) t c" unfolding numeral_3_eq_3 by (meson relpowp_Suc_I2 relpowp_0_I steps)
  moreover have "tq_done c = tq_done t @ [r]" by (simp add: c_def b_def a_def complete_section_def Let_def)
  moreover have "if queues s' q = None then \<not> again else again \<and> seen_as q xs s' c \<and> tq_worker c = Ready"
  proof (cases "queues s' q")
    case None
    then have "queue_after q (taken q Q l s) s'" using p(4) by (auto simp: processed_def split: if_splits)
    then show ?thesis using None p(5) by (auto simp: queue_after_def)
  next
    case (Some Q')
    have live: "rq_exit (q_impl Q') = rq_exit (q_impl Q) \<and> \<not> sync_exit s' q"
      using p(4) Some by (auto simp: processed_def queue_after_def split: if_splits)
    have "seen_as q xs s' c" unfolding seen_as_def
    proof (intro conjI)
      show "rlist (tq_next c) (tq_list c) xs" using k(2) by (simp add: c_def b_def a_def complete_section_def Let_def)
      have "rlist (next_item s') (rq_request_queue (q_impl Q')) xs" using linv_queue_ok(3) [OF p(3) Some] by simp
      moreover have "tq_exit c = rq_exit (q_impl Q')"
        using t(1) Q(1) live by (simp add: seen_as_def c_def b_def a_def complete_section_def Let_def)
      ultimately show "\<exists>Q. queues s' q = Some Q \<and> rlist (next_item s') (rq_request_queue (q_impl Q)) xs \<and> tq_exit c = rq_exit (q_impl Q)"
        using Some by blast
      show "\<forall>x R. requests s' x = Some R \<longrightarrow> tq_event c x = r_event R"
        using t(1) p(4) by (simp add: seen_as_def processed_def c_def b_def a_def complete_section_def Let_def)
      show "\<forall>v V. events s' v = Some V \<longrightarrow> tq_status c v = e_status V"
        using t(1) p(4) ev by (auto simp: seen_as_def processed_def completes_def c_def b_def a_def complete_section_def Let_def st_def split: if_splits)
    qed
    then show ?thesis using Some live p(5) by (simp add: c_def)
  qed
  ultimately show ?thesis using p(1) by blast
qed

lemma enqueue_section:
  assumes i: "inv X L s" and Q: "queues s q = Some Q" "q_count Q \<noteq> 0"
    and e: "enqueued q grp v X L s s'"
    and t: "seen_as q (L q) s t" "tq_worker t = Ready \<or> tq_worker t = Asleep"
  shows "\<exists>r. other_step t (push_section r v t) \<and> seen_as q (L q @ [r]) s' (push_section r v t)"
proof -
  obtain r R where r: "requests s r = None" "requests s' = (requests s)(r \<mapsto> R)" "r_event R = v"
      "inv (holder v X) (L(q := L q @ [r])) s'" "v \<noteq> 0 \<longrightarrow> events s v = None"
      "events s' = (if v = 0 then events s else (events s)(v \<mapsto> new_event q))"
    using e by (auto simp: enqueued_def)
  obtain Q' where Q': "queues s' q = Some Q'" "q_count Q' \<noteq> 0" using e by (auto simp: enqueued_def)
  have nr: "r \<notin> set (L q)"
  proof
    assume "r \<in> set (L q)"
    then have "requests s r \<noteq> None" using pending_request [OF i, of q r] Q(1) by blast
    then show False using r(1) by simp
  qed
  have l: "rlist (next_item s') (rq_request_queue (q_impl Q')) (L q @ [r])"
    using live_queue_ok(4) [OF r(4) Q'(1)] by simp
  have r0: "r \<noteq> 0" using rlist_nonzero [OF l] by auto
  have ex: "\<not> rq_exit (q_impl Q)" "\<not> rq_exit (q_impl Q')"
    using live_queue_ok(3) [OF i Q(1)] live_queue_ok(3) [OF r(4) Q'(1)] Q(2) Q'(2) by blast+
  have tl: "rlist (tq_next t) (tq_list t) (L q)" "\<not> tq_exit t" using t(1) Q(1) ex by (auto simp: seen_as_def)
  obtain nxt k b where p: "push_item (tq_next t) (tq_list t) r = (nxt, k, b)" by (cases "push_item (tq_next t) (tq_list t) r")
  have "other_step t (push_section r v t)" by (rule pushes [OF r0 tl(2,1) nr]) (use t(2) in auto)
  moreover have "seen_as q (L q @ [r]) s' (push_section r v t)" unfolding seen_as_def
  proof (intro conjI)
    show "rlist (tq_next (push_section r v t)) (tq_list (push_section r v t)) (L q @ [r])"
      using push_item_rlist(1) [OF tl(1) nr r0 p] p by (simp add: push_section_def)
    show "\<exists>Q. queues s' q = Some Q \<and> rlist (next_item s') (rq_request_queue (q_impl Q)) (L q @ [r]) \<and>
        tq_exit (push_section r v t) = rq_exit (q_impl Q)"
      using Q'(1) l tl(2) ex(2) p by (simp add: push_section_def)
    show "\<forall>x R. requests s' x = Some R \<longrightarrow> tq_event (push_section r v t) x = r_event R"
      using t(1) r(2,3) p by (auto simp: seen_as_def push_section_def)
    show "\<forall>w V. events s' w = Some V \<longrightarrow> tq_status (push_section r v t) w = e_status V"
      using t(1) r(6) p by (auto simp: seen_as_def push_section_def new_event_def)
  qed
  ultimately show ?thesis by blast
qed


text \<open>The queue of the sample store as a threaded queue.\<close>

definition sample_threads :: thread_queue where
  "sample_threads = tq_init\<lparr>tq_next := (\<lambda>_. 0)(0x3000 := 0x4000), tq_list := \<lparr>rl_head = 0x3000, rl_tail = 0x4000\<rparr>,
     tq_event := (\<lambda>_. 0)(0x4000 := 0x5000), tq_status := (\<lambda>_. XRP_STATUS_SUCCESS)(0x5000 := XRP_STATUS_PENDING),
     tq_pushed := [0x3000, 0x4000]\<rparr>"


end
