(* ===== verification/Vdsp_Server.thy ===== *)
theory Vdsp_Server
  imports Xrp_State
begin

text \<open>
  The client of the vdsp service (vdsp_server_interface.cpp): the connection to the service with
  its generation, the table of virtual descriptors, opening and closing them, and the commands
  that are forwarded to the service while a use count protects the descriptor.

  The process-wide variables of the file are the record \<open>server_state\<close>. The service itself,
  the system properties and the handle library are outside the repository: \<open>server_env\<close> holds
  their answers, given the calls made before, and the constants of VdspService.h. \<^const>\<open>None\<close>
  stands for undefined behaviour (a shift by 32 or more, an access out of bounds, a null
  pointer) or for taking the lock twice. Unlocking a lock that is not held is undefined in
  pthreads too; it is counted in \<open>lock_faults\<close>.
\<close>

section \<open>State and environment\<close>

record native_handle =
  nh_numFds :: nat
  nh_numInts :: nat
  nh_data :: "i32 option list"

datatype scall =
    Sv_getService
  | Sv_linkToDeath
  | Sv_unlinkToDeath
  | Sv_open sprd_vdsp_worktype
  | Sv_close
  | Sv_send "byte list" "native_handle option" "native_handle option" "native_handle option" u32 u32
  | Sv_load "byte list" "native_handle option"
  | Sv_unload "byte list"
  | Sv_powerHint i32 u32
  | Sv_handle_create nat nat
  | Sv_malloc nat

record server_env =
  sv_answer :: "scall list \<Rightarrow> scall \<Rightarrow> i32"
  sv_property :: "scall list \<Rightarrow> string"
  SPRD_VDSP_HANDLE_INT_NUM :: nat
  SPRD_VDSP_HANDLE_PHYADDR_OFFSET :: nat
  SPRD_VDSP_HANDLE_SIZE_OFFSET :: nat
  SPRD_VDSP_HANDLE_FLAG_OFFSET :: nat
  VdspInputOutput_size :: "sprd_vdsp_inout \<Rightarrow> u32"
  VdspInputOutput_viraddr :: "sprd_vdsp_inout \<Rightarrow> ptr"

record server_state =
  gInitFlag :: bool
  gGeneration :: u32
  gLock :: bool
  gVdspService :: bool
  gOpenedCount :: i32
  gWorkType :: sprd_vdsp_worktype
  gWorking :: i32
  fd_working :: "i32 list"
  g_fdtable :: u32
  live_handles :: nat
  lock_faults :: nat
  svc_calls :: "scall list"

definition USE_FD_MAX_NUM :: nat where "USE_FD_MAX_NUM = 32"

definition server_init :: server_state where
  "server_init = \<lparr>gInitFlag = False, gGeneration = 0, gLock = False, gVdspService = False,
     gOpenedCount = 0, gWorkType = SPRD_VDSP_WORK_MAXTYPE, gWorking = 0,
     fd_working = replicate USE_FD_MAX_NUM 0, g_fdtable = 0, live_handles = 0, lock_faults = 0,
     svc_calls = []\<rparr>"

definition svc :: "server_env \<Rightarrow> scall \<Rightarrow> server_state \<Rightarrow> i32 \<times> server_state" where
  "svc E c s = (sv_answer E (svc_calls s) c, s\<lparr>svc_calls := svc_calls s @ [c]\<rparr>)"

definition lock :: "server_state \<Rightarrow> server_state option" where
  "lock s = (if gLock s then None else Some (s\<lparr>gLock := True\<rparr>))"

definition unlock :: "server_state \<Rightarrow> server_state" where
  "unlock s = (if gLock s then s\<lparr>gLock := False\<rparr> else s\<lparr>lock_faults := Suc (lock_faults s)\<rparr>)"

section \<open>Parameters of a remote call\<close>

definition put_int :: "nat \<Rightarrow> i32 \<Rightarrow> i32 option list \<Rightarrow> i32 option list option" where
  "put_int i v data = (if i < length data then Some (data[i := Some v]) else None)"

text \<open>The loop over the \<open>num\<close> parameters, from index \<open>i\<close> on; \<open>k\<close> are left.\<close>

fun fill_params ::
    "server_env \<Rightarrow> nat \<Rightarrow> sprd_vdsp_inout list \<Rightarrow> nat \<Rightarrow> nat \<Rightarrow> i32 option list \<Rightarrow> i32 option list option" where
  "fill_params E num inp i 0 data = Some data"
| "fill_params E num inp i (Suc k) data =
     (case inp of [] \<Rightarrow> None
      | io # rest \<Rightarrow>
          do { data \<leftarrow> put_int i (io_fd io) data;
               data \<leftarrow> put_int (num + i * SPRD_VDSP_HANDLE_INT_NUM E + SPRD_VDSP_HANDLE_PHYADDR_OFFSET E - 1)
                         (io_phy_addr io) data;
               data \<leftarrow> put_int (num + i * SPRD_VDSP_HANDLE_INT_NUM E + SPRD_VDSP_HANDLE_SIZE_OFFSET E - 1)
                         (io_size io) data;
               data \<leftarrow> put_int (num + i * SPRD_VDSP_HANDLE_INT_NUM E + SPRD_VDSP_HANDLE_FLAG_OFFSET E - 1)
                         (io_flag io) data;
               fill_params E num rest (Suc i) k data })"

definition native_handle_create ::
    "server_env \<Rightarrow> nat \<Rightarrow> nat \<Rightarrow> server_state \<Rightarrow> native_handle option \<times> server_state" where
  "native_handle_create E fds ints s =
     (let (a, s) = svc E (Sv_handle_create fds ints) s
      in if a = 0 then (None, s)
         else (Some \<lparr>nh_numFds = fds, nh_numInts = ints, nh_data = replicate (fds + ints) None\<rparr>,
               s\<lparr>live_handles := Suc (live_handles s)\<rparr>))"

definition native_handle_delete :: "native_handle option \<Rightarrow> server_state \<Rightarrow> server_state" where
  "native_handle_delete h s = (case h of None \<Rightarrow> s | Some _ \<Rightarrow> s\<lparr>live_handles := live_handles s - 1\<rparr>)"

definition create_hidl_params ::
    "server_env \<Rightarrow> sprd_vdsp_inout list \<Rightarrow> u32 \<Rightarrow> server_state
       \<Rightarrow> (i32 \<times> native_handle option \<times> server_state) option" where
  "create_hidl_params E inp num s =
     (if num = 0 then Some (- 1, None, s)
      else (let (h, s) = native_handle_create E (unat num) (unat num * SPRD_VDSP_HANDLE_INT_NUM E) s
            in case h of None \<Rightarrow> Some (- 1, None, s)
               | Some h \<Rightarrow> do { data \<leftarrow> fill_params E (unat num) inp 0 (unat num) (nh_data h);
                                Some (0, Some (h\<lparr>nh_data := data\<rparr>), s) }))"

section \<open>Checksums\<close>

definition check_sum_flag :: "server_env \<Rightarrow> server_state \<Rightarrow> i32" where
  "check_sum_flag E s = (if sv_property E (svc_calls s) = ''1'' then 1 else 0)"

text \<open>The inner loop: byte \<open>j + 1\<close> is added in round \<open>j\<close>, and byte 0 in round 0 too.\<close>

fun checksum_loop :: "(ptr \<Rightarrow> byte) \<Rightarrow> ptr \<Rightarrow> nat \<Rightarrow> nat \<Rightarrow> 64 word \<Rightarrow> 64 word" where
  "checksum_loop m temp j 0 tempresult = tempresult"
| "checksum_loop m temp j (Suc k) tempresult =
     checksum_loop m temp (Suc j) k
       (if j = 0 then ucast (m (temp + of_nat j)) + ucast (m (temp + of_nat (j + 1)))
        else tempresult + ucast (m (temp + of_nat (j + 1))))"

fun checksum_results ::
    "server_env \<Rightarrow> (ptr \<Rightarrow> byte) \<Rightarrow> sprd_vdsp_inout list \<Rightarrow> nat \<Rightarrow> 64 word \<Rightarrow> 64 word list option" where
  "checksum_results E m buffer 0 tempresult = Some []"
| "checksum_results E m buffer (Suc k) tempresult =
     (case buffer of [] \<Rightarrow> None
      | io # rest \<Rightarrow>
          (let r = checksum_loop m (VdspInputOutput_viraddr E io) 0 (unat (VdspInputOutput_size E io)) tempresult
           in do { rs \<leftarrow> checksum_results E m rest k r; Some (r # rs) }))"

text \<open>The array of results is allocated without a check; the printing itself is not modelled.\<close>

definition print_checksum_result ::
    "server_env \<Rightarrow> (ptr \<Rightarrow> byte) \<Rightarrow> sprd_vdsp_inout list option \<Rightarrow> u32 \<Rightarrow> server_state
       \<Rightarrow> (64 word list \<times> server_state) option" where
  "print_checksum_result E m buffer num s =
     (case buffer of None \<Rightarrow> Some ([], s)
      | Some buffer \<Rightarrow>
          (let (p, s) = svc E (Sv_malloc (8 * unat num)) s
           in do { rs \<leftarrow> checksum_results E m buffer (unat num) 0;
                   if p = 0 \<and> num \<noteq> 0 then None else Some (rs, s) }))"

section \<open>The table of virtual descriptors\<close>

fun find_free :: "u32 \<Rightarrow> nat \<Rightarrow> nat \<Rightarrow> nat option" where
  "find_free valid_bits i 0 = None"
| "find_free valid_bits i (Suc k) =
     (if drop_bit i valid_bits AND 1 \<noteq> 0 then Some i else find_free valid_bits (Suc i) k)"

definition Alloc_Fd :: "server_state \<Rightarrow> i32 \<times> server_state" where
  "Alloc_Fd s =
     (let valid_bits = g_fdtable s XOR 0xffffffff
      in case find_free valid_bits 0 USE_FD_MAX_NUM of
           Some i \<Rightarrow> (of_nat i, s\<lparr>g_fdtable := g_fdtable s OR push_bit i 1\<rparr>)
         | None \<Rightarrow> (- 1, s))"

definition Free_Fd :: "i32 \<Rightarrow> server_state \<Rightarrow> (i32 \<times> server_state) option" where
  "Free_Fd fd s =
     (if sint fd < 0 then Some (- 1, s)
      else if unat fd \<ge> 32 then None
      else if g_fdtable s AND push_bit (unat fd) 1 = 0 then Some (- 1, s)
      else Some (0, s\<lparr>g_fdtable := g_fdtable s AND NOT (push_bit (unat fd) 1)\<rparr>))"

definition Check_FdValid :: "i32 \<Rightarrow> server_state \<Rightarrow> i32 option" where
  "Check_FdValid fd s =
     (if sint fd < 0 then Some (- 1)
      else if unat fd \<ge> 32 then None
      else if g_fdtable s AND push_bit (unat fd) 1 = 0 then Some (- 1)
      else Some 0)"

definition Check_GenrationValid :: "u32 \<Rightarrow> server_state \<Rightarrow> i32" where
  "Check_GenrationValid generation s = (if generation = gGeneration s then 0 else - 1)"

section \<open>The connection\<close>

definition getVdspService :: "server_env \<Rightarrow> i32 \<Rightarrow> server_state \<Rightarrow> (bool \<times> server_state) option" where
  "getVdspService E realget s =
     do { s \<leftarrow> lock s;
          let s = (if \<not> gInitFlag s \<and> realget \<noteq> 0
                   then (let (binder, s) = svc E Sv_getService s
                         in if binder \<noteq> 0
                            then (let s = s\<lparr>g_fdtable := 0, gWorkType := SPRD_VDSP_WORK_MAXTYPE,
                                            fd_working := replicate USE_FD_MAX_NUM 0\<rparr>;
                                      (_, s) = svc E Sv_linkToDeath s
                                  in s\<lparr>gVdspService := True, gInitFlag := True, gOpenedCount := 0\<rparr>)
                            else s)
                   else s);
          Some (gVdspService s, unlock s) }"

definition putVdspService :: "server_env \<Rightarrow> server_state \<Rightarrow> i32 \<times> server_state" where
  "putVdspService E s =
     (if gInitFlag s
      then (let (_, s) = svc E Sv_unlinkToDeath s
            in (0, s\<lparr>gVdspService := False, gInitFlag := False, gOpenedCount := 0\<rparr>))
      else (0, s))"

text \<open>The callback of the death recipient.\<close>

definition serviceDied :: "server_state \<Rightarrow> server_state option" where
  "serviceDied s =
     do { s \<leftarrow> lock s;
          Some (unlock (s\<lparr>gInitFlag := False, gGeneration := gGeneration s + 1\<rparr>)) }"

section \<open>Opening and closing\<close>

text \<open>The part of \<open>sprd_vdsp_open_device_serv\<close> under the lock: whether it succeeded, the
  descriptor, the handle it fills in.\<close>

definition open_locked ::
    "server_env \<Rightarrow> sprd_vdsp_worktype \<Rightarrow> server_state
       \<Rightarrow> (bool \<times> i32 \<times> vdsp_handle \<times> server_state) option" where
  "open_locked E type s =
     (let handle = \<lparr>vh_fd = - 1, vh_generation = 0xffffffff\<rparr>;
          (fd, s) = Alloc_Fd s
      in if sint fd < 0 then Some (False, fd, handle, s)
         else
           (let handle = \<lparr>vh_fd = fd, vh_generation = gGeneration s\<rparr>
            in if gOpenedCount s = 0
               then (let (ret, s) = svc E (Sv_open type) s
                     in if ret = 0
                        then Some (True, fd, handle,
                               s\<lparr>gOpenedCount := gOpenedCount s + 1, gWorkType := type\<rparr>)
                        else Some (False, fd, handle, s))
               else if type = gWorkType s
                    then Some (True, fd, handle, s\<lparr>gOpenedCount := gOpenedCount s + 1\<rparr>)
                    else do { (_, s) \<leftarrow> Free_Fd fd s; Some (False, fd, handle, s) }))"

definition sprd_vdsp_open_device_serv ::
    "server_env \<Rightarrow> sprd_vdsp_worktype \<Rightarrow> bool \<Rightarrow> server_state
       \<Rightarrow> (sprd_vdsp_result \<times> vdsp_handle option \<times> server_state) option" where
  "sprd_vdsp_open_device_serv E type given s =
     do { (cs, s) \<leftarrow> getVdspService E 1 s;
          if \<not> given \<or> \<not> cs then Some (SPRD_VDSP_RESULT_FAIL, None, s)
          else do {
            s \<leftarrow> lock s;
            (opened, fd, handle, s) \<leftarrow> open_locked E type s;
            let s = unlock s;
            if opened then Some (SPRD_VDSP_RESULT_SUCCESS, Some handle, s)
            else do { s \<leftarrow> (if sint fd > 0 then do { (_, s) \<leftarrow> Free_Fd fd s; Some s } else Some s);
                      Some (SPRD_VDSP_RESULT_FAIL, Some handle, s) } } }"

text \<open>The part of \<open>sprd_vdsp_close_device_serv\<close> under the lock, with the unlock of the branch for
  an old generation.\<close>

definition close_locked ::
    "server_env \<Rightarrow> vdsp_handle \<Rightarrow> server_state \<Rightarrow> (sprd_vdsp_result \<times> server_state) option" where
  "close_locked E hnd s =
     (if Check_GenrationValid (vh_generation hnd) s \<noteq> 0
      then Some (SPRD_VDSP_RESULT_OLD_GENERATION, unlock s)
      else do {
        valid \<leftarrow> Check_FdValid (vh_fd hnd) s;
        if valid \<noteq> 0 then Some (SPRD_VDSP_RESULT_FAIL, s)
        else (let s = s\<lparr>gOpenedCount := gOpenedCount s - 1\<rparr>
              in if gOpenedCount s = 0
                 then (if gWorking s \<noteq> 0 then Some (SPRD_VDSP_RESULT_FAIL, s)
                       else (let (ret, s) = svc E Sv_close s
                             in if ret = 0
                                then do { (_, s) \<leftarrow> Free_Fd (vh_fd hnd) s;
                                          let (_, s) = putVdspService E s;
                                          Some (SPRD_VDSP_RESULT_SUCCESS,
                                                s\<lparr>gWorkType := SPRD_VDSP_WORK_MAXTYPE\<rparr>) }
                                else Some (SPRD_VDSP_RESULT_FAIL, s)))
                 else if fd_working s ! unat (vh_fd hnd) = 0
                      then do { (_, s) \<leftarrow> Free_Fd (vh_fd hnd) s; Some (SPRD_VDSP_RESULT_SUCCESS, s) }
                      else Some (SPRD_VDSP_RESULT_FAIL, s)) })"

definition sprd_vdsp_close_device_serv ::
    "server_env \<Rightarrow> vdsp_handle option \<Rightarrow> server_state \<Rightarrow> (sprd_vdsp_result \<times> server_state) option" where
  "sprd_vdsp_close_device_serv E handle s =
     (case handle of None \<Rightarrow> Some (SPRD_VDSP_RESULT_FAIL, s)
      | Some hnd \<Rightarrow>
          do { (cs, s) \<leftarrow> getVdspService E 0 s;
               if cs then do { s \<leftarrow> lock s;
                               (ret, s) \<leftarrow> close_locked E hnd s;
                               Some (ret, unlock s) }
               else Some (SPRD_VDSP_RESULT_FAIL, s) })"

section \<open>Commands\<close>

text \<open>The checks every command starts with, in their order; \<^const>\<open>None\<close> inside means the command
  may go on.\<close>

definition session_check :: "vdsp_handle \<Rightarrow> server_state \<Rightarrow> sprd_vdsp_result option option" where
  "session_check hnd s =
     (if Check_GenrationValid (vh_generation hnd) s \<noteq> 0 then Some (Some SPRD_VDSP_RESULT_OLD_GENERATION)
      else do { valid \<leftarrow> Check_FdValid (vh_fd hnd) s;
                Some (if valid \<noteq> 0 then Some SPRD_VDSP_RESULT_FAIL
                      else if gOpenedCount s = 0 then Some SPRD_VDSP_RESULT_FAIL else None) })"

definition add_work :: "i32 \<Rightarrow> i32 \<Rightarrow> server_state \<Rightarrow> server_state" where
  "add_work n fd s = s\<lparr>gWorking := gWorking s + n,
     fd_working := (fd_working s)[unat fd := fd_working s ! unat fd + n]\<rparr>"

text \<open>A command that passed the checks: count it in, call the service without the lock, count it
  out.\<close>

definition guarded_call ::
    "server_env \<Rightarrow> i32 \<Rightarrow> scall \<Rightarrow> server_state \<Rightarrow> (i32 \<times> server_state) option" where
  "guarded_call E fd c s =
     (let s = unlock (add_work 1 fd s);
          (ret, s) = svc E c s
      in do { s \<leftarrow> lock s; Some (ret, unlock (add_work (- 1) fd s)) })"

definition optional_params ::
    "server_env \<Rightarrow> sprd_vdsp_inout option \<Rightarrow> server_state \<Rightarrow> (i32 \<times> native_handle option \<times> server_state) option" where
  "optional_params E x s = (case x of None \<Rightarrow> Some (0, None, s) | Some io \<Rightarrow> create_hidl_params E [io] 1 s)"

definition sprd_vdsp_send_cmd_serv ::
    "server_env \<Rightarrow> (ptr \<Rightarrow> byte) \<Rightarrow> vdsp_handle option \<Rightarrow> byte list \<Rightarrow> sprd_vdsp_inout option
       \<Rightarrow> sprd_vdsp_inout option \<Rightarrow> sprd_vdsp_inout list option \<Rightarrow> u32 \<Rightarrow> u32 \<Rightarrow> server_state
       \<Rightarrow> (sprd_vdsp_result \<times> server_state) option" where
  "sprd_vdsp_send_cmd_serv E m handle nsid inp out buffer bufnum priority s =
     do { (cs, s) \<leftarrow> getVdspService E 0 s;
          case (cs, handle) of
            (True, Some hnd) \<Rightarrow>
              do { s \<leftarrow> lock s;
                   refused \<leftarrow> session_check hnd s;
                   case refused of
                     Some r \<Rightarrow> Some (r, unlock s)
                   | None \<Rightarrow>
                     do { (ret, handle_input, s) \<leftarrow> optional_params E inp s;
                          if ret \<noteq> 0 then Some (SPRD_VDSP_RESULT_FAIL, unlock s)
                          else do {
                            (ret, handle_output, s) \<leftarrow> optional_params E out s;
                            if ret \<noteq> 0
                            then Some (SPRD_VDSP_RESULT_FAIL, unlock (native_handle_delete handle_input s))
                            else do {
                              (ret, handle_buffers, s) \<leftarrow>
                                (if bufnum \<noteq> 0
                                 then do { bs \<leftarrow> buffer; create_hidl_params E bs bufnum s }
                                 else Some (0, None, s));
                              if ret \<noteq> 0
                              then Some (SPRD_VDSP_RESULT_FAIL,
                                     unlock (native_handle_delete handle_output (native_handle_delete handle_input s)))
                              else do {
                                s \<leftarrow> (if check_sum_flag E s \<noteq> 0
                                      then do { (_, s) \<leftarrow> print_checksum_result E m buffer bufnum s;
                                                (_, s) \<leftarrow> print_checksum_result E m (map_option (\<lambda>io. [io]) inp) 1 s;
                                                (_, s) \<leftarrow> print_checksum_result E m (map_option (\<lambda>io. [io]) out) 1 s;
                                                Some s }
                                      else Some s);
                                (ret, s) \<leftarrow> guarded_call E (vh_fd hnd)
                                   (Sv_send nsid handle_input handle_output handle_buffers bufnum priority) s;
                                let s = native_handle_delete handle_buffers
                                          (native_handle_delete handle_output (native_handle_delete handle_input s));
                                Some (if ret = 0 then SPRD_VDSP_RESULT_SUCCESS else SPRD_VDSP_RESULT_FAIL, s)
                              } } } } }
          | _ \<Rightarrow> Some (SPRD_VDSP_RESULT_FAIL, s) }"

definition sprd_vdsp_loadlibrary_serv ::
    "server_env \<Rightarrow> vdsp_handle option \<Rightarrow> byte list \<Rightarrow> sprd_vdsp_inout list \<Rightarrow> server_state
       \<Rightarrow> (sprd_vdsp_result \<times> server_state) option" where
  "sprd_vdsp_loadlibrary_serv E handle libname buffer s =
     do { (cs, s) \<leftarrow> getVdspService E 0 s;
          case (cs, handle) of
            (True, Some hnd) \<Rightarrow>
              do { s \<leftarrow> lock s;
                   refused \<leftarrow> session_check hnd s;
                   case refused of
                     Some r \<Rightarrow> Some (r, unlock s)
                   | None \<Rightarrow>
                     do { (ret, handle_buffer, s) \<leftarrow> create_hidl_params E buffer 1 s;
                          if ret \<noteq> 0 then Some (SPRD_VDSP_RESULT_FAIL, unlock s)
                          else do {
                            (ret, s) \<leftarrow> guarded_call E (vh_fd hnd) (Sv_load libname handle_buffer) s;
                            let s = native_handle_delete handle_buffer s;
                            Some (if ret = 0 then SPRD_VDSP_RESULT_SUCCESS else SPRD_VDSP_RESULT_FAIL, s)
                          } } }
          | _ \<Rightarrow> Some (SPRD_VDSP_RESULT_FAIL, s) }"

definition sprd_vdsp_unloadlibrary_serv ::
    "server_env \<Rightarrow> vdsp_handle option \<Rightarrow> byte list \<Rightarrow> server_state
       \<Rightarrow> (sprd_vdsp_result \<times> server_state) option" where
  "sprd_vdsp_unloadlibrary_serv E handle libname s =
     do { (cs, s) \<leftarrow> getVdspService E 0 s;
          case (cs, handle) of
            (True, Some hnd) \<Rightarrow>
              do { s \<leftarrow> lock s;
                   refused \<leftarrow> session_check hnd s;
                   case refused of
                     Some r \<Rightarrow> Some (r, unlock s)
                   | None \<Rightarrow>
                     do { (ret, s) \<leftarrow> guarded_call E (vh_fd hnd) (Sv_unload libname) s;
                          Some (if ret = 0 then SPRD_VDSP_RESULT_SUCCESS else SPRD_VDSP_RESULT_FAIL, s) } }
          | _ \<Rightarrow> Some (SPRD_VDSP_RESULT_FAIL, s) }"

definition sprd_vdsp_power_hint_serv ::
    "server_env \<Rightarrow> vdsp_handle option \<Rightarrow> i32 \<Rightarrow> u32 \<Rightarrow> server_state
       \<Rightarrow> (sprd_vdsp_result \<times> server_state) option" where
  "sprd_vdsp_power_hint_serv E handle level acquire_release s =
     do { (cs, s) \<leftarrow> getVdspService E 0 s;
          case (cs, handle) of
            (True, Some hnd) \<Rightarrow>
              do { s \<leftarrow> lock s;
                   refused \<leftarrow> session_check hnd s;
                   case refused of
                     Some r \<Rightarrow> Some (r, unlock s)
                   | None \<Rightarrow>
                     do { (ret, s) \<leftarrow> guarded_call E (vh_fd hnd) (Sv_powerHint level acquire_release) s;
                          Some (if ret = 0 then SPRD_VDSP_RESULT_SUCCESS else SPRD_VDSP_RESULT_FAIL, s) } }
          | _ \<Rightarrow> Some (SPRD_VDSP_RESULT_FAIL, s) }"

section \<open>The table as a set of descriptors\<close>

definition fd_valid :: "server_state \<Rightarrow> nat \<Rightarrow> bool" where
  "fd_valid s i \<longleftrightarrow> bit (g_fdtable s) i"

lemma test_bit_32: "drop_bit i (w :: 32 word) AND 1 \<noteq> 0 \<longleftrightarrow> bit w i"
  by (simp add: and_one_eq bit_iff_odd_drop_bit) (simp add: mod_2_eq_odd)

lemma mask_bit_32: "(w :: 32 word) AND 2 ^ i = 0 \<longleftrightarrow> \<not> bit w i"
  by (rule and_exp_eq_0_iff_not_bit)

lemma free_bits: "bit ((w :: 32 word) XOR 0xffffffff) i \<longleftrightarrow> i < 32 \<and> \<not> bit w i"
proof -
  have "(0xffffffff :: 32 word) = mask 32" by (simp add: mask_eq_exp_minus_1)
  then have eq: "bit (0xffffffff :: 32 word) i \<longleftrightarrow> i < 32" by (simp only: bit_mask_iff) simp
  show ?thesis unfolding bit_xor_iff eq using bit_imp_le_length [of w i] by auto
qed

lemma find_free_some:
  "find_free w i k = Some j \<Longrightarrow> i \<le> j \<and> j < i + k \<and> bit w j \<and> (\<forall>l. i \<le> l \<longrightarrow> l < j \<longrightarrow> \<not> bit w l)"
proof (induction k arbitrary: i)
  case (Suc k)
  show ?case
  proof (cases "bit w i")
    case True
    then show ?thesis using Suc.prems by (simp add: test_bit_32)
  next
    case False
    then have "find_free w (Suc i) k = Some j" using Suc.prems by (simp add: test_bit_32)
    note ih = Suc.IH [OF this]
    have "\<not> bit w l" if "i \<le> l" "l < j" for l
      using ih False that by (cases "l = i") auto
    then show ?thesis using ih by simp
  qed
qed simp

lemma find_free_none: "find_free w i k = None \<Longrightarrow> i \<le> j \<Longrightarrow> j < i + k \<Longrightarrow> \<not> bit w j"
proof (induction k arbitrary: i)
  case (Suc k)
  then show ?case by (cases "i = j") (auto simp: test_bit_32 split: if_splits)
qed simp

text \<open>The contract of a table of descriptors: which descriptor an allocation takes, when it
  fails, and what freeing one does.\<close>

locale fd_table =
  fixes valid :: "'s \<Rightarrow> nat \<Rightarrow> bool"
    and alloc :: "'s \<Rightarrow> nat option \<times> 's"
    and free :: "nat \<Rightarrow> 's \<Rightarrow> 's"
    and cap :: nat
  assumes valid_cap: "valid s i \<Longrightarrow> i < cap"
    and alloc_some: "alloc s = (Some i, t) \<Longrightarrow> i < cap \<and> \<not> valid s i \<and> (\<forall>j<i. valid s j) \<and>
      (\<forall>j. valid t j \<longleftrightarrow> valid s j \<or> j = i)"
    and alloc_none: "alloc s = (None, t) \<Longrightarrow> t = s \<and> (\<forall>j<cap. valid s j)"
    and free_valid: "valid s i \<Longrightarrow> valid (free i s) j \<longleftrightarrow> valid s j \<and> j \<noteq> i"
begin

definition used :: "'s \<Rightarrow> nat set" where
  "used s = {i. valid s i}"

lemma finite_used: "finite (used s)"
  by (rule finite_subset [of _ "{..<cap}"]) (auto simp: used_def valid_cap)

lemma used_alloc: "alloc s = (Some i, t) \<Longrightarrow> used t = insert i (used s) \<and> i \<notin> used s"
  using alloc_some by (auto simp: used_def)

lemma card_alloc: "alloc s = (Some i, t) \<Longrightarrow> card (used t) = Suc (card (used s))"
  using used_alloc [of s i t] finite_used [of s] by simp

lemma used_free: "valid s i \<Longrightarrow> used (free i s) = used s - {i}"
  using free_valid by (auto simp: used_def)

lemma alloc_free: "alloc s = (Some i, t) \<Longrightarrow> used (free i t) = used s"
  using used_alloc [of s i t] used_free [of t i] alloc_some [of s i t] by (auto simp: used_def)

lemma alloc_fails_iff: "fst (alloc s) = None \<longleftrightarrow> card (used s) = cap"
proof
  assume "fst (alloc s) = None"
  then obtain t where "alloc s = (None, t)" by (cases "alloc s") auto
  then have "used s = {..<cap}" using alloc_none valid_cap by (auto simp: used_def)
  then show "card (used s) = cap" by simp
next
  assume c: "card (used s) = cap"
  have "used s \<subseteq> {..<cap}" using valid_cap by (auto simp: used_def)
  then have full: "used s = {..<cap}" using c by (intro card_subset_eq) auto
  show "fst (alloc s) = None"
  proof (cases "alloc s")
    case (Pair r t)
    then show ?thesis
    proof (cases r)
      case (Some i)
      then have "i < cap \<and> \<not> valid s i" using alloc_some [of s i t] Pair by simp
      then show ?thesis using full by (auto simp: used_def)
    qed simp
  qed
qed

end

definition table_alloc :: "server_state \<Rightarrow> nat option \<times> server_state" where
  "table_alloc s = (let (fd, s) = Alloc_Fd s in (if sint fd < 0 then None else Some (unat fd), s))"

definition table_free :: "nat \<Rightarrow> server_state \<Rightarrow> server_state" where
  "table_free i s = (case Free_Fd (of_nat i) s of Some (_, t) \<Rightarrow> t | None \<Rightarrow> s)"

lemma small_fd:
  "i < 32 \<Longrightarrow> 0 \<le> sint (of_nat i :: 32 word)" "i < 32 \<Longrightarrow> unat (of_nat i :: 32 word) = i"
  by (simp_all add: signed_of_nat signed_take_bit_int_eq_self unat_of_nat)

lemma Alloc_Fd_cases:
  obtains (full) "Alloc_Fd s = (- 1, s)" "\<And>j. j < 32 \<Longrightarrow> fd_valid s j"
  | (free) i where "Alloc_Fd s = (of_nat i, s\<lparr>g_fdtable := g_fdtable s OR 2 ^ i\<rparr>)" "i < 32"
      "\<not> fd_valid s i" "\<And>j. j < i \<Longrightarrow> fd_valid s j"
proof (cases "find_free (g_fdtable s XOR 0xffffffff) 0 USE_FD_MAX_NUM")
  case None
  have "fd_valid s j" if "j < 32" for j
    using find_free_none [OF None, of j] that by (simp add: free_bits fd_valid_def USE_FD_MAX_NUM_def)
  then show ?thesis using None full by (simp add: Alloc_Fd_def)
next
  case (Some i)
  then have "i < 32 \<and> \<not> fd_valid s i \<and> (\<forall>j<i. fd_valid s j)"
    using find_free_some [OF Some] by (auto simp: free_bits fd_valid_def USE_FD_MAX_NUM_def)
  then show ?thesis using Some free [of i] by (simp add: Alloc_Fd_def)
qed

lemma fd_valid_or: "i < 32 \<Longrightarrow> fd_valid (s\<lparr>g_fdtable := g_fdtable s OR 2 ^ i\<rparr>) j \<longleftrightarrow> fd_valid s j \<or> j = i"
  by (auto simp: fd_valid_def bit_simps)

lemma fd_valid_less: "fd_valid s i \<Longrightarrow> i < 32"
  using bit_imp_le_length [of "g_fdtable s" i] by (simp add: fd_valid_def)

lemma Free_Fd_valid:
  assumes "fd_valid s (unat fd)" and "0 \<le> sint fd"
  shows "Free_Fd fd s = Some (0, s\<lparr>g_fdtable := g_fdtable s AND NOT (2 ^ unat fd)\<rparr>)"
  using assms fd_valid_less [OF assms(1)] by (simp add: Free_Fd_def mask_bit_32 fd_valid_def)

lemma fd_valid_clear:
  "fd_valid (s\<lparr>g_fdtable := g_fdtable s AND NOT (2 ^ i)\<rparr>) j \<longleftrightarrow> fd_valid s j \<and> j \<noteq> i"
  using fd_valid_less [of s j] by (auto simp: fd_valid_def bit_simps)

interpretation table: fd_table fd_valid table_alloc table_free 32
proof unfold_locales
  fix s :: server_state and i j :: nat and t
  show "i < 32" if "fd_valid s i" by (rule fd_valid_less [OF that])
  show "i < 32 \<and> \<not> fd_valid s i \<and> (\<forall>j<i. fd_valid s j) \<and> (\<forall>j. fd_valid t j \<longleftrightarrow> fd_valid s j \<or> j = i)"
    if "table_alloc s = (Some i, t)"
    using that small_fd by (cases rule: Alloc_Fd_cases [of s]) (auto simp: table_alloc_def fd_valid_or split: if_splits)
  show "t = s \<and> (\<forall>j<32. fd_valid s j)" if "table_alloc s = (None, t)"
    using that small_fd by (cases rule: Alloc_Fd_cases [of s])
      (auto simp: table_alloc_def linorder_not_less [symmetric] split: if_splits)
  show "fd_valid (table_free i s) j \<longleftrightarrow> fd_valid s j \<and> j \<noteq> i" if "fd_valid s i"
  proof -
    have i: "i < 32" by (rule fd_valid_less [OF that])
    have "Free_Fd (of_nat i) s = Some (0, s\<lparr>g_fdtable := g_fdtable s AND NOT (2 ^ i)\<rparr>)"
      using Free_Fd_valid [of s "of_nat i"] that small_fd [OF i] by simp
    then show ?thesis by (simp add: table_free_def fd_valid_clear)
  qed
qed

section \<open>Sums and layouts\<close>

lemma checksum_loop_from:
  "0 < j \<Longrightarrow> checksum_loop m p j k t = t + (\<Sum>i\<in>{j+1..j+k}. ucast (m (p + of_nat i)))"
proof (induction k arbitrary: j t)
  case (Suc k)
  have "{j+1..j + Suc k} = insert (j+1) {Suc j+1..Suc j+k}" by auto
  then show ?case using Suc.IH [of "Suc j"] Suc.prems by (simp add: add.assoc)
qed simp

lemma checksum_loop_sum:
  "0 < k \<Longrightarrow> checksum_loop m p 0 k t = (\<Sum>i\<le>k. ucast (m (p + of_nat i)))"
proof (cases k)
  case (Suc l)
  have "{..k} = insert 0 (insert 1 {1+1..1+l})" using Suc by auto
  then show ?thesis using Suc checksum_loop_from [of 1 m p l] by simp
qed simp

definition hidl_int :: "server_env \<Rightarrow> nat \<Rightarrow> nat \<Rightarrow> nat \<Rightarrow> nat" where
  "hidl_int E num i off = num + i * SPRD_VDSP_HANDLE_INT_NUM E + off - 1"

definition layout_ok :: "server_env \<Rightarrow> bool" where
  "layout_ok E \<longleftrightarrow>
     (let offs = [SPRD_VDSP_HANDLE_PHYADDR_OFFSET E, SPRD_VDSP_HANDLE_SIZE_OFFSET E, SPRD_VDSP_HANDLE_FLAG_OFFSET E]
      in distinct offs \<and> (\<forall>x\<in>set offs. 1 \<le> x \<and> x \<le> SPRD_VDSP_HANDLE_INT_NUM E))"

lemma hidl_int_less:
  assumes "1 \<le> off" "off \<le> SPRD_VDSP_HANDLE_INT_NUM E" "i < num"
  shows "num \<le> hidl_int E num i off" "hidl_int E num i off < num + num * SPRD_VDSP_HANDLE_INT_NUM E"
proof -
  have "(i + 1) * SPRD_VDSP_HANDLE_INT_NUM E \<le> num * SPRD_VDSP_HANDLE_INT_NUM E"
    using assms(3) by (intro mult_le_mono1) simp
  then show "hidl_int E num i off < num + num * SPRD_VDSP_HANDLE_INT_NUM E"
    using assms by (simp add: hidl_int_def algebra_simps)
qed (use assms in \<open>simp add: hidl_int_def\<close>)

lemma hidl_int_inj:
  assumes "1 \<le> a" "a \<le> SPRD_VDSP_HANDLE_INT_NUM E" "1 \<le> b" "b \<le> SPRD_VDSP_HANDLE_INT_NUM E"
  shows "hidl_int E num i a = hidl_int E num j b \<longleftrightarrow> i = j \<and> a = b"
proof -
  define n where "n = SPRD_VDSP_HANDLE_INT_NUM E"
  obtain c d where cd: "a = Suc c" "b = Suc d" using assms by (cases a; cases b) auto
  then have n: "c < n" "d < n" using assms unfolding n_def by auto
  have "hidl_int E num i a = hidl_int E num j b \<longleftrightarrow> c + i * n = d + j * n"
    using cd by (simp add: hidl_int_def n_def add.commute)
  also have "\<dots> \<longleftrightarrow> i = j \<and> c = d"
  proof
    assume eq: "c + i * n = d + j * n"
    have "(c + i * n) div n = i" "(d + j * n) div n = j" using n by simp_all
    then show "i = j \<and> c = d" using eq by simp
  qed simp
  finally show ?thesis using cd by simp
qed

text \<open>What a position of the data holds after the loop: the first \<open>i\<close> parameters are done.\<close>

definition holds_params ::
    "server_env \<Rightarrow> nat \<Rightarrow> nat \<Rightarrow> sprd_vdsp_inout \<Rightarrow> i32 option list \<Rightarrow> bool" where
  "holds_params E num i io data \<longleftrightarrow>
     data ! i = Some (io_fd io) \<and>
     data ! hidl_int E num i (SPRD_VDSP_HANDLE_PHYADDR_OFFSET E) = Some (io_phy_addr io) \<and>
     data ! hidl_int E num i (SPRD_VDSP_HANDLE_SIZE_OFFSET E) = Some (io_size io) \<and>
     data ! hidl_int E num i (SPRD_VDSP_HANDLE_FLAG_OFFSET E) = Some (io_flag io)"

lemma fill_params_holds:
  assumes "layout_ok E" and "length data = num + num * SPRD_VDSP_HANDLE_INT_NUM E"
    and "i + k \<le> num" and "k \<le> length inp"
  shows "\<exists>data'. fill_params E num inp i k data = Some data' \<and> length data' = length data \<and>
    (\<forall>l<k. holds_params E num (i + l) (inp ! l) data') \<and>
    (\<forall>l<i. \<forall>io. holds_params E num l io data \<longrightarrow> holds_params E num l io data')"
  using assms(2-)
proof (induction k arbitrary: i inp data)
  case (Suc k)
  obtain io rest where inp: "inp = io # rest" using Suc.prems by (cases inp) auto
  define p where "p l = hidl_int E num l (SPRD_VDSP_HANDLE_PHYADDR_OFFSET E)" for l
  define z where "z l = hidl_int E num l (SPRD_VDSP_HANDLE_SIZE_OFFSET E)" for l
  define f where "f l = hidl_int E num l (SPRD_VDSP_HANDLE_FLAG_OFFSET E)" for l
  define data' where "data' = data[i := Some (io_fd io), p i := Some (io_phy_addr io),
    z i := Some (io_size io), f i := Some (io_flag io)]"
  have lt: "num \<le> p l \<and> num \<le> z l \<and> num \<le> f l \<and> p l < length data \<and> z l < length data \<and> f l < length data"
    if "l < num" for l
    using assms(1) hidl_int_less [OF _ _ that, of _ E] Suc.prems(1) unfolding p_def z_def f_def
    by (simp add: layout_ok_def)
  have ne: "p l \<noteq> z l' \<and> p l \<noteq> f l' \<and> z l \<noteq> f l' \<and> (p l = p l' \<longleftrightarrow> l = l') \<and> (z l = z l' \<longleftrightarrow> l = l') \<and> (f l = f l' \<longleftrightarrow> l = l')"
    for l l'
    using assms(1) unfolding p_def z_def f_def by (simp add: layout_ok_def hidl_int_inj)
  have i: "i < num" using Suc.prems by simp
  have step: "fill_params E num inp i (Suc k) data = fill_params E num rest (Suc i) k data'"
    using lt [OF i] i unfolding inp data'_def p_def z_def f_def hidl_int_def by (simp add: put_int_def)
  have here: "holds_params E num i io data'"
    using lt [OF i] ne [of i i] i
    by (simp add: holds_params_def p_def [symmetric] z_def [symmetric] f_def [symmetric] data'_def nth_list_update)
  have old: "holds_params E num l w data'" if "l < i" "holds_params E num l w data" for l w
  proof -
    have l: "l < num" using that i by simp
    show ?thesis
      using that lt [OF l] lt [OF i] ne [of l i] ne [of i l] i l
      by (simp add: holds_params_def p_def [symmetric] z_def [symmetric] f_def [symmetric] data'_def nth_list_update)
  qed
  have len: "length data' = length data" by (simp add: data'_def)
  obtain data'' where d: "fill_params E num rest (Suc i) k data' = Some data''" "length data'' = length data'"
    "\<And>l. l < k \<Longrightarrow> holds_params E num (Suc i + l) (rest ! l) data''"
    "\<And>l w. l < Suc i \<Longrightarrow> holds_params E num l w data' \<Longrightarrow> holds_params E num l w data''"
    using Suc.IH [of data' "Suc i" rest] Suc.prems len inp by auto
  have "holds_params E num (i + l) (inp ! l) data''" if "l < Suc k" for l
    using that d(3) d(4) [OF _ here] inp by (cases l) auto
  then show ?case using step d len old by auto
qed simp

section \<open>What a command changes\<close>

lemma unlocked_id [simp]: "\<not> gLock s \<Longrightarrow> s\<lparr>gLock := False\<rparr> = s"
  by simp

lemma unlocked_calls [simp]: "\<not> gLock s \<Longrightarrow> s\<lparr>gLock := False, svc_calls := cs\<rparr> = s\<lparr>svc_calls := cs\<rparr>"
  by (cases s) simp

lemma getVdspService_0: "getVdspService E 0 s = (if gLock s then None else Some (gVdspService s, s))"
  by (simp add: getVdspService_def lock_def unlock_def)

lemma session_check_gLock [simp]: "session_check h (s\<lparr>gLock := b\<rparr>) = session_check h s"
  by (simp add: session_check_def Check_GenrationValid_def Check_FdValid_def)

lemma guarded_call_eq:
  assumes "gLock s"
  shows "guarded_call E fd c s = Some (sv_answer E (svc_calls s) c, s\<lparr>gLock := False, svc_calls := svc_calls s @ [c]\<rparr>)"
proof (cases s)
  case (fields a b d e f g h l)
  then show ?thesis
    using assms
    by (cases "unat fd < length l") (simp_all add: guarded_call_def add_work_def lock_def unlock_def svc_def list_update_beyond)
qed

text \<open>The four commands as functions of the session: the answer of the checks, or the answer of
  the service.\<close>

definition outcome :: "i32 \<Rightarrow> sprd_vdsp_result" where
  "outcome ret = (if ret = 0 then SPRD_VDSP_RESULT_SUCCESS else SPRD_VDSP_RESULT_FAIL)"

lemma power_hint_eq:
  assumes "\<not> gLock s"
  shows "sprd_vdsp_power_hint_serv E (Some hnd) level ar s =
    (if \<not> gVdspService s then Some (SPRD_VDSP_RESULT_FAIL, s)
     else do { refused \<leftarrow> session_check hnd s;
               case refused of Some r \<Rightarrow> Some (r, s)
               | None \<Rightarrow> Some (outcome (sv_answer E (svc_calls s) (Sv_powerHint level ar)),
                          s\<lparr>svc_calls := svc_calls s @ [Sv_powerHint level ar]\<rparr>) })"
  using assms
  by (simp add: sprd_vdsp_power_hint_serv_def getVdspService_0 lock_def unlock_def guarded_call_eq outcome_def
    split: Option.bind_split option.splits)

lemma unloadlibrary_eq:
  assumes "\<not> gLock s"
  shows "sprd_vdsp_unloadlibrary_serv E (Some hnd) libname s =
    (if \<not> gVdspService s then Some (SPRD_VDSP_RESULT_FAIL, s)
     else do { refused \<leftarrow> session_check hnd s;
               case refused of Some r \<Rightarrow> Some (r, s)
               | None \<Rightarrow> Some (outcome (sv_answer E (svc_calls s) (Sv_unload libname)),
                          s\<lparr>svc_calls := svc_calls s @ [Sv_unload libname]\<rparr>) })"
  using assms
  by (simp add: sprd_vdsp_unloadlibrary_serv_def getVdspService_0 lock_def unlock_def guarded_call_eq outcome_def
    split: Option.bind_split option.splits)

text \<open>A command leaves the session as it found it: the same connection, table and counters, the
  lock free, every handle it created deleted.\<close>

definition session_kept :: "server_state \<Rightarrow> server_state \<Rightarrow> bool" where
  "session_kept s t \<longleftrightarrow> (\<exists>cs. t = s\<lparr>svc_calls := cs\<rparr>)"

definition handles :: "native_handle option \<Rightarrow> nat" where
  "handles h = (case h of None \<Rightarrow> 0 | Some _ \<Rightarrow> 1)"

text \<open>How far a command is: some handles more than at the start, the lock as given.\<close>

definition midway :: "server_state \<Rightarrow> nat \<Rightarrow> bool \<Rightarrow> server_state \<Rightarrow> bool" where
  "midway s k b t \<longleftrightarrow> (\<exists>cs. t = s\<lparr>gLock := b, live_handles := live_handles s + k, svc_calls := cs\<rparr>)"

lemma handles_after_calls [simp]:
  "s\<lparr>svc_calls := cs, live_handles := n\<rparr> = s\<lparr>live_handles := n, svc_calls := cs\<rparr>"
  "s\<lparr>live_handles := n, gLock := b\<rparr> = s\<lparr>gLock := b, live_handles := n\<rparr>"
  "s\<lparr>svc_calls := cs, gLock := b\<rparr> = s\<lparr>gLock := b, svc_calls := cs\<rparr>"
  by (cases s; simp)+

lemma midway_kept: "\<not> gLock s \<Longrightarrow> midway s 0 False t \<Longrightarrow> session_kept s t"
  by (cases s) (auto simp: midway_def session_kept_def)

lemma midway_unlock: "midway s k True t \<Longrightarrow> midway s k False (unlock t)"
  by (auto simp: midway_def unlock_def)

lemma midway_svc: "midway s k b t \<Longrightarrow> svc E c t = (a, u) \<Longrightarrow> midway s k b u"
  by (auto simp: midway_def svc_def)

lemma midway_delete: "midway s k b t \<Longrightarrow> handles h \<le> k \<Longrightarrow> midway s (k - handles h) b (native_handle_delete h t)"
  by (cases h) (auto simp: midway_def handles_def native_handle_delete_def)

lemma midway_create:
  assumes "create_hidl_params E inp n t = Some (ret, h, u)" and "midway s k b t"
  shows "midway s (k + handles h) b u" "ret \<noteq> 0 \<Longrightarrow> h = None"
  using assms
  by (auto simp: create_hidl_params_def native_handle_create_def handles_def midway_def svc_def Let_def
      split: if_splits option.splits Option.bind_splits prod.splits)

lemma midway_optional:
  assumes "optional_params E x t = Some (ret, h, u)" and "midway s k b t"
  shows "midway s (k + handles h) b u" "ret \<noteq> 0 \<Longrightarrow> h = None"
  using assms by (auto simp: optional_params_def handles_def split: option.splits dest: midway_create)

lemma midway_guarded:
  "guarded_call E fd c t = Some (ret, u) \<Longrightarrow> midway s k True t \<Longrightarrow> midway s k False u"
  by (auto simp: midway_def guarded_call_eq)

lemma midway_print:
  "print_checksum_result E m bs n t = Some (rs, u) \<Longrightarrow> midway s k b t \<Longrightarrow> midway s k b u"
  by (auto simp: print_checksum_result_def midway_def svc_def split: option.splits Option.bind_splits if_splits)

abbreviation post :: "('a \<Rightarrow> bool) \<Rightarrow> 'a option \<Rightarrow> bool" where
  "post Q m \<equiv> always m Q"

lemma post_bind: "(\<And>x. m = Some x \<Longrightarrow> post Q (f x)) \<Longrightarrow> post Q (m \<bind> f)"
  by (rule always_readI)

lemma post_Some: "Q x \<Longrightarrow> post Q (Some x)"
  by simp

lemma post_None: "post Q None"
  by simp

lemma post_if: "(b \<Longrightarrow> post Q x) \<Longrightarrow> (\<not> b \<Longrightarrow> post Q y) \<Longrightarrow> post Q (if b then x else y)"
  by simp

lemma post_option:
  "(a = None \<Longrightarrow> post Q x) \<Longrightarrow> (\<And>v. a = Some v \<Longrightarrow> post Q (f v)) \<Longrightarrow>
     post Q (case a of None \<Rightarrow> x | Some v \<Rightarrow> f v)"
  by (cases a) auto

lemma post_pair: "(\<And>x y. p = (x, y) \<Longrightarrow> post Q (f x y)) \<Longrightarrow> post Q (case p of (x, y) \<Rightarrow> f x y)"
  by (cases p) auto

lemma post_bool: "(b \<Longrightarrow> post Q x) \<Longrightarrow> (\<not> b \<Longrightarrow> post Q y) \<Longrightarrow> post Q (case b of True \<Rightarrow> x | False \<Rightarrow> y)"
  by (cases b) auto

lemmas post_rules = post_bind post_Some post_None post_if post_option post_pair post_bool

lemma connection_kept: "getVdspService E 0 s = Some (cs, t) \<Longrightarrow> t = s"
  by (simp add: getVdspService_0 split: if_splits)

lemma midway_lock: "lock s = Some t \<Longrightarrow> midway s 0 True t"
  by (cases s) (auto simp: lock_def midway_def split: if_splits)

lemma session_kept_refl: "session_kept s s"
  by (auto simp: session_kept_def intro: exI [of _ "svc_calls s"])

lemma midway_buffers:
  assumes "(if n \<noteq> 0 then buffer \<bind> (\<lambda>bs. create_hidl_params E bs n t) else Some (0, None, t)) = Some (ret, h, u)"
    and "midway s k b t"
  shows "midway s (k + handles h) b u" "ret \<noteq> 0 \<Longrightarrow> h = None"
  using assms by (auto simp: handles_def split: if_splits Option.bind_splits dest: midway_create)

lemma midway_checksums:
  assumes "(if flag then print_checksum_result E m a i t \<bind> (\<lambda>(_, s). print_checksum_result E m b j s \<bind>
    (\<lambda>(_, s). print_checksum_result E m c k s \<bind> (\<lambda>(_, s). Some s))) else Some t) = Some u"
    and "midway s n l t"
  shows "midway s n l u"
  using assms by (auto split: if_splits Option.bind_splits dest!: midway_print)

lemma midway_end:
  "\<not> gLock s \<Longrightarrow> midway s k False t \<Longrightarrow> k = 0 \<Longrightarrow> session_kept s t"
  using midway_kept by simp

lemma send_cmd_kept:
  assumes free: "\<not> gLock s"
  shows "post (\<lambda>(r, t). session_kept s t) (sprd_vdsp_send_cmd_serv E m hnd nsid inp out buffer bufnum priority s)"
  unfolding sprd_vdsp_send_cmd_serv_def Let_def
proof (intro post_rules, goal_cases)
  case 1 then show ?case by (auto dest!: connection_kept simp: session_kept_refl)
next
  case (2 x cs sa a b h l z o1 ret y hi t1)
  then have "midway s 0 True l" by (auto dest!: connection_kept midway_lock)
  then have "midway s (0 + handles hi) True t1" "hi = None" using 2 midway_optional [of E inp l ret hi t1 s 0] by auto
  then show ?case using midway_end [OF free midway_unlock] by (simp add: handles_def)
next
  case (3 x cs sa a b h l z o1 ret y hi t1 o2 ret2 y2 ho t2)
  then have "midway s 0 True l" by (auto dest!: connection_kept midway_lock)
  then have "midway s (handles hi) True t1" using 3 midway_optional(1) [of E inp l ret hi t1 s 0] by auto
  then have "midway s (handles hi) True t2"
    using 3 midway_optional [of E out t1 ret2 ho t2 s "handles hi"] by (auto simp: handles_def)
  then have "midway s 0 True (native_handle_delete hi t2)" using midway_delete [of s "handles hi" True t2 hi] by simp
  then show ?case using midway_end [OF free midway_unlock] by simp
next
  case (4 x cs sa a b h l z o1 ret y hi t1 o2 ret2 y2 ho t2 o3 ret3 y3 hb t3)
  then have "midway s 0 True l" by (auto dest!: connection_kept midway_lock)
  then have "midway s (handles hi) True t1" using 4 midway_optional(1) [of E inp l ret hi t1 s 0] by auto
  then have "midway s (handles hi + handles ho) True t2" using 4 midway_optional(1) [of E out t1 ret2 ho t2] by auto
  then have "midway s (handles hi + handles ho) True t3" using 4 midway_buffers [of bufnum buffer E t2 ret3 hb t3]
    by (fastforce simp: handles_def)
  then have "midway s (handles ho) True (native_handle_delete hi t3)"
    using midway_delete [of s "handles hi + handles ho" True t3 hi] by simp
  then have "midway s 0 True (native_handle_delete ho (native_handle_delete hi t3))"
    using midway_delete [of s "handles ho" True _ ho] by fastforce
  then show ?case using midway_end [OF free midway_unlock] by simp
next
  case (5 x cs sa a b h l z o1 ret y hi t1 o2 ret2 y2 ho t2 o3 ret3 y3 hb t3 t4 o5 ret5 t5)
  then have "midway s 0 True l" by (auto dest!: connection_kept midway_lock)
  then have "midway s (handles hi) True t1" using 5 midway_optional(1) [of E inp l ret hi t1 s 0] by auto
  then have "midway s (handles hi + handles ho) True t2" using 5 midway_optional(1) [of E out t1 ret2 ho t2] by auto
  then have "midway s (handles hi + handles ho + handles hb) True t3"
    using 5 midway_buffers(1) [of bufnum buffer E t2 ret3 hb t3] by auto
  then have "midway s (handles hi + handles ho + handles hb) True t4" using 5 midway_checksums by blast
  then have "midway s (handles hi + handles ho + handles hb) False t5" using 5 midway_guarded by blast
  then have "midway s (handles ho + handles hb) False (native_handle_delete hi t5)"
    using midway_delete [of s "handles hi + handles ho + handles hb" False t5 hi] by simp
  then have "midway s (handles hb) False (native_handle_delete ho (native_handle_delete hi t5))"
    using midway_delete [of s "handles ho + handles hb" False _ ho] by fastforce
  then have "midway s 0 False (native_handle_delete hb (native_handle_delete ho (native_handle_delete hi t5)))"
    using midway_delete [of s "handles hb" False _ hb] by fastforce
  then show ?case using midway_end [OF free] by simp
next
  case (6 x cs sa a b h l) then have "midway s 0 True l" by (auto dest!: connection_kept midway_lock)
  then show ?case using midway_end [OF free midway_unlock] by simp
next
  case 7 then show ?case by (auto dest!: connection_kept simp: session_kept_refl)
qed

lemma loadlibrary_kept:
  assumes free: "\<not> gLock s"
  shows "post (\<lambda>(r, t). session_kept s t) (sprd_vdsp_loadlibrary_serv E hnd libname buffer s)"
  unfolding sprd_vdsp_loadlibrary_serv_def Let_def
proof (intro post_rules, goal_cases)
  case 1 then show ?case by (auto dest!: connection_kept simp: session_kept_refl)
next
  case (2 x cs sa a b h l z o1 ret y hb t1)
  then have "midway s 0 True l" by (auto dest!: connection_kept midway_lock)
  then have "midway s (0 + handles hb) True t1" "hb = None" using 2 midway_create [of E buffer 1 l ret hb t1 s 0] by auto
  then show ?case using midway_end [OF free midway_unlock] by (simp add: handles_def)
next
  case (3 x cs sa a b h l z o1 ret y hb t1 o2 ret2 t2)
  then have "midway s 0 True l" by (auto dest!: connection_kept midway_lock)
  then have "midway s (handles hb) True t1" using 3 midway_create(1) [of E buffer 1 l ret hb t1 s 0] by auto
  then have "midway s (handles hb) False t2" using 3 midway_guarded by blast
  then have "midway s 0 False (native_handle_delete hb t2)" using midway_delete [of s "handles hb" False t2 hb] by simp
  then show ?case using midway_end [OF free] by simp
next
  case (4 x cs sa a b h l) then have "midway s 0 True l" by (auto dest!: connection_kept midway_lock)
  then show ?case using midway_end [OF free midway_unlock] by simp
next
  case 5 then show ?case by (auto dest!: connection_kept simp: session_kept_refl)
qed

section \<open>When a command returns\<close>

abbreviation defined :: "'a option \<Rightarrow> bool" where
  "defined m \<equiv> returns m (\<lambda>_. True)"

lemma defined_def: "defined m \<longleftrightarrow> m \<noteq> None"
  by (auto simp: returns_iff)

lemma defined_bind: "defined m \<Longrightarrow> (\<And>x. m = Some x \<Longrightarrow> defined (f x)) \<Longrightarrow> defined (m \<bind> f)"
  by (cases m) (auto simp: defined_def)

lemma defined_Some: "defined (Some x)"
  by (simp add: defined_def)

lemma defined_if: "(b \<Longrightarrow> defined x) \<Longrightarrow> (\<not> b \<Longrightarrow> defined y) \<Longrightarrow> defined (if b then x else y)"
  by simp

lemma defined_option:
  "(a = None \<Longrightarrow> defined x) \<Longrightarrow> (\<And>v. a = Some v \<Longrightarrow> defined (f v)) \<Longrightarrow>
     defined (case a of None \<Rightarrow> x | Some v \<Rightarrow> f v)"
  by (cases a) auto

lemma defined_pair: "(\<And>x y. p = (x, y) \<Longrightarrow> defined (f x y)) \<Longrightarrow> defined (case p of (x, y) \<Rightarrow> f x y)"
  by (cases p) auto

lemma defined_bool: "(b \<Longrightarrow> defined x) \<Longrightarrow> (\<not> b \<Longrightarrow> defined y) \<Longrightarrow> defined (case b of True \<Rightarrow> x | False \<Rightarrow> y)"
  by (cases b) auto

lemmas defined_rules = defined_bind defined_Some defined_if defined_option defined_pair defined_bool

lemma create_defined:
  assumes "layout_ok E" and "unat n \<le> length inp"
  shows "defined (create_hidl_params E inp n s)"
proof -
  obtain data where "fill_params E (unat n) inp 0 (unat n)
      (replicate (unat n + unat n * SPRD_VDSP_HANDLE_INT_NUM E) None) = Some data"
    using fill_params_holds [OF assms(1), of "replicate (unat n + unat n * SPRD_VDSP_HANDLE_INT_NUM E) None" "unat n" 0 "unat n" inp]
      assms(2) by auto
  then show ?thesis by (simp add: create_hidl_params_def native_handle_create_def svc_def defined_def)
qed

lemma optional_defined: "layout_ok E \<Longrightarrow> defined (optional_params E x s)"
  using create_defined [of E 1] by (auto simp: optional_params_def defined_def split: option.splits)

lemma checksum_results_defined: "k \<le> length buffer \<Longrightarrow> defined (checksum_results E m buffer k t)"
proof (induction k arbitrary: buffer t)
  case (Suc k)
  then show ?case by (cases buffer) (auto simp: Let_def intro: defined_bind defined_Some)
qed (simp add: defined_def)

lemma print_defined:
  assumes "\<And>cs n. sv_answer E cs (Sv_malloc n) \<noteq> 0" and "\<And>bs. buffer = Some bs \<Longrightarrow> unat num \<le> length bs"
  shows "defined (print_checksum_result E m buffer num s)"
proof (cases buffer)
  case (Some bs)
  then have "defined (checksum_results E m bs (unat num) 0)" using assms(2) by (intro checksum_results_defined)
  then show ?thesis using assms(1) Some by (auto simp: print_checksum_result_def svc_def defined_def)
qed (simp add: print_checksum_result_def)

lemma session_check_defined: "sint (vh_fd h) < 0 \<or> unat (vh_fd h) < 32 \<Longrightarrow> defined (session_check h s)"
  by (auto simp: session_check_def Check_FdValid_def defined_def)

lemma guarded_defined: "gLock s \<Longrightarrow> defined (guarded_call E fd c s)"
  by (simp add: guarded_call_eq defined_def)

lemma midway_locked: "midway s k True t \<Longrightarrow> gLock t"
  by (auto simp: midway_def)

text \<open>The assumptions under which no command runs into undefined behaviour: the descriptor is small
  enough to be shifted by, the parameter list is as long as announced, the layout constants of
  VdspService.h are consistent and malloc succeeds.\<close>

definition call_ok :: "server_env \<Rightarrow> vdsp_handle option \<Rightarrow> sprd_vdsp_inout list option \<Rightarrow> u32 \<Rightarrow> bool" where
  "call_ok E hnd buffer n \<longleftrightarrow> layout_ok E \<and> (\<forall>cs k. sv_answer E cs (Sv_malloc k) \<noteq> 0) \<and>
     (\<forall>h. hnd = Some h \<longrightarrow> sint (vh_fd h) < 0 \<or> unat (vh_fd h) < 32) \<and>
     (case buffer of None \<Rightarrow> n = 0 | Some bs \<Rightarrow> unat n \<le> length bs)"

lemma send_cmd_defined:
  assumes free: "\<not> gLock s" and ok: "call_ok E hnd buffer bufnum"
  shows "defined (sprd_vdsp_send_cmd_serv E m hnd nsid inp out buffer bufnum priority s)"
  unfolding sprd_vdsp_send_cmd_serv_def Let_def
proof (intro defined_rules, goal_cases)
  case 1 then show ?case using free by (simp add: getVdspService_0)
next
  case 2 then show ?case using free by (auto simp: lock_def dest!: connection_kept)
next
  case 3 then show ?case using ok by (auto simp: call_ok_def intro: session_check_defined)
next
  case 4 then show ?case using ok by (auto simp: call_ok_def intro: optional_defined)
next
  case 5 then show ?case using ok by (auto simp: call_ok_def intro: optional_defined)
next
  case 6 then show ?case using ok by (auto simp: call_ok_def defined_def split: option.splits)
next
  case 7 then show ?case using ok by (auto simp: call_ok_def intro: create_defined split: option.splits)
next
  case 8 then show ?case using ok by (auto simp: call_ok_def intro!: print_defined split: option.splits)
next
  case 9 then show ?case using ok by (auto simp: call_ok_def intro!: print_defined split: option.splits)
next
  case 10 then show ?case using ok by (auto simp: call_ok_def intro!: print_defined split: option.splits)
next
  case (11 x cs sa a b h l z o1 ret y hi t1 o2 ret2 y2 ho t2 o3 ret3 y3 hb t3 t4)
  then have "midway s 0 True l" by (auto dest!: connection_kept midway_lock)
  then have "midway s (handles hi) True t1" using 11 midway_optional(1) [of E inp l ret hi t1 s 0] by auto
  then have "midway s (handles hi + handles ho) True t2" using 11 midway_optional(1) [of E out t1 ret2 ho t2] by auto
  then have "midway s (handles hi + handles ho + handles hb) True t3"
    using 11 midway_buffers(1) [of bufnum buffer E t2 ret3 hb t3] by auto
  then have "midway s (handles hi + handles ho + handles hb) True t4" using 11 midway_checksums by blast
  then show ?case by (intro guarded_defined midway_locked)
qed

lemma loadlibrary_defined:
  assumes free: "\<not> gLock s" and ok: "call_ok E hnd (Some buffer) 1"
  shows "defined (sprd_vdsp_loadlibrary_serv E hnd libname buffer s)"
  unfolding sprd_vdsp_loadlibrary_serv_def Let_def
proof (intro defined_rules, goal_cases)
  case 1 then show ?case using free by (simp add: getVdspService_0)
next
  case 2 then show ?case using free by (auto simp: lock_def dest!: connection_kept)
next
  case 3 then show ?case using ok by (auto simp: call_ok_def intro: session_check_defined)
next
  case 4 then show ?case using ok by (auto simp: call_ok_def intro!: create_defined)
next
  case (5 x cs sa a b h l z o1 ret y hb t1)
  then have "midway s 0 True l" by (auto dest!: connection_kept midway_lock)
  then have "midway s (handles hb) True t1" using 5 midway_create(1) [of E buffer 1 l ret hb t1 s 0] by auto
  then show ?case by (intro guarded_defined midway_locked)
qed

lemma refused_or_called:
  assumes "\<not> gLock s" and "\<And>h. hnd = Some h \<Longrightarrow> sint (vh_fd h) < 0 \<or> unat (vh_fd h) < 32"
  shows "returns (sprd_vdsp_unloadlibrary_serv E hnd libname s) (\<lambda>(r, t). session_kept s t)"
    and "returns (sprd_vdsp_power_hint_serv E hnd level ar s) (\<lambda>(r, t). session_kept s t)"
proof -
  have "returns (sprd_vdsp_unloadlibrary_serv E hnd libname s) (\<lambda>(r, t). session_kept s t) \<and>
    returns (sprd_vdsp_power_hint_serv E hnd level ar s) (\<lambda>(r, t). session_kept s t)"
  proof (cases hnd)
    case None
    then show ?thesis using assms(1) session_kept_refl
      by (simp add: sprd_vdsp_unloadlibrary_serv_def sprd_vdsp_power_hint_serv_def getVdspService_0 split: bool.split)
  next
    case (Some h)
    then obtain z where "session_check h s = Some z"
      using session_check_defined [of h s] assms(2) by (auto simp: defined_def)
    then show ?thesis using Some assms(1) session_kept_refl
      by (cases z) (auto simp: unloadlibrary_eq power_hint_eq session_kept_def)
  qed
  then show "returns (sprd_vdsp_unloadlibrary_serv E hnd libname s) (\<lambda>(r, t). session_kept s t)"
    "returns (sprd_vdsp_power_hint_serv E hnd level ar s) (\<lambda>(r, t). session_kept s t)" by simp_all
qed

lemma returns_post: "defined m \<Longrightarrow> post Q m \<Longrightarrow> returns m Q"
  by (cases m) simp_all

section \<open>Properties\<close>

definition calm_env :: server_env where
  "calm_env = \<lparr>sv_answer = (\<lambda>_ c. case c of Sv_getService \<Rightarrow> 1 | Sv_handle_create _ _ \<Rightarrow> 1 | Sv_malloc _ \<Rightarrow> 1 | _ \<Rightarrow> 0),
     sv_property = (\<lambda>_. ''0''), SPRD_VDSP_HANDLE_INT_NUM = 3, SPRD_VDSP_HANDLE_PHYADDR_OFFSET = 1,
     SPRD_VDSP_HANDLE_SIZE_OFFSET = 2, SPRD_VDSP_HANDLE_FLAG_OFFSET = 3,
     VdspInputOutput_size = io_size, VdspInputOutput_viraddr = io_vir_addr\<rparr>"

definition open_session :: server_state where
  "open_session = server_init\<lparr>gInitFlag := True, gVdspService := True, gOpenedCount := 1, g_fdtable := 1,
     gWorkType := SPRD_VDSP_WORK_NORMAL\<rparr>"

lemma calm_layout: "layout_ok calm_env"
  by (simp add: layout_ok_def calm_env_def)

lemma calm_malloc: "sv_answer calm_env cs (Sv_malloc k) \<noteq> 0"
  by (simp add: calm_env_def)

text \<open>Property C27: every command of the client returns, with its lock free, and leaves the session as it
  found it: the connection, the table of descriptors, the use counts and the open count are the
  same, and every remote handle it created is deleted, on every path.\<close>

theorem commands_keep_session:
  assumes "\<not> gLock s" and "call_ok E hnd buffer bufnum" and "call_ok E hnd (Some lib) 1"
  shows "returns (sprd_vdsp_send_cmd_serv E m hnd nsid inp out buffer bufnum priority s) (\<lambda>(r, t). session_kept s t)
    \<and> returns (sprd_vdsp_loadlibrary_serv E hnd libname lib s) (\<lambda>(r, t). session_kept s t)
    \<and> returns (sprd_vdsp_unloadlibrary_serv E hnd libname s) (\<lambda>(r, t). session_kept s t)
    \<and> returns (sprd_vdsp_power_hint_serv E hnd level ar s) (\<lambda>(r, t). session_kept s t)"
proof -
  have fd: "\<And>h. hnd = Some h \<Longrightarrow> sint (vh_fd h) < 0 \<or> unat (vh_fd h) < 32"
    using assms(2) by (auto simp: call_ok_def)
  show ?thesis
    using returns_post [OF send_cmd_defined [OF assms(1,2)] send_cmd_kept [OF assms(1)]]
      returns_post [OF loadlibrary_defined [OF assms(1,3)] loadlibrary_kept [OF assms(1)]]
      refused_or_called [of s hnd, OF assms(1) fd] by simp
qed

theorem commands_keep_session_witness:
  "returns (sprd_vdsp_send_cmd_serv calm_env (\<lambda>_. 0) (Some \<lparr>vh_fd = 0, vh_generation = 0\<rparr>) [1, 0]
      (Some \<lparr>io_fd = 5, io_vir_addr = 4096, io_phy_addr = 0, io_size = 16, io_flag = 0\<rparr>) None
      (Some []) 0 0 open_session) (\<lambda>(r, t). session_kept open_session t)"
  using commands_keep_session [of open_session calm_env "Some \<lparr>vh_fd = 0, vh_generation = 0\<rparr>" "Some []" 0
      "[\<lparr>io_fd = 5, io_vir_addr = 4096, io_phy_addr = 0, io_size = 16, io_flag = 0\<rparr>]" "\<lambda>_. 0" "[1, 0]"
      "Some \<lparr>io_fd = 5, io_vir_addr = 4096, io_phy_addr = 0, io_size = 16, io_flag = 0\<rparr>" None 0 "[]" 0 0]
  by (simp add: call_ok_def calm_layout calm_malloc open_session_def server_init_def)

text \<open>Property C34: a handle of an earlier generation, one opened before the service died, is refused with
  SPRD_VDSP_RESULT_OLD_GENERATION by every command and by close, and nothing is sent to the
  service. Close releases its lock once more than it took it on this path: it calls unlock and
  its AutoMutex unlocks again.\<close>

theorem old_generation_refused:
  assumes "\<not> gLock s" and "gVdspService s" and "vh_generation hnd \<noteq> gGeneration s"
  shows "sprd_vdsp_send_cmd_serv E m (Some hnd) nsid inp out buffer bufnum priority s = Some (SPRD_VDSP_RESULT_OLD_GENERATION, s)
    \<and> sprd_vdsp_loadlibrary_serv E (Some hnd) libname lib s = Some (SPRD_VDSP_RESULT_OLD_GENERATION, s)
    \<and> sprd_vdsp_unloadlibrary_serv E (Some hnd) libname s = Some (SPRD_VDSP_RESULT_OLD_GENERATION, s)
    \<and> sprd_vdsp_power_hint_serv E (Some hnd) level ar s = Some (SPRD_VDSP_RESULT_OLD_GENERATION, s)
    \<and> sprd_vdsp_close_device_serv E (Some hnd) s
        = Some (SPRD_VDSP_RESULT_OLD_GENERATION, s\<lparr>lock_faults := Suc (lock_faults s)\<rparr>)"
proof -
  have "session_check hnd s = Some (Some SPRD_VDSP_RESULT_OLD_GENERATION)"
    using assms(3) by (simp add: session_check_def Check_GenrationValid_def)
  moreover have "s\<lparr>gLock := False, lock_faults := n\<rparr> = s\<lparr>lock_faults := n\<rparr>" for n
    using assms(1) by (cases s) simp
  ultimately show ?thesis
    using assms by (simp add: unloadlibrary_eq power_hint_eq sprd_vdsp_send_cmd_serv_def sprd_vdsp_loadlibrary_serv_def
        sprd_vdsp_close_device_serv_def close_locked_def Check_GenrationValid_def getVdspService_0 lock_def unlock_def)
qed

theorem old_generation_refused_witness:
  "sprd_vdsp_close_device_serv calm_env (Some \<lparr>vh_fd = 0, vh_generation = 7\<rparr>) open_session
     = Some (SPRD_VDSP_RESULT_OLD_GENERATION, open_session\<lparr>lock_faults := 1\<rparr>)"
  using old_generation_refused [of open_session "\<lparr>vh_fd = 0, vh_generation = 7\<rparr>" calm_env "\<lambda>_. 0" "[]" None None None 0 0 "[]" "[]" 0 0]
  by (simp add: open_session_def server_init_def)

text \<open>Property C30: the table of descriptors behaves as a set of at most 32 numbers: an allocation takes the
  least number that is not in it, fails exactly when all 32 are, and freeing the descriptor again
  restores the table bit by bit.\<close>

theorem descriptor_table:
  "(fst (Alloc_Fd s) = - 1 \<longleftrightarrow> card {i. fd_valid s i} = 32) \<and>
   (fst (Alloc_Fd s) \<noteq> - 1 \<longrightarrow>
      unat (fst (Alloc_Fd s)) = (LEAST i. \<not> fd_valid s i)
      \<and> Check_FdValid (fst (Alloc_Fd s)) (snd (Alloc_Fd s)) = Some 0
      \<and> Free_Fd (fst (Alloc_Fd s)) (snd (Alloc_Fd s)) = Some (0, s))"
proof (intro conjI impI)
  have neg: "(of_nat i :: 32 word) \<noteq> - 1" if "i < 32" for i
    using small_fd(1) [OF that] by auto
  have full: "fst (Alloc_Fd s) = - 1 \<longleftrightarrow> fst (table_alloc s) = None"
    using neg small_fd(1) by (cases rule: Alloc_Fd_cases [of s]) (auto simp: table_alloc_def linorder_not_less [symmetric])
  show "fst (Alloc_Fd s) = - 1 \<longleftrightarrow> card {i. fd_valid s i} = 32"
    using full table.alloc_fails_iff [of s] by (simp add: table.used_def)
next
  assume ok: "fst (Alloc_Fd s) \<noteq> - 1"
  have "unat (fst (Alloc_Fd s)) = (LEAST i. \<not> fd_valid s i)
      \<and> Check_FdValid (fst (Alloc_Fd s)) (snd (Alloc_Fd s)) = Some 0
      \<and> Free_Fd (fst (Alloc_Fd s)) (snd (Alloc_Fd s)) = Some (0, s)"
  proof (cases rule: Alloc_Fd_cases [of s])
    case full
    then show ?thesis using ok by simp
  next
    case (free i)
    let ?t = "s\<lparr>g_fdtable := g_fdtable s OR 2 ^ i\<rparr>"
    have least: "(LEAST i. \<not> fd_valid s i) = i"
      using free by (intro Least_equality) (auto simp: linorder_not_less [symmetric])
    have set: "fd_valid ?t i" using fd_valid_or [OF free(2)] by simp
    have "(g_fdtable s OR 2 ^ i) AND NOT (2 ^ i) = g_fdtable s"
      using free(3) by (intro bit_eqI) (auto simp: bit_simps fd_valid_def)
    then have "Free_Fd (of_nat i) ?t = Some (0, s)"
      using Free_Fd_valid [of ?t "of_nat i"] set small_fd [OF free(2)] by simp
    moreover have "Check_FdValid (of_nat i) ?t = Some 0"
      using set small_fd [OF free(2)] free(2) by (simp add: Check_FdValid_def mask_bit_32 fd_valid_def)
    ultimately show ?thesis using free(1) least small_fd(2) [OF free(2)] by simp
  qed
  then show "unat (fst (Alloc_Fd s)) = (LEAST i. \<not> fd_valid s i)"
    "Check_FdValid (fst (Alloc_Fd s)) (snd (Alloc_Fd s)) = Some 0"
    "Free_Fd (fst (Alloc_Fd s)) (snd (Alloc_Fd s)) = Some (0, s)" by blast+
qed

theorem descriptor_table_witness:
  "fst (Alloc_Fd open_session) = 1 \<and> Free_Fd 1 (snd (Alloc_Fd open_session)) = Some (0, open_session)"
proof -
  have "fst (Alloc_Fd open_session) = 1" by code_simp
  then show ?thesis using descriptor_table [of open_session] by simp
qed

text \<open>A parameter list that was turned into a remote handle can be read back from it: every
  parameter's descriptor stands in the descriptor part at its index, and its address, size and
  flag in the integer part at the offsets of the layout, whatever the values.\<close>

theorem hidl_params_roundtrip:
  assumes "layout_ok E" and "n \<noteq> 0" and "unat n \<le> length inp"
    and "sv_answer E (svc_calls s) (Sv_handle_create (unat n) (unat n * SPRD_VDSP_HANDLE_INT_NUM E)) \<noteq> 0"
  shows "returns (create_hidl_params E inp n s) (\<lambda>(ret, h, t). ret = 0 \<and>
    (\<exists>hd. h = Some hd \<and> nh_numFds hd = unat n \<and> length (nh_data hd) = nh_numFds hd + nh_numInts hd \<and>
      (\<forall>i<unat n. holds_params E (unat n) i (inp ! i) (nh_data hd))))"
proof -
  let ?d = "replicate (unat n + unat n * SPRD_VDSP_HANDLE_INT_NUM E) None"
  obtain data where "fill_params E (unat n) inp 0 (unat n) ?d = Some data" "length data = length ?d"
      "\<forall>l<unat n. holds_params E (unat n) l (inp ! l) data"
    using fill_params_holds [OF assms(1), of ?d "unat n" 0 "unat n" inp] assms(3) by auto
  then show ?thesis using assms(2,4) by (simp add: create_hidl_params_def native_handle_create_def svc_def)
qed

theorem hidl_params_roundtrip_witness:
  "returns (create_hidl_params calm_env [\<lparr>io_fd = 5, io_vir_addr = 0, io_phy_addr = 7, io_size = 16, io_flag = 1\<rparr>,
      \<lparr>io_fd = 6, io_vir_addr = 0, io_phy_addr = 8, io_size = 32, io_flag = 2\<rparr>] 2 server_init)
    (\<lambda>(ret, h, t). ret = 0 \<and> (\<exists>hd. h = Some hd \<and> nh_data hd ! 1 = Some 6 \<and> nh_data hd ! 5 = Some 8))"
  using hidl_params_roundtrip [of calm_env 2 "[\<lparr>io_fd = 5, io_vir_addr = 0, io_phy_addr = 7, io_size = 16, io_flag = 1\<rparr>,
      \<lparr>io_fd = 6, io_vir_addr = 0, io_phy_addr = 8, io_size = 32, io_flag = 2\<rparr>]" server_init]
  by (rule returns_mono)
    (auto simp: calm_layout calm_env_def layout_ok_def holds_params_def hidl_int_def dest!: spec [of _ "1::nat"])

text \<open>The checksum of a buffer of \<open>size > 0\<close> bytes is the sum of the \<open>size + 1\<close> bytes from its
  address on, modulo 2^64: the loop adds byte \<open>j + 1\<close> in round \<open>j\<close>, so it reads one byte past the
  buffer.\<close>

theorem checksum_reads_past_end:
  assumes "VdspInputOutput_size E io \<noteq> 0"
    and "sv_answer E (svc_calls s) (Sv_malloc 8) \<noteq> 0"
  shows "returns (print_checksum_result E m (Some [io]) 1 s) (\<lambda>(rs, t).
    rs = [\<Sum>i\<le>unat (VdspInputOutput_size E io). ucast (m (VdspInputOutput_viraddr E io + of_nat i))])"
proof -
  have "0 < unat (VdspInputOutput_size E io)" using assms(1) by (simp add: unat_gt_0)
  then show ?thesis using assms(2) by (simp add: print_checksum_result_def svc_def checksum_loop_sum numeral_2_eq_2)
qed

theorem checksum_reads_past_end_witness:
  "returns (print_checksum_result calm_env (\<lambda>_. 7)
      (Some [\<lparr>io_fd = 5, io_vir_addr = 10, io_phy_addr = 0, io_size = 2, io_flag = 0\<rparr>]) 1 server_init)
     (\<lambda>(rs, t). rs = [21])"
  using checksum_reads_past_end [of calm_env "\<lparr>io_fd = 5, io_vir_addr = 10, io_phy_addr = 0, io_size = 2, io_flag = 0\<rparr>"
      server_init "\<lambda>_. 7"]
  by (simp add: calm_env_def)

end
