(* ===== verification/Vdsp_Sections.thy ===== *)
theory Vdsp_Sections
  imports Vdsp_Server
begin

text \<open>
  The calls of the service client cut at its lock: the sections between taking and freeing
  \<open>gLock\<close>, which other threads cannot split, with the remote call of a command between two of
  them. A call run alone is its sections in sequence.
\<close>

datatype service_cmd =
    Cmd_send "byte list" "sprd_vdsp_inout option" "sprd_vdsp_inout option" "sprd_vdsp_inout list option" u32 u32
  | Cmd_load "byte list" "sprd_vdsp_inout list"
  | Cmd_unload "byte list"
  | Cmd_hint i32 u32

text \<open>What a command does between its checks and counting itself in: it makes the remote handles of
  its parameters, in the order in which they are deleted again. \<^const>\<open>None\<close> inside is a command that gives up.\<close>

fun prepare ::
    "server_env \<Rightarrow> (ptr \<Rightarrow> byte) \<Rightarrow> service_cmd \<Rightarrow> server_state
       \<Rightarrow> ((scall \<times> native_handle option list) option \<times> server_state) option" where
  "prepare E m (Cmd_send nsid inp out buffer bufnum priority) s =
     do { (ret, handle_input, s) \<leftarrow> optional_params E inp s;
          if ret \<noteq> 0 then Some (None, s)
          else do {
            (ret, handle_output, s) \<leftarrow> optional_params E out s;
            if ret \<noteq> 0 then Some (None, native_handle_delete handle_input s)
            else do {
              (ret, handle_buffers, s) \<leftarrow>
                (if bufnum \<noteq> 0 then do { bs \<leftarrow> buffer; create_hidl_params E bs bufnum s } else Some (0, None, s));
              if ret \<noteq> 0
              then Some (None, native_handle_delete handle_output (native_handle_delete handle_input s))
              else do {
                s \<leftarrow> (if check_sum_flag E s \<noteq> 0
                      then do { (_, s) \<leftarrow> print_checksum_result E m buffer bufnum s;
                                (_, s) \<leftarrow> print_checksum_result E m (map_option (\<lambda>io. [io]) inp) 1 s;
                                (_, s) \<leftarrow> print_checksum_result E m (map_option (\<lambda>io. [io]) out) 1 s;
                                Some s }
                      else Some s);
                Some (Some (Sv_send nsid handle_input handle_output handle_buffers bufnum priority,
                            [handle_input, handle_output, handle_buffers]), s) } } } }"
| "prepare E m (Cmd_load libname buffer) s =
     do { (ret, handle_buffer, s) \<leftarrow> create_hidl_params E buffer 1 s;
          if ret \<noteq> 0 then Some (None, s) else Some (Some (Sv_load libname handle_buffer, [handle_buffer]), s) }"
| "prepare E m (Cmd_unload libname) s = Some (Some (Sv_unload libname, []), s)"
| "prepare E m (Cmd_hint level acquire_release) s = Some (Some (Sv_powerHint level acquire_release, []), s)"

text \<open>The first section: a refusal, or the call to make and the handles to delete after it.\<close>

definition enter_command ::
    "server_env \<Rightarrow> (ptr \<Rightarrow> byte) \<Rightarrow> vdsp_handle \<Rightarrow> service_cmd \<Rightarrow> server_state
       \<Rightarrow> ((sprd_vdsp_result + scall \<times> native_handle option list) \<times> server_state) option" where
  "enter_command E m hnd cmd s =
     do { s \<leftarrow> lock s;
          refused \<leftarrow> session_check hnd s;
          case refused of Some r \<Rightarrow> Some (Inl r, unlock s)
          | None \<Rightarrow>
            do { (p, s) \<leftarrow> prepare E m cmd s;
                 case p of None \<Rightarrow> Some (Inl SPRD_VDSP_RESULT_FAIL, unlock s)
                 | Some p \<Rightarrow> Some (Inr p, unlock (add_work 1 (vh_fd hnd) s)) } }"

definition delete_handles :: "native_handle option list \<Rightarrow> server_state \<Rightarrow> server_state" where
  "delete_handles hs s = fold native_handle_delete hs s"

text \<open>The second section, after the service has answered.\<close>

definition leave_command :: "i32 \<Rightarrow> native_handle option list \<Rightarrow> server_state \<Rightarrow> server_state option" where
  "leave_command fd hs s = do { s \<leftarrow> lock s; Some (delete_handles hs (unlock (add_work (- 1) fd s))) }"

definition run_command ::
    "server_env \<Rightarrow> (ptr \<Rightarrow> byte) \<Rightarrow> vdsp_handle option \<Rightarrow> service_cmd \<Rightarrow> server_state
       \<Rightarrow> (sprd_vdsp_result \<times> server_state) option" where
  "run_command E m handle cmd s =
     do { (cs, s) \<leftarrow> getVdspService E 0 s;
          case (cs, handle) of
            (True, Some hnd) \<Rightarrow>
              do { (r, s) \<leftarrow> enter_command E m hnd cmd s;
                   case r of Inl r \<Rightarrow> Some (r, s)
                   | Inr (c, hs) \<Rightarrow>
                       (let (ret, s) = svc E c s
                        in do { s \<leftarrow> leave_command (vh_fd hnd) hs s; Some (outcome ret, s) }) }
          | _ \<Rightarrow> Some (SPRD_VDSP_RESULT_FAIL, s) }"

text \<open>Opening and closing: the section under the lock, and the undo of a failed open after it.\<close>

definition open_section ::
    "server_env \<Rightarrow> sprd_vdsp_worktype \<Rightarrow> server_state \<Rightarrow> (bool \<times> i32 \<times> vdsp_handle \<times> server_state) option" where
  "open_section E type s =
     do { s \<leftarrow> lock s;
          (opened, fd, handle, s) \<leftarrow> open_locked E type s;
          Some (opened, fd, handle, unlock s) }"

definition undo_open :: "i32 \<Rightarrow> server_state \<Rightarrow> server_state option" where
  "undo_open fd s = (if sint fd > 0 then do { (_, s) \<leftarrow> Free_Fd fd s; Some s } else Some s)"

definition close_section ::
    "server_env \<Rightarrow> vdsp_handle \<Rightarrow> server_state \<Rightarrow> (sprd_vdsp_result \<times> server_state) option" where
  "close_section E hnd s =
     do { s \<leftarrow> lock s; (ret, s) \<leftarrow> close_locked E hnd s; Some (ret, unlock s) }"

section \<open>A call run alone is its sections in sequence\<close>

lemma bind_if: "Option.bind (if b then x else y) f = (if b then Option.bind x f else Option.bind y f)"
  by simp

lemma bind_option:
  "Option.bind (case a of None \<Rightarrow> x | Some v \<Rightarrow> g v) f = (case a of None \<Rightarrow> Option.bind x f | Some v \<Rightarrow> Option.bind (g v) f)"
  by (cases a) simp_all

lemma bind_pair: "Option.bind (case p of (x, y) \<Rightarrow> g x y) f = (case p of (x, y) \<Rightarrow> Option.bind (g x y) f)"
  by (cases p) simp

lemma bind_cong: "(\<And>x. m = Some x \<Longrightarrow> f x = g x) \<Longrightarrow> Option.bind m f = Option.bind m g"
  by (cases m) simp_all

lemmas section_defs = run_command_def enter_command_def leave_command_def guarded_call_def delete_handles_def
  outcome_def svc_def lock_def

lemma unload_sections: "sprd_vdsp_unloadlibrary_serv E handle libname s = run_command E m handle (Cmd_unload libname) s"
  unfolding sprd_vdsp_unloadlibrary_serv_def run_command_def
  by (rule bind_cong) (auto simp: section_defs Let_def bind_option unlock_def split: option.splits Option.bind_splits bool.splits)

lemma hint_sections: "sprd_vdsp_power_hint_serv E handle l a s = run_command E m handle (Cmd_hint l a) s"
  unfolding sprd_vdsp_power_hint_serv_def run_command_def
  by (rule bind_cong) (auto simp: section_defs Let_def bind_option unlock_def split: option.splits Option.bind_splits bool.splits)

lemma load_sections: "sprd_vdsp_loadlibrary_serv E handle libname bs s = run_command E m handle (Cmd_load libname bs) s"
  unfolding sprd_vdsp_loadlibrary_serv_def run_command_def
  by (rule bind_cong) (auto simp: section_defs Let_def bind_option bind_if bind_pair unlock_def split: option.splits Option.bind_splits bool.splits)

lemma send_sections:
  "sprd_vdsp_send_cmd_serv E m handle nsid inp out bs n pr s = run_command E m handle (Cmd_send nsid inp out bs n pr) s"
  unfolding sprd_vdsp_send_cmd_serv_def run_command_def enter_command_def prepare.simps guarded_call_def leave_command_def
    delete_handles_def svc_def
  by (rule bind_cong) (auto simp: Let_def bind_option bind_if bind_pair outcome_def lock_def unlock_def
    split: option.splits bool.splits intro!: bind_cong)

lemma open_sections:
  "sprd_vdsp_open_device_serv E type given s =
     do { (cs, s) \<leftarrow> getVdspService E 1 s;
          if \<not> given \<or> \<not> cs then Some (SPRD_VDSP_RESULT_FAIL, None, s)
          else do { (opened, fd, handle, s) \<leftarrow> open_section E type s;
                    if opened then Some (SPRD_VDSP_RESULT_SUCCESS, Some handle, s)
                    else do { s \<leftarrow> undo_open fd s; Some (SPRD_VDSP_RESULT_FAIL, Some handle, s) } } }"
  unfolding sprd_vdsp_open_device_serv_def open_section_def undo_open_def
  by (rule bind_cong) (auto simp: Let_def bind_if bind_pair split: prod.splits Option.bind_splits)

lemma close_sections:
  "sprd_vdsp_close_device_serv E handle s =
     (case handle of None \<Rightarrow> Some (SPRD_VDSP_RESULT_FAIL, s)
      | Some hnd \<Rightarrow> do { (cs, s) \<leftarrow> getVdspService E 0 s;
                         if cs then close_section E hnd s else Some (SPRD_VDSP_RESULT_FAIL, s) })"
  unfolding sprd_vdsp_close_device_serv_def close_section_def by simp


end
