(* ===== verification/Vdsp_Sessions.thy ===== *)
theory Vdsp_Sessions
  imports Vdsp_Sections
begin

text \<open>
  Threads that call the service client at the same time. Each thread is between two of the
  sections of its call (\<open>thread_pc\<close>); a step is one section of one thread, one remote call, or
  the death of the service. The service and the moment of its death are arbitrary.
\<close>

section \<open>Threads\<close>

datatype thread_pc =
    Idle
  | Opening sprd_vdsp_worktype
  | Open_failed i32
  | Closing vdsp_handle
  | Entering vdsp_handle service_cmd
  | Calling i32 scall "native_handle option list"
  | Leaving i32 "native_handle option list"

type_synonym sessions = "server_state \<times> (nat \<Rightarrow> thread_pc)"

inductive session_step :: "server_env \<Rightarrow> (ptr \<Rightarrow> byte) \<Rightarrow> sessions \<Rightarrow> sessions \<Rightarrow> bool" for E m where
  begin_open: "pc i = Idle \<Longrightarrow> getVdspService E 1 s = Some (cs, t) \<Longrightarrow>
    session_step E m (s, pc) (t, pc(i := if cs then Opening type else Idle))"
| open_device: "pc i = Opening type \<Longrightarrow> open_section E type s = Some (opened, fd, handle, t) \<Longrightarrow>
    session_step E m (s, pc) (t, pc(i := if opened then Idle else Open_failed fd))"
| undo: "pc i = Open_failed fd \<Longrightarrow> undo_open fd s = Some t \<Longrightarrow> session_step E m (s, pc) (t, pc(i := Idle))"
| begin_close: "pc i = Idle \<Longrightarrow> getVdspService E 0 s = Some (cs, t) \<Longrightarrow>
    session_step E m (s, pc) (t, pc(i := if cs then Closing hnd else Idle))"
| close_device: "pc i = Closing hnd \<Longrightarrow> close_section E hnd s = Some (r, t) \<Longrightarrow>
    session_step E m (s, pc) (t, pc(i := Idle))"
| begin_command: "pc i = Idle \<Longrightarrow> getVdspService E 0 s = Some (cs, t) \<Longrightarrow>
    session_step E m (s, pc) (t, pc(i := if cs then Entering hnd cmd else Idle))"
| enter: "pc i = Entering hnd cmd \<Longrightarrow> enter_command E m hnd cmd s = Some (r, t) \<Longrightarrow>
    session_step E m (s, pc) (t, pc(i := case r of Inl _ \<Rightarrow> Idle | Inr (c, hs) \<Rightarrow> Calling (vh_fd hnd) c hs))"
| remote: "pc i = Calling fd c hs \<Longrightarrow> svc E c s = (ret, t) \<Longrightarrow>
    session_step E m (s, pc) (t, pc(i := Leaving fd hs))"
| leave: "pc i = Leaving fd hs \<Longrightarrow> leave_command fd hs s = Some t \<Longrightarrow>
    session_step E m (s, pc) (t, pc(i := Idle))"
| service_dies: "serviceDied s = Some t \<Longrightarrow> session_step E m (s, pc) (t, pc)"

definition sessions_start :: "sessions \<Rightarrow> bool" where
  "sessions_start p \<longleftrightarrow> p = (server_init, \<lambda>_. Idle)"

abbreviation sessions_reachable :: "server_env \<Rightarrow> (ptr \<Rightarrow> byte) \<Rightarrow> server_state \<Rightarrow> (nat \<Rightarrow> thread_pc) \<Rightarrow> bool" where
  "sessions_reachable E m s pc \<equiv> reach sessions_start (session_step E m) (s, pc)"

section \<open>What is counted\<close>

text \<open>A thread is counted from the section that counts it in to the one that counts it out; it owns
  the remote handles of its call.\<close>

fun counted :: "thread_pc \<Rightarrow> nat" where
  "counted (Calling fd c hs) = 1"
| "counted (Leaving fd hs) = 1"
| "counted _ = 0"

fun owned :: "thread_pc \<Rightarrow> nat" where
  "owned (Calling fd c hs) = sum_list (map handles hs)"
| "owned (Leaving fd hs) = sum_list (map handles hs)"
| "owned _ = 0"

definition busy :: "(nat \<Rightarrow> thread_pc) \<Rightarrow> nat set" where
  "busy pc = {i. pc i \<noteq> Idle}"

definition total :: "(thread_pc \<Rightarrow> nat) \<Rightarrow> (nat \<Rightarrow> thread_pc) \<Rightarrow> nat" where
  "total w pc = (\<Sum>i\<in>busy pc. w (pc i))"

definition sessions_inv :: "sessions \<Rightarrow> bool" where
  "sessions_inv p \<longleftrightarrow> (case p of (s, pc) \<Rightarrow> finite (busy pc) \<and> \<not> gLock s \<and> (gInitFlag s \<longrightarrow> gVdspService s) \<and>
     length (fd_working s) = USE_FD_MAX_NUM \<and> gWorking s = of_nat (total counted pc) \<and> live_handles s = total owned pc)"

lemma busy_upd: "finite (busy pc) \<Longrightarrow> finite (busy (pc(i := x)))"
  by (rule finite_subset [of _ "insert i (busy pc)"]) (auto simp: busy_def)

lemma total_over:
  assumes "finite A" and "busy pc \<subseteq> A" and "w Idle = 0"
  shows "total w pc = (\<Sum>i\<in>A. w (pc i))"
  unfolding total_def by (rule sum.mono_neutral_left) (use assms in \<open>auto simp: busy_def\<close>)

lemma total_upd:
  assumes "finite (busy pc)" and "w Idle = 0"
  shows "total w (pc(i := x)) + w (pc i) = total w pc + w x"
proof -
  let ?A = "insert i (busy pc)"
  have A: "finite ?A" "busy pc \<subseteq> ?A" "busy (pc(i := x)) \<subseteq> ?A" using assms(1) by (auto simp: busy_def)
  have "total w (pc(i := x)) = (\<Sum>j\<in>?A. w ((pc(i := x)) j))" by (rule total_over [where w = w, OF A(1,3) assms(2)])
  also have "\<dots> = w x + (\<Sum>j\<in>?A - {i}. w (pc j))" using A(1) by (subst sum.remove [of _ i]) (auto intro: sum.cong)
  finally have 1: "total w (pc(i := x)) = w x + (\<Sum>j\<in>?A - {i}. w (pc j))" .
  have "total w pc = (\<Sum>j\<in>?A. w (pc j))" by (rule total_over [where w = w, OF A(1,2) assms(2)])
  also have "\<dots> = w (pc i) + (\<Sum>j\<in>?A - {i}. w (pc j))" using A(1) by (subst sum.remove [of _ i]) auto
  finally show ?thesis using 1 by simp
qed

lemma total_idle [simp]: "w Idle = 0 \<Longrightarrow> total w (\<lambda>_. Idle) = 0"
  by (simp add: total_def)

lemma total_zero: "finite (busy pc) \<Longrightarrow> w Idle = 0 \<Longrightarrow> total w pc = 0 \<Longrightarrow> w (pc i) = 0"
  by (cases "i \<in> busy pc") (auto simp: total_def busy_def)

section \<open>What the sections change\<close>

text \<open>A section that counts nothing: the connection and the descriptors may change.\<close>

definition uncounted :: "server_state \<Rightarrow> server_state \<Rightarrow> bool" where
  "uncounted s t \<longleftrightarrow> gLock t = gLock s \<and> ((gInitFlag s \<longrightarrow> gVdspService s) \<longrightarrow> (gInitFlag t \<longrightarrow> gVdspService t)) \<and>
     (length (fd_working s) = USE_FD_MAX_NUM \<longrightarrow> length (fd_working t) = USE_FD_MAX_NUM) \<and>
     gWorking t = gWorking s \<and> live_handles t = live_handles s"

lemma uncounted_table [simp]: "uncounted s (s\<lparr>g_fdtable := b\<rparr>)" "uncounted s (s\<lparr>svc_calls := cs\<rparr>)"
  "uncounted s (s\<lparr>gOpenedCount := oc\<rparr>)" "uncounted s (s\<lparr>gWorkType := wt\<rparr>)" "uncounted s s"
  by (simp_all add: uncounted_def)

lemma uncounted_trans: "uncounted s t \<Longrightarrow> uncounted t u \<Longrightarrow> uncounted s u"
  by (simp add: uncounted_def)

lemma Free_Fd_frame: "Free_Fd fd s = Some (r, t) \<Longrightarrow> \<exists>b. t = s\<lparr>g_fdtable := b\<rparr>"
  by (auto simp: Free_Fd_def split: if_splits intro: exI [of _ "g_fdtable s"])

lemma get_uncounted:
  assumes "getVdspService E r s = Some (cs, t)"
  shows "uncounted s t"
  using assms by (auto simp: getVdspService_def lock_def unlock_def svc_def uncounted_def Let_def split: if_splits)

lemma open_uncounted:
  assumes "open_section E type s = Some (opened, fd, h, t)"
  shows "uncounted s t"
  using assms
  by (cases rule: Alloc_Fd_cases [of "s\<lparr>gLock := True\<rparr>"])
    (auto simp: open_section_def open_locked_def lock_def unlock_def svc_def uncounted_def Let_def dest!: Free_Fd_frame
      split: if_splits Option.bind_splits prod.splits)

lemma undo_uncounted: "undo_open fd s = Some t \<Longrightarrow> uncounted s t"
  by (auto simp: undo_open_def dest!: Free_Fd_frame split: if_splits Option.bind_splits)

lemma close_uncounted:
  assumes "close_section E hnd s = Some (r, t)"
  shows "uncounted s t"
  using assms
  by (auto simp: close_section_def close_locked_def lock_def unlock_def svc_def uncounted_def putVdspService_def Let_def dest!: Free_Fd_frame
      split: if_splits Option.bind_splits prod.splits)

lemma died_uncounted: "serviceDied s = Some t \<Longrightarrow> uncounted s t"
  by (auto simp: serviceDied_def lock_def unlock_def uncounted_def split: if_splits)

lemma prepare_send_midway:
  assumes p: "prepare E m (Cmd_send nsid inp out bs n pr) t = Some (p, u)" and t: "midway s k True t"
  shows "midway s (k + (case p of None \<Rightarrow> 0 | Some (c, hs) \<Rightarrow> sum_list (map handles hs))) True u"
proof -
  obtain ret hi t1 where o1: "optional_params E inp t = Some (ret, hi, t1)" using p by (auto split: Option.bind_splits)
  note m1 = midway_optional [OF o1 t]
  show ?thesis
  proof (cases "ret = 0")
    case False
    then show ?thesis using p o1 m1 by (simp add: handles_def)
  next
    case True
    then obtain ret2 ho t2 where o2: "optional_params E out t1 = Some (ret2, ho, t2)" using p o1 by (auto split: Option.bind_splits)
    note m2 = midway_optional [OF o2 m1(1)]
    show ?thesis
    proof (cases "ret2 = 0")
      case False
      then have "p = None" "u = native_handle_delete hi t2" "ho = None" using p o1 o2 True m2 by simp_all
      then show ?thesis using m2(1) midway_delete [of s "k + handles hi" True t2 hi] by (simp add: handles_def)
    next
      case ok: True
      then obtain ret3 hb t3 where o3:
        "(if n \<noteq> 0 then Option.bind bs (\<lambda>bs. create_hidl_params E bs n t2) else Some (0, None, t2)) = Some (ret3, hb, t3)"
        using p o1 o2 True by (auto split: Option.bind_splits)
      note m3 = midway_buffers [OF o3 m2(1)]
      show ?thesis
      proof (cases "ret3 = 0")
        case False
        then have pu: "p = None" "u = native_handle_delete ho (native_handle_delete hi t3)" "hb = None"
          using p o1 o2 o3 True ok m3 by simp_all
        have "midway s (k + handles ho) True (native_handle_delete hi t3)"
          using midway_delete [OF m3(1), of hi] pu(3) by (simp add: handles_def)
        from midway_delete [OF this, of ho] show ?thesis using pu by simp
      next
        case last: True
        then obtain t4 where t4: "(if check_sum_flag E t3 \<noteq> 0
            then Option.bind (print_checksum_result E m bs n t3) (\<lambda>(_, s). Option.bind (print_checksum_result E m (map_option (\<lambda>io. [io]) inp) 1 s)
              (\<lambda>(_, s). Option.bind (print_checksum_result E m (map_option (\<lambda>io. [io]) out) 1 s) (\<lambda>(_, s). Some s)))
            else Some t3) = Some u" and pu: "p = Some (Sv_send nsid hi ho hb n pr, [hi, ho, hb])"
          using p o1 o2 o3 True ok by (simp only: prepare.simps) (auto split: Option.bind_splits if_splits)
        have "midway s (k + handles hi + handles ho + handles hb) True u" by (rule midway_checksums [OF t4 m3(1)])
        then show ?thesis using pu by (simp add: add.assoc)
      qed
    qed
  qed
qed

lemma prepare_midway:
  assumes "prepare E m cmd t = Some (p, u)" and "midway s k True t"
  shows "midway s (k + (case p of None \<Rightarrow> 0 | Some (c, hs) \<Rightarrow> sum_list (map handles hs))) True u"
proof (cases cmd)
  case (Cmd_send nsid inp out bs n pr)
  then show ?thesis using prepare_send_midway assms by blast
next
  case (Cmd_load libname bs)
  then obtain ret hb where c: "create_hidl_params E bs 1 t = Some (ret, hb, u)" "p = (if ret \<noteq> 0 then None else Some (Sv_load libname hb, [hb]))"
    using assms(1) by (auto split: Option.bind_splits if_splits)
  then show ?thesis using midway_create [OF c(1) assms(2)] by (auto simp: handles_def)
qed (use assms in auto)

lemma enter_refused:
  assumes "enter_command E m hnd cmd s = Some (Inl r, t)"
  shows "uncounted s t"
proof -
  have free: "\<not> gLock s" using assms by (auto simp: enter_command_def lock_def split: if_splits)
  then have l: "lock s = Some (s\<lparr>gLock := True\<rparr>)" by (simp add: lock_def)
  have m0: "midway s 0 True (s\<lparr>gLock := True\<rparr>)" by (rule midway_lock [OF l])
  have "midway s 0 False t"
    using assms l m0 midway_unlock [OF m0] prepare_midway [OF _ m0, of E m cmd None] midway_unlock [of s 0]
    by (auto simp: enter_command_def split: Option.bind_splits option.splits)
  then show ?thesis using free by (auto simp: midway_def uncounted_def)
qed

lemma enter_counts:
  assumes "enter_command E m hnd cmd s = Some (Inr (c, hs), t)"
  shows "\<exists>cs w. t = s\<lparr>live_handles := live_handles s + sum_list (map handles hs), svc_calls := cs,
      gWorking := gWorking s + 1, fd_working := w\<rparr> \<and> length w = length (fd_working s)"
proof -
  have free: "\<not> gLock s" using assms by (auto simp: enter_command_def lock_def split: if_splits)
  then have l: "lock s = Some (s\<lparr>gLock := True\<rparr>)" by (simp add: lock_def)
  obtain u where u: "prepare E m cmd (s\<lparr>gLock := True\<rparr>) = Some (Some (c, hs), u)" "t = unlock (add_work 1 (vh_fd hnd) u)"
    using assms l by (auto simp: enter_command_def split: Option.bind_splits option.splits)
  have "midway s 0 True (s\<lparr>gLock := True\<rparr>)" by (rule midway_lock [OF l])
  from prepare_midway [OF u(1) this] have "midway s (sum_list (map handles hs)) True u" by simp
  then obtain cs where "u = s\<lparr>gLock := True, live_handles := live_handles s + sum_list (map handles hs), svc_calls := cs\<rparr>"
    by (auto simp: midway_def)
  then show ?thesis using u(2) free by (intro exI [of _ cs]) (auto simp: unlock_def add_work_def)
qed

lemma delete_handles_eq: "delete_handles hs s = s\<lparr>live_handles := live_handles s - sum_list (map handles hs)\<rparr>"
proof (induction hs arbitrary: s)
  case (Cons h hs)
  then show ?case by (cases h) (simp_all add: delete_handles_def native_handle_delete_def handles_def)
qed (simp add: delete_handles_def)

lemma leave_counts:
  assumes "leave_command fd hs s = Some t"
  shows "\<exists>w. t = s\<lparr>gWorking := gWorking s - 1, fd_working := w, live_handles := live_handles s - sum_list (map handles hs)\<rparr> \<and>
    length w = length (fd_working s)"
  using assms by (auto simp: leave_command_def lock_def unlock_def add_work_def delete_handles_eq split: if_splits)

section \<open>The invariant\<close>

lemma inv_uncounted:
  assumes i: "sessions_inv (s, pc)" and u: "uncounted s t" and w: "counted x = counted (pc i)" "owned x = owned (pc i)"
  shows "sessions_inv (t, pc(i := x))"
proof -
  have f: "finite (busy pc)" using i by (simp add: sessions_inv_def)
  have "total counted (pc(i := x)) = total counted pc" "total owned (pc(i := x)) = total owned pc"
    using total_upd [OF f, of counted i x] total_upd [OF f, of owned i x] w by simp_all
  then show ?thesis using i u busy_upd [OF f] by (simp add: sessions_inv_def uncounted_def)
qed

interpretation sessions: transition_system sessions_start "session_step E m" sessions_inv for E m
proof
  fix p q
  show "sessions_inv p" if "sessions_start p"
    using that by (simp add: sessions_start_def sessions_inv_def server_init_def busy_def)
  show "sessions_inv q" if inv: "sessions_inv p" and step: "session_step E m p q"
    using step
  proof (cases rule: session_step.cases)
    case (begin_open pc i s cs t type)
    then show ?thesis using inv get_uncounted [of E 1 s cs t] by (auto intro!: inv_uncounted)
  next
    case (open_device pc i type s opened fd handle t)
    then show ?thesis using inv open_uncounted [of E type s] by (auto intro!: inv_uncounted)
  next
    case (undo pc i fd s t)
    then show ?thesis using inv undo_uncounted [of fd s t] by (auto intro!: inv_uncounted)
  next
    case (begin_close pc i s cs t hnd)
    then show ?thesis using inv get_uncounted [of E 0 s cs t] by (auto intro!: inv_uncounted)
  next
    case (close_device pc i hnd s r t)
    then show ?thesis using inv close_uncounted [of E hnd s r t] by (auto intro!: inv_uncounted)
  next
    case (begin_command pc i s cs t hnd cmd)
    then show ?thesis using inv get_uncounted [of E 0 s cs t] by (auto intro!: inv_uncounted)
  next
    case (enter pc i hnd cmd s r t)
    show ?thesis
    proof (cases r)
      case (Inl x)
      then show ?thesis using enter inv enter_refused [of E m hnd cmd s x t] by (auto intro!: inv_uncounted)
    next
      case (Inr y)
      then obtain c hs where r: "r = Inr (c, hs)" by (cases y) auto
      have f: "finite (busy pc)" using inv enter(1) by (simp add: sessions_inv_def)
      have "total counted (pc(i := Calling (vh_fd hnd) c hs)) = total counted pc + 1"
        "total owned (pc(i := Calling (vh_fd hnd) c hs)) = total owned pc + sum_list (map handles hs)"
        using total_upd [OF f, of counted i "Calling (vh_fd hnd) c hs"] total_upd [OF f, of owned i "Calling (vh_fd hnd) c hs"]
          enter(3) by simp_all
      then show ?thesis
        using enter r inv enter_counts [of E m hnd cmd s c hs t] busy_upd [OF f] by (auto simp: sessions_inv_def)
    qed
  next
    case (remote pc i fd c hs s ret t)
    then show ?thesis using inv by (auto intro!: inv_uncounted simp: svc_def)
  next
    case (leave pc i fd hs s t)
    have f: "finite (busy pc)" using inv leave(1) by (simp add: sessions_inv_def)
    have "total counted pc = Suc (total counted (pc(i := Idle)))"
      "total owned pc = total owned (pc(i := Idle)) + sum_list (map handles hs)"
      using total_upd [OF f, of counted i Idle] total_upd [OF f, of owned i Idle] leave(3) by simp_all
    then show ?thesis
      using leave inv leave_counts [of fd hs s t] busy_upd [OF f] by (auto simp: sessions_inv_def)
  next
    case (service_dies s t pc)
    then show ?thesis using inv died_uncounted [of s t] by (auto simp: sessions_inv_def uncounted_def)
  qed
qed

lemma reachable_sessions: "sessions_reachable E m s pc \<Longrightarrow> sessions_inv (s, pc)"
  by (rule sessions.reach_invar)

definition in_call :: "(nat \<Rightarrow> thread_pc) \<Rightarrow> nat set" where
  "in_call pc = {i. counted (pc i) = 1}"

lemma counted_le: "counted x = of_bool (counted x = 1)"
  by (cases x) simp_all

lemma total_counted: "finite (busy pc) \<Longrightarrow> total counted pc = card (in_call pc)"
proof -
  assume f: "finite (busy pc)"
  have sub: "in_call pc \<subseteq> busy pc" by (auto simp: in_call_def busy_def)
  have "total counted pc = (\<Sum>i\<in>busy pc. of_bool (counted (pc i) = 1))"
    unfolding total_def by (rule sum.cong) (use counted_le in auto)
  also have "\<dots> = card (busy pc \<inter> in_call pc)" using f by (simp add: in_call_def)
  finally show ?thesis using sub by (simp add: Int_absorb1)
qed

section \<open>Properties\<close>


lemma close_disconnects:
  assumes "close_section E hnd s = Some (r, t)" and "gVdspService s" and "\<not> gVdspService t"
  shows "gWorking s = 0"
  using assms
  by (auto simp: close_section_def close_locked_def lock_def unlock_def svc_def putVdspService_def Let_def dest!: Free_Fd_frame
      split: if_splits Option.bind_splits prod.splits)


section \<open>Runs\<close>

text \<open>Stores of runs against a service that grants everything: connected, with one descriptor open,
  with a command of it inside the service.\<close>

definition connected :: server_state where
  "connected = server_init\<lparr>gInitFlag := True, gVdspService := True, svc_calls := [Sv_getService, Sv_linkToDeath]\<rparr>"

definition one_open :: server_state where
  "one_open = connected\<lparr>gOpenedCount := 1, gWorkType := SPRD_VDSP_WORK_NORMAL, g_fdtable := 1,
     svc_calls := [Sv_getService, Sv_linkToDeath, Sv_open SPRD_VDSP_WORK_NORMAL]\<rparr>"

definition one_running :: server_state where
  "one_running = one_open\<lparr>gWorking := 1, fd_working := 1 # replicate 31 0\<rparr>"

definition two_open :: server_state where
  "two_open = one_open\<lparr>gOpenedCount := 2, g_fdtable := 3\<rparr>"

definition reconnected :: server_state where
  "reconnected = one_running\<lparr>gGeneration := 1, fd_working := replicate 32 0, g_fdtable := 0, gOpenedCount := 0,
     gWorkType := SPRD_VDSP_WORK_MAXTYPE, svc_calls := svc_calls one_open @ [Sv_getService, Sv_linkToDeath]\<rparr>"

definition miscounted :: server_state where
  "miscounted = reconnected\<lparr>gWorking := 0, fd_working := - 1 # replicate 31 0,
     svc_calls := svc_calls reconnected @ [Sv_powerHint 0 0]\<rparr>"

definition reopened :: server_state where
  "reopened = miscounted\<lparr>gOpenedCount := 1, gWorkType := SPRD_VDSP_WORK_NORMAL, g_fdtable := 1,
     svc_calls := svc_calls miscounted @ [Sv_open SPRD_VDSP_WORK_NORMAL]\<rparr>"

lemma connects: "getVdspService calm_env 1 server_init = Some (True, connected)"
  and stays_connected: "getVdspService calm_env r one_open = Some (True, one_open)"
  and opens_first: "open_section calm_env SPRD_VDSP_WORK_NORMAL connected = Some (True, 0, \<lparr>vh_fd = 0, vh_generation = 0\<rparr>, one_open)"
  and opens_wrong: "open_section calm_env SPRD_VDSP_WORK_FACEID one_open = Some (False, 1, \<lparr>vh_fd = 1, vh_generation = 0\<rparr>, one_open)"
  and opens_second: "open_section calm_env SPRD_VDSP_WORK_NORMAL one_open = Some (True, 1, \<lparr>vh_fd = 1, vh_generation = 0\<rparr>, two_open)"
  and undoes: "undo_open 1 two_open = Some (two_open\<lparr>g_fdtable := 1\<rparr>)"
  by (simp add: getVdspService_def lock_def unlock_def svc_def calm_env_def server_init_def connected_def Let_def,
    simp add: getVdspService_def lock_def unlock_def server_init_def connected_def one_open_def) code_simp+

lemma enters: "enter_command calm_env m \<lparr>vh_fd = 0, vh_generation = 0\<rparr> (Cmd_hint 0 0) one_open = Some (Inr (Sv_powerHint 0 0, []), one_running)"
  by (simp add: enter_command_def lock_def unlock_def session_check_def Check_GenrationValid_def Check_FdValid_def add_work_def
      one_running_def one_open_def connected_def server_init_def USE_FD_MAX_NUM_def numeral_eq_Suc)

lemma dies: "serviceDied one_running = Some (one_running\<lparr>gInitFlag := False, gGeneration := 1\<rparr>)"
  and reconnects: "getVdspService calm_env 1 (one_running\<lparr>gInitFlag := False, gGeneration := 1\<rparr>) = Some (True, reconnected)"
  and miscounts: "leave_command 0 [] (reconnected\<lparr>svc_calls := svc_calls reconnected @ [Sv_powerHint 0 0]\<rparr>) = Some miscounted"
  and reopens: "open_section calm_env SPRD_VDSP_WORK_NORMAL miscounted = Some (True, 0, \<lparr>vh_fd = 0, vh_generation = 1\<rparr>, reopened)"
  and connected_again: "getVdspService calm_env 1 reopened = Some (True, reopened)"
  and opens_more: "open_section calm_env SPRD_VDSP_WORK_NORMAL reopened
    = Some (True, 1, \<lparr>vh_fd = 1, vh_generation = 1\<rparr>, reopened\<lparr>gOpenedCount := 2, g_fdtable := 3\<rparr>)"
  by code_simp+

abbreviation idle :: "nat \<Rightarrow> thread_pc" where
  "idle \<equiv> \<lambda>_. Idle"

lemma step_to: "sessions_reachable E m s pc \<Longrightarrow> session_step E m (s, pc) (t, pc') \<Longrightarrow> pc' = pc'' \<Longrightarrow> sessions_reachable E m t pc''"
  by (drule (1) reach_step) simp

lemma reach_open:
  assumes "sessions_reachable E m s idle" and "getVdspService E 1 s = Some (True, t)" and "open_section E type t = Some (True, fd, h, u)"
  shows "sessions_reachable E m u idle"
proof -
  have "session_step E m (s, idle) (t, idle(0 := if True then Opening type else Idle))"
    by (rule begin_open [OF _ assms(2)]) simp
  then have 1: "sessions_reachable E m t (idle(0 := Opening type))" using reach_step [OF assms(1)] by simp
  have "session_step E m (t, idle(0 := Opening type)) (u, (idle(0 := Opening type))(0 := if True then Idle else Open_failed fd))"
    by (rule open_device [OF _ assms(3)]) simp
  then show ?thesis by (rule step_to [OF 1]) auto
qed

lemma reach_one_open: "sessions_reachable calm_env m one_open idle"
  by (rule reach_open [OF reach_init connects opens_first]) (simp add: sessions_start_def)

lemma reach_race:
  "sessions_reachable calm_env m one_open (idle(0 := Open_failed 1, 1 := Opening SPRD_VDSP_WORK_NORMAL))"
proof -
  have "session_step calm_env m (one_open, idle) (one_open, idle(0 := if True then Opening SPRD_VDSP_WORK_FACEID else Idle))"
    by (rule begin_open [OF _ stays_connected]) simp
  from step_to [OF reach_one_open this refl] have 1: "sessions_reachable calm_env m one_open (idle(0 := Opening SPRD_VDSP_WORK_FACEID))" by simp
  have "session_step calm_env m (one_open, idle(0 := Opening SPRD_VDSP_WORK_FACEID))
      (one_open, (idle(0 := Opening SPRD_VDSP_WORK_FACEID))(0 := if False then Idle else Open_failed 1))"
    by (rule open_device [OF _ opens_wrong]) simp
  from step_to [OF 1 this refl] have 2: "sessions_reachable calm_env m one_open (idle(0 := Open_failed 1))" by simp
  have "session_step calm_env m (one_open, idle(0 := Open_failed 1))
      (one_open, (idle(0 := Open_failed 1))(1 := if True then Opening SPRD_VDSP_WORK_NORMAL else Idle))"
    by (rule begin_open [OF _ stays_connected]) simp
  from step_to [OF 2 this refl] show ?thesis by simp
qed

lemma reach_running: "sessions_reachable calm_env m one_running (idle(1 := Calling 0 (Sv_powerHint 0 0) []))"
proof -
  let ?h = "\<lparr>vh_fd = 0, vh_generation = 0\<rparr> :: vdsp_handle"
  have "session_step calm_env m (one_open, idle) (one_open, idle(1 := if True then Entering ?h (Cmd_hint 0 0) else Idle))"
    by (rule begin_command [OF _ stays_connected]) simp
  from step_to [OF reach_one_open this refl] have 1: "sessions_reachable calm_env m one_open (idle(1 := Entering ?h (Cmd_hint 0 0)))" by simp
  show ?thesis by (rule step_to [OF 1 enter [OF _ enters]]) (auto simp: fun_eq_iff)
qed

lemma reach_miscounted: "sessions_reachable calm_env m (reopened\<lparr>gOpenedCount := 2, g_fdtable := 3\<rparr>) idle"
proof -
  let ?dead = "one_running\<lparr>gInitFlag := False, gGeneration := 1\<rparr>" and ?pc = "idle(1 := Calling 0 (Sv_powerHint 0 0) [])"
  have 3: "sessions_reachable calm_env m ?dead ?pc" by (rule step_to [OF reach_running service_dies [OF dies] refl])
  have "session_step calm_env m (?dead, ?pc) (reconnected, ?pc(0 := if True then Opening SPRD_VDSP_WORK_NORMAL else Idle))"
    by (rule begin_open [OF _ reconnects]) simp
  then have 4: "sessions_reachable calm_env m reconnected (?pc(0 := Opening SPRD_VDSP_WORK_NORMAL))"
    by (rule step_to [OF 3]) simp
  have 5: "sessions_reachable calm_env m (reconnected\<lparr>svc_calls := svc_calls reconnected @ [Sv_powerHint 0 0]\<rparr>)
      (idle(0 := Opening SPRD_VDSP_WORK_NORMAL, 1 := Leaving 0 []))"
    by (rule step_to [OF 4 remote [where i = 1]]) (auto simp: svc_def fun_eq_iff)
  have 6: "sessions_reachable calm_env m miscounted (idle(0 := Opening SPRD_VDSP_WORK_NORMAL))"
    by (rule step_to [OF 5 leave [where i = 1, OF _ miscounts]]) (auto simp: fun_eq_iff)
  have 7: "sessions_reachable calm_env m reopened idle"
    by (rule step_to [OF 6 open_device [where i = 0, OF _ reopens]]) (auto simp: fun_eq_iff)
  show ?thesis by (rule reach_open [OF 7 connected_again opens_more])
qed

text \<open>Property C32: the descriptor of a failed open is freed a second time after the lock was given up. In this
  run another thread has opened the descriptor in between: its handle was good when the open
  returned and is refused once the first thread has gone on.\<close>

theorem open_race:
  "\<exists>s pc fd h t u. sessions_reachable calm_env m s pc \<and> pc 0 = Open_failed fd \<and> pc 1 = Opening SPRD_VDSP_WORK_NORMAL \<and>
    open_section calm_env SPRD_VDSP_WORK_NORMAL s = Some (True, fd, h, t) \<and> undo_open fd t = Some u \<and>
    session_check h t = Some None \<and> session_check h u = Some (Some SPRD_VDSP_RESULT_FAIL)"
proof -
  have "session_check \<lparr>vh_fd = 1, vh_generation = 0\<rparr> two_open = Some None"
    "session_check \<lparr>vh_fd = 1, vh_generation = 0\<rparr> (two_open\<lparr>g_fdtable := 1\<rparr>) = Some (Some SPRD_VDSP_RESULT_FAIL)"
    by code_simp+
  then show ?thesis using reach_race [of m] opens_second undoes by force
qed




end
