(* ===== verification/Vdsp_Client.thy ===== *)
theory Vdsp_Client
  imports Vdsp_Direct Vdsp_Server Xrp_Queue
begin

text \<open>
  The entry points of vdsp_interface.cpp: the \<open>sprd_cavdsp_*\<close> calls of the service, which get a
  device as a split handle; the \<open>*_direc\<close> calls, which get it as a pointer; and the
  \<open>*_compat\<close> calls of an application, whose wrap handle says whether the device is used
  directly or through the service.

  \<open>client_state\<close> joins the store of the direct path with the state of the service client. The
  wrap handles and \<open>vdsp_handle\<close> objects of the compat calls live at addresses of the same
  allocator: an address is reserved in the \<open>blocks\<close> of the store as long as the object lives.
\<close>

section \<open>Data\<close>

datatype sprd_vdsp_interface_type =
    SPRD_VDSP_INTERFACE_DIRECTLY | SPRD_VDSP_INTERFACE_BYSERVER | SPRD_VDSP_INTERFACe_MAX

datatype sprd_vdsp_getinfo_cmd = SPRD_VDSP_GET_VERSION | SPRD_VDSP_GET_MAX

definition SPRD_XRP_PRIORITY_2 :: u32 where "SPRD_XRP_PRIORITY_2 = 2"

record vdsp_wrap_handle =
  w_type :: sprd_vdsp_interface_type
  w_handle :: ptr

record vdsp_open_param =
  op_work_type :: sprd_vdsp_worktype
  op_int_type :: sprd_vdsp_interface_type

record client_state =
  host :: xrp_state
  server :: server_state
  wraps :: "ptr \<rightharpoonup> vdsp_wrap_handle"
  vhandles :: "ptr \<rightharpoonup> vdsp_handle"

section \<open>Information\<close>

definition version :: string where "version = ''ver_1.1''"

text \<open>\<open>output\<close> is what the caller's buffer holds before and after.\<close>

definition sprd_cavdsp_get_info :: "sprd_vdsp_getinfo_cmd \<Rightarrow> string \<Rightarrow> sprd_vdsp_result \<times> string" where
  "sprd_cavdsp_get_info cmd output = (case cmd of
       SPRD_VDSP_GET_VERSION \<Rightarrow> (SPRD_VDSP_RESULT_SUCCESS, version)
     | _ \<Rightarrow> (SPRD_VDSP_RESULT_FAIL, output))"

definition sprd_cavdsp_ctrl :: "u32 \<Rightarrow> sprd_vdsp_result" where
  "sprd_cavdsp_ctrl cmd = SPRD_VDSP_RESULT_NOT_SUPPORT"

text \<open>\<open>efuse\<close> is the value of the property ro.boot.auto.efuse.\<close>

definition sprd_vdsp_check_supported :: "string \<Rightarrow> i32" where
  "sprd_vdsp_check_supported efuse =
     (if efuse = ''T618'' then 1 else if efuse = ''T610'' \<or> efuse = ''T700'' then 0 else 1)"

section \<open>The direct calls\<close>

definition status_result :: "sprd_vdsp_status \<Rightarrow> sprd_vdsp_result" where
  "status_result st = (if st = SPRD_XRP_STATUS_SUCCESS then SPRD_VDSP_RESULT_SUCCESS else SPRD_VDSP_RESULT_FAIL)"

definition sprd_vdsp_open_device_direc ::
    "env \<Rightarrow> sprd_vdsp_worktype \<Rightarrow> xrp_state \<Rightarrow> sprd_vdsp_result \<times> ptr \<times> xrp_state" where
  "sprd_vdsp_open_device_direc E type s =
     (let (handle, s) = sprd_vdsp_open_device E 0 type s
      in (if handle = 0 then SPRD_VDSP_RESULT_FAIL else SPRD_VDSP_RESULT_SUCCESS, handle, s))"

definition sprd_vdsp_close_device_direc :: "env \<Rightarrow> ptr \<Rightarrow> xrp_state \<Rightarrow> (sprd_vdsp_result \<times> xrp_state) option" where
  "sprd_vdsp_close_device_direc E handle s =
     do { s \<leftarrow> sprd_vdsp_release_device (xrp_release_device E) handle s;
          Some (SPRD_VDSP_RESULT_SUCCESS, s) }"

definition sprd_vdsp_loadlibrary_direc ::
    "env \<Rightarrow> ptr \<Rightarrow> byte list \<Rightarrow> sprd_vdsp_inout list \<Rightarrow> xrp_state \<Rightarrow> (sprd_vdsp_result \<times> xrp_state) option" where
  "sprd_vdsp_loadlibrary_direc E handle libname buffer s =
     do { (ret, s) \<leftarrow> sprd_vdsp_load_library E handle buffer libname SPRD_XRP_PRIORITY_2 s;
          Some (status_result ret, s) }"

definition sprd_vdsp_unloadlibrary_direc ::
    "env \<Rightarrow> ptr \<Rightarrow> byte list \<Rightarrow> xrp_state \<Rightarrow> (sprd_vdsp_result \<times> xrp_state) option" where
  "sprd_vdsp_unloadlibrary_direc E handle libname s =
     do { (ret, s) \<leftarrow> sprd_vdsp_unload_library E handle libname SPRD_XRP_PRIORITY_2 s;
          Some (status_result ret, s) }"

definition sprd_vdsp_power_hint_direc ::
    "env \<Rightarrow> ptr \<Rightarrow> i32 \<Rightarrow> u32 \<Rightarrow> xrp_state \<Rightarrow> (sprd_vdsp_result \<times> xrp_state) option" where
  "sprd_vdsp_power_hint_direc E handle level acquire_release s =
     do { (ret, s) \<leftarrow> set_powerhint_flag E handle level acquire_release s;
          Some (if ret = 0 then SPRD_VDSP_RESULT_SUCCESS else SPRD_VDSP_RESULT_FAIL, s) }"

definition sprd_cavdsp_open_device_direct ::
    "env \<Rightarrow> sprd_vdsp_worktype \<Rightarrow> xrp_state \<Rightarrow> sprd_vdsp_result \<times> ptr \<times> xrp_state" where
  "sprd_cavdsp_open_device_direct E type s = sprd_vdsp_open_device_direc E type s"

definition sprd_cavdsp_close_device_direct :: "env \<Rightarrow> ptr \<Rightarrow> xrp_state \<Rightarrow> (sprd_vdsp_result \<times> xrp_state) option" where
  "sprd_cavdsp_close_device_direct E handle s = sprd_vdsp_close_device_direc E handle s"

definition sprd_cavdsp_send_cmd_direct ::
    "env \<Rightarrow> ptr \<Rightarrow> byte list \<Rightarrow> sprd_vdsp_inout option \<Rightarrow> sprd_vdsp_inout option
       \<Rightarrow> sprd_vdsp_inout list \<Rightarrow> u32 \<Rightarrow> u32 \<Rightarrow> xrp_state \<Rightarrow> (sprd_vdsp_result \<times> xrp_state) option" where
  "sprd_cavdsp_send_cmd_direct E handle nsid inp out buffer bufnum priority s =
     sprd_vdsp_send_cmd_direc E handle nsid inp out buffer bufnum priority s"

section \<open>The calls with a split handle\<close>

text \<open>The checks every \<open>sprd_cavdsp_*\<close> call starts with: no handle, or a handle that joins to the
  null pointer.\<close>

definition with_device ::
    "vdsp_handle option \<Rightarrow> xrp_state \<Rightarrow> (ptr \<Rightarrow> (sprd_vdsp_result \<times> xrp_state) option)
       \<Rightarrow> (sprd_vdsp_result \<times> xrp_state) option" where
  "with_device handle s f = (case handle of
       None \<Rightarrow> Some (SPRD_VDSP_RESULT_FAIL, s)
     | Some vdsphnd \<Rightarrow>
         (let hnd = join_handle vdsphnd
          in if hnd = 0 then Some (SPRD_VDSP_RESULT_FAIL, s) else f hnd))"

definition sprd_cavdsp_send_cmd ::
    "env \<Rightarrow> vdsp_handle option \<Rightarrow> byte list \<Rightarrow> sprd_vdsp_inout option \<Rightarrow> sprd_vdsp_inout option
       \<Rightarrow> sprd_vdsp_inout list \<Rightarrow> u32 \<Rightarrow> u32 \<Rightarrow> xrp_state \<Rightarrow> (sprd_vdsp_result \<times> xrp_state) option" where
  "sprd_cavdsp_send_cmd E handle nsid inp out buffer bufnum priority s =
     with_device handle s (\<lambda>hnd.
       do { (ret1, s) \<leftarrow> sprd_vdsp_send_command_directly E hnd nsid inp out buffer bufnum priority s;
            Some (status_result ret1, s) })"

definition sprd_cavdsp_loadlibrary ::
    "env \<Rightarrow> vdsp_handle option \<Rightarrow> byte list \<Rightarrow> sprd_vdsp_inout list \<Rightarrow> xrp_state
       \<Rightarrow> (sprd_vdsp_result \<times> xrp_state) option" where
  "sprd_cavdsp_loadlibrary E handle libname buffer s =
     with_device handle s (\<lambda>hnd.
       do { (ret, s) \<leftarrow> sprd_vdsp_load_library E hnd buffer libname SPRD_XRP_PRIORITY_2 s;
            Some (status_result ret, s) })"

definition sprd_cavdsp_unloadlibrary ::
    "env \<Rightarrow> vdsp_handle option \<Rightarrow> byte list \<Rightarrow> xrp_state \<Rightarrow> (sprd_vdsp_result \<times> xrp_state) option" where
  "sprd_cavdsp_unloadlibrary E handle libname s =
     with_device handle s (\<lambda>hnd.
       do { (ret, s) \<leftarrow> sprd_vdsp_unload_library E hnd libname SPRD_XRP_PRIORITY_2 s;
            Some (status_result ret, s) })"

definition sprd_cavdsp_power_hint ::
    "env \<Rightarrow> vdsp_handle option \<Rightarrow> i32 \<Rightarrow> u32 \<Rightarrow> xrp_state \<Rightarrow> (sprd_vdsp_result \<times> xrp_state) option" where
  "sprd_cavdsp_power_hint E handle level acquire_release s =
     with_device handle s (\<lambda>hnd.
       do { (ret, s) \<leftarrow> set_powerhint_flag E hnd level acquire_release s;
            Some (if ret = 0 then SPRD_VDSP_RESULT_SUCCESS else SPRD_VDSP_RESULT_FAIL, s) })"

section \<open>The calls with a wrap handle\<close>

definition take_block :: "env \<Rightarrow> client_state \<Rightarrow> ptr \<times> client_state" where
  "take_block E s =
     (let (p, h) = malloc E (host s)
      in (p, s\<lparr>host := if p = 0 then h else h\<lparr>blocks := (blocks h)(p \<mapsto> [])\<rparr>\<rparr>))"

definition free_block :: "ptr \<Rightarrow> client_state \<Rightarrow> client_state" where
  "free_block p s = s\<lparr>host := (host s)\<lparr>blocks := (blocks (host s))(p := None)\<rparr>,
     wraps := (wraps s)(p := None), vhandles := (vhandles s)(p := None)\<rparr>"

text \<open>The second result is what \<open>*handle\<close> is set to, \<^const>\<open>None\<close> when it is left alone.\<close>

definition sprd_cavdsp_open_device_compat ::
    "env \<Rightarrow> server_env \<Rightarrow> vdsp_open_param \<Rightarrow> client_state
       \<Rightarrow> (sprd_vdsp_result \<times> ptr option \<times> client_state) option" where
  "sprd_cavdsp_open_device_compat E V type s =
     (let (wrap_handle, s) = take_block E s
      in if wrap_handle = 0 then Some (SPRD_VDSP_RESULT_FAIL, None, s)
         else case op_int_type type of
           SPRD_VDSP_INTERFACE_DIRECTLY \<Rightarrow>
             (let (ret, directhandle, h) = sprd_vdsp_open_device_direc E (op_work_type type) (host s);
                  s = s\<lparr>host := h\<rparr>
              in if ret = SPRD_VDSP_RESULT_SUCCESS
                 then Some (ret, Some wrap_handle,
                        s\<lparr>wraps := (wraps s)(wrap_handle \<mapsto> \<lparr>w_type = SPRD_VDSP_INTERFACE_DIRECTLY, w_handle = directhandle\<rparr>)\<rparr>)
                 else Some (ret, Some 0, free_block wrap_handle s))
         | SPRD_VDSP_INTERFACE_BYSERVER \<Rightarrow>
             (let (vdsphandle, s) = take_block E s
              in if vdsphandle = 0 then Some (SPRD_VDSP_RESULT_FAIL, Some 0, free_block wrap_handle s)
                 else do {
                   (ret, vh, v) \<leftarrow> sprd_vdsp_open_device_serv V (op_work_type type) True (server s);
                   let s = s\<lparr>server := v, vhandles := (vhandles s)(vdsphandle := vh)\<rparr>;
                   if ret = SPRD_VDSP_RESULT_SUCCESS
                   then Some (ret, Some wrap_handle,
                          s\<lparr>wraps := (wraps s)(wrap_handle \<mapsto> \<lparr>w_type = SPRD_VDSP_INTERFACE_BYSERVER, w_handle = vdsphandle\<rparr>)\<rparr>)
                   else Some (ret, Some 0, free_block vdsphandle (free_block wrap_handle s)) })
         | _ \<Rightarrow> Some (SPRD_VDSP_RESULT_FAIL, Some 0, free_block wrap_handle s))"

definition sprd_cavdsp_close_device_compat ::
    "env \<Rightarrow> server_env \<Rightarrow> ptr \<Rightarrow> client_state \<Rightarrow> (sprd_vdsp_result \<times> client_state) option" where
  "sprd_cavdsp_close_device_compat E V handle s =
     (if handle = 0 then Some (SPRD_VDSP_RESULT_FAIL, s)
      else do {
        w \<leftarrow> wraps s handle;
        if w_handle w = 0 then Some (SPRD_VDSP_RESULT_FAIL, s)
        else case w_type w of
          SPRD_VDSP_INTERFACE_DIRECTLY \<Rightarrow>
            do { (ret, h) \<leftarrow> sprd_vdsp_close_device_direc E (w_handle w) (host s);
                 let s = s\<lparr>host := h\<rparr>;
                 Some (ret, if ret = SPRD_VDSP_RESULT_SUCCESS then free_block handle s else s) }
        | SPRD_VDSP_INTERFACE_BYSERVER \<Rightarrow>
            do { hnd \<leftarrow> vhandles s (w_handle w);
                 (ret, v) \<leftarrow> sprd_vdsp_close_device_serv V (Some hnd) (server s);
                 let s = s\<lparr>server := v\<rparr>;
                 Some (ret, if ret = SPRD_VDSP_RESULT_SUCCESS \<or> ret = SPRD_VDSP_RESULT_OLD_GENERATION
                            then free_block handle (free_block (w_handle w) s) else s) }
        | _ \<Rightarrow> Some (SPRD_VDSP_RESULT_FAIL, s) })"

text \<open>The dispatch the other four compat calls share.\<close>

definition compat_call ::
    "ptr \<Rightarrow> client_state \<Rightarrow> (ptr \<Rightarrow> xrp_state \<Rightarrow> (sprd_vdsp_result \<times> xrp_state) option)
       \<Rightarrow> (vdsp_handle option \<Rightarrow> server_state \<Rightarrow> (sprd_vdsp_result \<times> server_state) option)
       \<Rightarrow> (sprd_vdsp_result \<times> client_state) option" where
  "compat_call handle s direc serv =
     (if handle = 0 then Some (SPRD_VDSP_RESULT_FAIL, s)
      else do {
        w \<leftarrow> wraps s handle;
        if w_handle w = 0 then Some (SPRD_VDSP_RESULT_FAIL, s)
        else case w_type w of
          SPRD_VDSP_INTERFACE_DIRECTLY \<Rightarrow>
            do { (ret, h) \<leftarrow> direc (w_handle w) (host s); Some (ret, s\<lparr>host := h\<rparr>) }
        | SPRD_VDSP_INTERFACE_BYSERVER \<Rightarrow>
            do { hnd \<leftarrow> vhandles s (w_handle w);
                 (ret, v) \<leftarrow> serv (Some hnd) (server s); Some (ret, s\<lparr>server := v\<rparr>) }
        | _ \<Rightarrow> Some (SPRD_VDSP_RESULT_FAIL, s) })"

definition sprd_cavdsp_send_cmd_compat ::
    "env \<Rightarrow> server_env \<Rightarrow> ptr \<Rightarrow> byte list \<Rightarrow> sprd_vdsp_inout option \<Rightarrow> sprd_vdsp_inout option
       \<Rightarrow> sprd_vdsp_inout list option \<Rightarrow> u32 \<Rightarrow> u32 \<Rightarrow> client_state \<Rightarrow> (sprd_vdsp_result \<times> client_state) option" where
  "sprd_cavdsp_send_cmd_compat E V handle nsid inp out buffer bufnum priority s =
     compat_call handle s
       (\<lambda>hnd. sprd_vdsp_send_cmd_direc E hnd nsid inp out (case buffer of None \<Rightarrow> [] | Some bs \<Rightarrow> bs) bufnum priority)
       (\<lambda>hnd. sprd_vdsp_send_cmd_serv V (mem (host s)) hnd nsid inp out buffer bufnum priority)"

definition sprd_cavdsp_loadlibrary_compat ::
    "env \<Rightarrow> server_env \<Rightarrow> ptr \<Rightarrow> byte list \<Rightarrow> sprd_vdsp_inout list \<Rightarrow> client_state
       \<Rightarrow> (sprd_vdsp_result \<times> client_state) option" where
  "sprd_cavdsp_loadlibrary_compat E V handle libname buffer s =
     compat_call handle s (\<lambda>hnd. sprd_vdsp_loadlibrary_direc E hnd libname buffer)
       (\<lambda>hnd. sprd_vdsp_loadlibrary_serv V hnd libname buffer)"

definition sprd_cavdsp_unloadlibrary_compat ::
    "env \<Rightarrow> server_env \<Rightarrow> ptr \<Rightarrow> byte list \<Rightarrow> client_state \<Rightarrow> (sprd_vdsp_result \<times> client_state) option" where
  "sprd_cavdsp_unloadlibrary_compat E V handle libname s =
     compat_call handle s (\<lambda>hnd. sprd_vdsp_unloadlibrary_direc E hnd libname)
       (\<lambda>hnd. sprd_vdsp_unloadlibrary_serv V hnd libname)"

definition sprd_cavdsp_power_hint_compat ::
    "env \<Rightarrow> server_env \<Rightarrow> ptr \<Rightarrow> i32 \<Rightarrow> u32 \<Rightarrow> client_state \<Rightarrow> (sprd_vdsp_result \<times> client_state) option" where
  "sprd_cavdsp_power_hint_compat E V handle level acquire_release s =
     compat_call handle s (\<lambda>hnd. sprd_vdsp_power_hint_direc E hnd level acquire_release)
       (\<lambda>hnd. sprd_vdsp_power_hint_serv V hnd level acquire_release)"

section \<open>What opening and closing leave behind\<close>

definition devices_only :: "xrp_state \<Rightarrow> xrp_state \<Rightarrow> bool" where
  "devices_only s t \<longleftrightarrow> (\<exists>ds n tr. t = s\<lparr>devices := ds, allocs := n, trace := tr\<rparr>)"

lemma devices_only_refl [simp]: "devices_only s s"
  unfolding devices_only_def by (rule exI [of _ "devices s"], rule exI [of _ "allocs s"], rule exI [of _ "trace s"]) simp

lemma devices_only_simps [simp]:
  "devices_only s (t\<lparr>devices := ds\<rparr>) = devices_only s t"
  "devices_only s (t\<lparr>trace := tr\<rparr>) = devices_only s t"
  "devices_only s (t\<lparr>allocs := n\<rparr>) = devices_only s t"
  by (cases s; cases t; simp add: devices_only_def)+

lemma devices_only_blocks: "devices_only s t \<Longrightarrow> blocks t = blocks s"
  by (auto simp: devices_only_def)

lemma release_device_devices:
  "devices_only r s \<Longrightarrow> always (release_device_fuel n E p s) (devices_only r)"
proof (induction n arbitrary: p s)
  case (Suc n)
  have impl: "always (xrp_impl_release_device (release_device_fuel n E) E D u) (devices_only r)"
    if "devices_only r u" for D u
    using Suc.IH [OF that] that by (cases "d_type D") (simp_all add: xrp_impl_release_device_def
        sprd_cavdsp_close_device_def sprd_vdsp_release_device_def sys_def Let_def)
  show ?case
    unfolding release_device_fuel.simps(2) Let_def last_release_refcounted_def prod.case
  proof (rule always_readI)
    fix D
    let ?s = "s\<lparr>devices := (devices s)(p \<mapsto> D\<lparr>d_count := d_count D - 1\<rparr>)\<rparr>"
    have "devices_only r ?s" using Suc.prems by simp
    from impl [OF this, of "D\<lparr>d_count := d_count D - 1\<rparr>"] this
    show "always (if d_count D = 1
         then do { s \<leftarrow> xrp_impl_release_device (release_device_fuel n E) E (D\<lparr>d_count := d_count D - 1\<rparr>) ?s;
                   Some (s\<lparr>devices := (devices s)(p := None)\<rparr>) }
         else Some ?s) (devices_only r)"
      by (cases "d_count D = 1") simp_all
  qed
qed simp

lemma open_newmode_devices: "devices_only s (snd (snd (xrp_open_device_newmode E idx type s)))"
  by (cases type) (simp_all add: xrp_open_device_newmode_def alloc_refcounted_eq sys_def Let_def)

lemma open_direc_devices: "devices_only s (snd (snd (sprd_vdsp_open_device_direc E type s)))"
  using open_newmode_devices [of s E 0]
  by (cases type) (simp_all add: sprd_vdsp_open_device_direc_def sprd_vdsp_open_device_def case_prod_beta)

definition client_ok :: "client_state \<Rightarrow> bool" where
  "client_ok s \<longleftrightarrow> dom (wraps s) \<union> dom (vhandles s) \<subseteq> dom (blocks (host s))"

text \<open>Two states of a client with the same objects: wrap handles, \<open>vdsp_handle\<close>s and blocks.\<close>

definition same_objects :: "client_state \<Rightarrow> client_state \<Rightarrow> bool" where
  "same_objects s t \<longleftrightarrow> wraps t = wraps s \<and> vhandles t = vhandles s \<and> blocks (host t) = blocks (host s)"

lemma take_block_cases:
  obtains (none) h where "take_block E s = (0, s\<lparr>host := h\<rparr>)" "blocks h = blocks (host s)"
  | (some) p h where "take_block E s = (p, s\<lparr>host := h\<rparr>)" "p \<noteq> 0" "blocks (host s) p = None"
      "blocks h = (blocks (host s))(p \<mapsto> [])"
proof (cases "new_ptr E (host s) = 0")
  case True
  then show ?thesis by (intro none [of "host s\<lparr>allocs := Suc (allocs (host s))\<rparr>"]) (simp_all add: take_block_def malloc_def)
next
  case False
  then have "blocks (host s) (new_ptr E (host s)) = None" using new_ptr_fresh by (auto simp: fresh_def)
  then show ?thesis using False
    by (intro some [of "new_ptr E (host s)" "(host s)\<lparr>allocs := Suc (allocs (host s)), blocks := (blocks (host s))(new_ptr E (host s) \<mapsto> [])\<rparr>"])
      (simp_all add: take_block_def malloc_def)
qed

lemma absent_upd: "m p = None \<Longrightarrow> m(p := None) = m"
  by auto

lemma client_fresh: "client_ok s \<Longrightarrow> blocks (host s) p = None \<Longrightarrow> wraps s p = None \<and> vhandles s p = None"
  by (auto simp: client_ok_def)

text \<open>What an opening leaves: a failure restores the objects, a success adds the wrap handle and,
  through the service, the \<open>vdsp_handle\<close> it points at.\<close>

definition opened :: "client_state \<Rightarrow> sprd_vdsp_interface_type \<Rightarrow> ptr \<Rightarrow> client_state \<Rightarrow> bool" where
  "opened s ty w t \<longleftrightarrow> w \<noteq> 0 \<and> blocks (host s) w = None \<and>
     (\<exists>hnd. wraps t = (wraps s)(w \<mapsto> \<lparr>w_type = ty, w_handle = hnd\<rparr>) \<and> hnd \<noteq> 0 \<and>
       (case ty of
          SPRD_VDSP_INTERFACE_DIRECTLY \<Rightarrow> vhandles t = vhandles s \<and> blocks (host t) = (blocks (host s))(w \<mapsto> [])
        | SPRD_VDSP_INTERFACE_BYSERVER \<Rightarrow> hnd \<noteq> w \<and> blocks (host s) hnd = None \<and>
            (\<exists>vh. vhandles t = (vhandles s)(hnd := vh)) \<and> blocks (host t) = (blocks (host s))(w \<mapsto> [], hnd \<mapsto> [])
        | _ \<Rightarrow> False))"

lemma same_objectsI:
  "wraps t = wraps s \<Longrightarrow> vhandles t = vhandles s \<Longrightarrow> blocks (host t) = blocks (host s) \<Longrightarrow> same_objects s t"
  by (simp add: same_objects_def)

lemma open_compat_cases:
  assumes ok: "client_ok s" and r: "sprd_cavdsp_open_device_compat E V type s = Some (ret, h, t)"
  shows "if ret = SPRD_VDSP_RESULT_SUCCESS then \<exists>w. h = Some w \<and> opened s (op_int_type type) w t
         else same_objects s t \<and> h \<in> {None, Some 0}"
proof (cases rule: take_block_cases [of E s])
  case (none h0)
  then show ?thesis using r by (auto simp: sprd_cavdsp_open_device_compat_def same_objects_def)
next
  case (some w h1)
  note absent = client_fresh [OF ok some(3)]
  note fresh = some absent absent_upd
  show ?thesis
  proof (cases "op_int_type type")
    case SPRD_VDSP_INTERFACE_DIRECTLY
    obtain r0 d h2 where d: "sprd_vdsp_open_device_direc E (op_work_type type) h1 = (r0, d, h2)"
      by (cases "sprd_vdsp_open_device_direc E (op_work_type type) h1") auto
    have b: "blocks h2 = blocks h1" using devices_only_blocks [OF open_direc_devices [of h1 E "op_work_type type"]] d by simp
    have nz: "r0 = SPRD_VDSP_RESULT_SUCCESS \<Longrightarrow> d \<noteq> 0"
      using d by (auto simp: sprd_vdsp_open_device_direc_def case_prod_beta split: if_splits)
    show ?thesis
      using r fresh d b nz SPRD_VDSP_INTERFACE_DIRECTLY
      by (cases "r0 = SPRD_VDSP_RESULT_SUCCESS")
        (auto simp: sprd_cavdsp_open_device_compat_def opened_def same_objects_def free_block_def)
  next
    case SPRD_VDSP_INTERFACe_MAX
    then show ?thesis using r fresh
      by (auto simp: sprd_cavdsp_open_device_compat_def same_objects_def free_block_def)
  next
    case SPRD_VDSP_INTERFACE_BYSERVER
    show ?thesis
    proof (cases rule: take_block_cases [of E "s\<lparr>host := h1\<rparr>"])
      case (none h2)
      then show ?thesis using r fresh SPRD_VDSP_INTERFACE_BYSERVER
        by (auto simp: sprd_cavdsp_open_device_compat_def same_objects_def free_block_def)
    next
      case (some hnd h2)
      have hnd: "hnd \<noteq> w" "blocks (host s) hnd = None" using some fresh by (auto split: if_splits)
      note absent2 = client_fresh [OF ok hnd(2)]
      obtain r0 vh v where o: "sprd_vdsp_open_device_serv V (op_work_type type) True (server s) = Some (r0, vh, v)"
        using r fresh some SPRD_VDSP_INTERFACE_BYSERVER
        by (auto simp: sprd_cavdsp_open_device_compat_def split: Option.bind_splits)
      have upd: "(vhandles s)(hnd := None) = vhandles s" "(wraps s)(hnd := None) = wraps s"
        "(wraps s)(w := None) = wraps s" "(vhandles s)(w := None) = vhandles s"
        "(blocks (host s))(w \<mapsto> [], hnd \<mapsto> [], w := None, hnd := None) = blocks (host s)"
        using absent absent2 hnd fresh(3) by auto
      show ?thesis
      proof (cases "r0 = SPRD_VDSP_RESULT_SUCCESS")
        case True
        then have "h = Some w" "ret = SPRD_VDSP_RESULT_SUCCESS"
          "wraps t = (wraps s)(w \<mapsto> \<lparr>w_type = SPRD_VDSP_INTERFACE_BYSERVER, w_handle = hnd\<rparr>)"
          "vhandles t = (vhandles s)(hnd := vh)" "blocks (host t) = (blocks (host s))(w \<mapsto> [], hnd \<mapsto> [])"
          using r fresh(1,2) some o SPRD_VDSP_INTERFACE_BYSERVER \<open>blocks h1 = _\<close>
          by (auto simp: sprd_cavdsp_open_device_compat_def)
        then show ?thesis using SPRD_VDSP_INTERFACE_BYSERVER fresh(2,3) hnd some(2)
          by (auto simp: opened_def intro!: exI [of _ hnd])
      next
        case False
        then show ?thesis
          using r fresh(1,2) some hnd o SPRD_VDSP_INTERFACE_BYSERVER upd \<open>blocks h1 = _\<close>
          by (auto simp: sprd_cavdsp_open_device_compat_def same_objects_def free_block_def fun_upd_twist [of hnd w])
      qed
    qed
  qed
qed

lemma close_direc_blocks:
  "sprd_vdsp_close_device_direc E d s = Some (r, t) \<Longrightarrow> r = SPRD_VDSP_RESULT_SUCCESS \<and> blocks t = blocks s"
  using alwaysD [OF release_device_devices [OF devices_only_refl]] devices_only_blocks
  by (auto simp: sprd_vdsp_close_device_direc_def sprd_vdsp_release_device_def xrp_release_device_def split: Option.bind_splits)

lemma close_compat_restores:
  assumes ok: "client_ok s" and o: "opened s ty w t"
    and c: "sprd_cavdsp_close_device_compat E V w t = Some (ret, u)"
    and r: "ret \<in> {SPRD_VDSP_RESULT_SUCCESS, SPRD_VDSP_RESULT_OLD_GENERATION}"
  shows "same_objects s u"
proof -
  obtain hnd where w: "w \<noteq> 0" "blocks (host s) w = None" "hnd \<noteq> 0"
      "wraps t = (wraps s)(w \<mapsto> \<lparr>w_type = ty, w_handle = hnd\<rparr>)"
    using o by (auto simp: opened_def)
  note absent = client_fresh [OF ok w(2)]
  show ?thesis
  proof (cases ty)
    case SPRD_VDSP_INTERFACE_DIRECTLY
    then have t: "vhandles t = vhandles s" "blocks (host t) = (blocks (host s))(w \<mapsto> [])"
      using o w by (auto simp: opened_def)
    obtain h where h: "sprd_vdsp_close_device_direc E hnd (host t) = Some (ret, h)"
        "u = free_block w (t\<lparr>host := h\<rparr>)"
      using c w SPRD_VDSP_INTERFACE_DIRECTLY close_direc_blocks
      by (auto simp: sprd_cavdsp_close_device_compat_def split: Option.bind_splits)
    show ?thesis using h(2) t w absent close_direc_blocks [OF h(1)]
      by (simp add: same_objects_def free_block_def absent_upd)
  next
    case SPRD_VDSP_INTERFACE_BYSERVER
    then obtain vh where t: "hnd \<noteq> w" "blocks (host s) hnd = None" "vhandles t = (vhandles s)(hnd := vh)"
        "blocks (host t) = (blocks (host s))(w \<mapsto> [], hnd \<mapsto> [])"
      using o w by (auto simp: opened_def dest!: fun_upd_eqD)
    obtain v where "u = free_block w (free_block hnd (t\<lparr>server := v\<rparr>))"
      using c w SPRD_VDSP_INTERFACE_BYSERVER r
      by (auto simp: Let_def sprd_cavdsp_close_device_compat_def split: Option.bind_splits)
    moreover note absent client_fresh [OF ok t(2)]
    moreover have "(blocks (host s))(w \<mapsto> [], hnd := None, w := None) = blocks (host s)"
      "(wraps s)(w \<mapsto> x, hnd := None, w := None) = wraps s" for x
      using w(2) t(2) absent client_fresh [OF ok t(2)] by auto
    ultimately show ?thesis using t w by (simp add: same_objects_def free_block_def absent_upd)
  next
    case SPRD_VDSP_INTERFACe_MAX
    then show ?thesis using o by (simp add: opened_def)
  qed
qed

lemma with_device_split: "p \<noteq> 0 \<Longrightarrow> with_device (Some (split_handle p)) s f = f p"
  by (simp add: with_device_def join_split)

section \<open>Properties\<close>


definition sample_client :: client_state where
  "sample_client = \<lparr>host = init_state, server = server_init, wraps = Map.empty, vhandles = Map.empty\<rparr>"


text \<open>A device that \<open>sprd_cavdsp_open_device\<close> gives out as a pair of 32-bit numbers is the same
  device on the way back: the calls with the split handle do to it exactly what the direct calls
  do with the pointer, for every pointer.\<close>

theorem split_handle_calls:
  assumes "p \<noteq> 0"
  shows "sprd_cavdsp_send_cmd E (Some (split_handle p)) nsid inp out buffer bufnum priority s
       = sprd_cavdsp_send_cmd_direct E p nsid inp out buffer bufnum priority s
    \<and> sprd_cavdsp_loadlibrary E (Some (split_handle p)) libname buffer s = sprd_vdsp_loadlibrary_direc E p libname buffer s
    \<and> sprd_cavdsp_unloadlibrary E (Some (split_handle p)) libname s = sprd_vdsp_unloadlibrary_direc E p libname s
    \<and> sprd_cavdsp_power_hint E (Some (split_handle p)) level ar s = sprd_vdsp_power_hint_direc E p level ar s
    \<and> sprd_cavdsp_close_device (xrp_release_device E) (Some (split_handle p)) s = sprd_vdsp_close_device_direc E p s"
  using assms
  by (simp add: with_device_split sprd_cavdsp_send_cmd_def sprd_cavdsp_send_cmd_direct_def sprd_vdsp_send_cmd_direc_def
      sprd_cavdsp_loadlibrary_def sprd_vdsp_loadlibrary_direc_def sprd_cavdsp_unloadlibrary_def
      sprd_vdsp_unloadlibrary_direc_def sprd_cavdsp_power_hint_def sprd_vdsp_power_hint_direc_def status_result_def
      sprd_cavdsp_close_device_def sprd_vdsp_close_device_direc_def join_split)

theorem split_handle_calls_witness:
  "sprd_cavdsp_power_hint sample_env (Some (split_handle 0x12345678abcd)) 1 0 init_state
     = sprd_vdsp_power_hint_direc sample_env 0x12345678abcd 1 0 init_state"
  using split_handle_calls [of "0x12345678abcd" sample_env "[]" None None "[]" 0 0 init_state "[]" 1 0] by simp

end
