(* ===== verification/Xrp_Interface.thy ===== *)
theory Xrp_Interface
  imports Xrp_Queue
begin

text \<open>
  The exported names of xrp_interface.c. Each passes its arguments on to the function of
  xrp_api.h it stands for; the two that open a device fix the open type. (\<open>sprd_xrp_set_apptr\<close>,
  the one with a body of its own, is in Xrp_Buffer.)
\<close>

section \<open>Devices\<close>

definition sprd_xrp_open_device ::
    "env \<Rightarrow> i32 \<Rightarrow> xrp_state \<Rightarrow> (ptr \<times> xrp_status \<times> xrp_state) option" where
  "sprd_xrp_open_device E idx s = xrp_open_device E idx XRP_OPEN_NORMAL_TYPE s"

definition sprd_xrp_open_device_direct ::
    "env \<Rightarrow> i32 \<Rightarrow> xrp_state \<Rightarrow> ptr \<times> xrp_status \<times> xrp_state" where
  "sprd_xrp_open_device_direct E idx s = xrp_open_device_newmode E idx XRP_OPEN_NORMAL_TYPE s"

definition sprd_xrp_retain_device ::
    "ptr \<Rightarrow> xrp_state \<Rightarrow> xrp_state option" where
  "sprd_xrp_retain_device device s = xrp_retain_device device s"

definition sprd_xrp_release_device ::
    "env \<Rightarrow> ptr \<Rightarrow> xrp_state \<Rightarrow> xrp_state option" where
  "sprd_xrp_release_device E device s = xrp_release_device E device s"

section \<open>Buffers\<close>

definition sprd_xrp_create_buffer ::
    "env \<Rightarrow> ptr \<Rightarrow> size_t \<Rightarrow> ptr \<Rightarrow> i32 \<Rightarrow> xrp_state \<Rightarrow> (ptr \<times> xrp_status \<times> xrp_state) option" where
  "sprd_xrp_create_buffer E device sz host_ptr fd s = xrp_create_buffer E device sz host_ptr fd s"

definition sprd_xrp_retain_buffer ::
    "ptr \<Rightarrow> xrp_state \<Rightarrow> xrp_state option" where
  "sprd_xrp_retain_buffer buffer s = xrp_retain_buffer buffer s"

definition sprd_xrp_release_buffer ::
    "env \<Rightarrow> ptr \<Rightarrow> xrp_state \<Rightarrow> xrp_state option" where
  "sprd_xrp_release_buffer E buffer s = xrp_release_buffer E buffer s"

definition sprd_xrp_map_buffer ::
    "ptr \<Rightarrow> size_t \<Rightarrow> size_t \<Rightarrow> u32 \<Rightarrow> xrp_state \<Rightarrow> (ptr \<times> xrp_status \<times> xrp_state) option" where
  "sprd_xrp_map_buffer buffer offset sz map_flags s = xrp_map_buffer buffer offset sz map_flags s"

definition sprd_xrp_unmap_buffer ::
    "env \<Rightarrow> ptr \<Rightarrow> ptr \<Rightarrow> xrp_state \<Rightarrow> (xrp_status \<times> xrp_state) option" where
  "sprd_xrp_unmap_buffer E buffer p s = xrp_unmap_buffer E buffer p s"

definition sprd_xrp_buffer_get_info ::
    "ptr \<Rightarrow> xrp_buffer_info option \<Rightarrow> size_t \<Rightarrow> xrp_state \<Rightarrow> (64 word option \<times> xrp_status) option" where
  "sprd_xrp_buffer_get_info buffer info out_sz s = xrp_buffer_get_info buffer info out_sz s"

section \<open>Groups\<close>

definition sprd_xrp_create_buffer_group ::
    "env \<Rightarrow> xrp_state \<Rightarrow> ptr \<times> xrp_status \<times> xrp_state" where
  "sprd_xrp_create_buffer_group E s = xrp_create_buffer_group E s"

definition sprd_xrp_retain_buffer_group ::
    "ptr \<Rightarrow> xrp_state \<Rightarrow> xrp_state option" where
  "sprd_xrp_retain_buffer_group grp s = xrp_retain_buffer_group grp s"

definition sprd_xrp_release_buffer_group ::
    "env \<Rightarrow> ptr \<Rightarrow> xrp_state \<Rightarrow> xrp_state option" where
  "sprd_xrp_release_buffer_group E grp s = xrp_release_buffer_group E grp s"

definition sprd_xrp_add_buffer_to_group ::
    "env \<Rightarrow> ptr \<Rightarrow> ptr \<Rightarrow> u32 \<Rightarrow> xrp_state \<Rightarrow> (size_t \<times> xrp_status \<times> xrp_state) option" where
  "sprd_xrp_add_buffer_to_group E grp buffer access_flags s = xrp_add_buffer_to_group E grp buffer access_flags s"

definition sprd_xrp_set_buffer_in_group ::
    "env \<Rightarrow> ptr \<Rightarrow> size_t \<Rightarrow> ptr \<Rightarrow> u32 \<Rightarrow> xrp_state \<Rightarrow> (xrp_status \<times> xrp_state) option" where
  "sprd_xrp_set_buffer_in_group E grp index buffer access_flags s = xrp_set_buffer_in_group E grp index buffer access_flags s"

definition sprd_xrp_get_buffer_from_group ::
    "ptr \<Rightarrow> size_t \<Rightarrow> xrp_state \<Rightarrow> (ptr \<times> xrp_status \<times> xrp_state) option" where
  "sprd_xrp_get_buffer_from_group grp idx s = xrp_get_buffer_from_group grp idx s"

definition sprd_xrp_buffer_group_get_info ::
    "ptr \<Rightarrow> xrp_buffer_group_info option \<Rightarrow> size_t \<Rightarrow> size_t \<Rightarrow> xrp_state \<Rightarrow> (64 word option \<times> xrp_status \<times> xrp_state) option" where
  "sprd_xrp_buffer_group_get_info grp info idx out_sz s = xrp_buffer_group_get_info grp info idx out_sz s"

section \<open>Queues, events and commands\<close>

definition sprd_xrp_create_queue ::
    "env \<Rightarrow> ptr \<Rightarrow> xrp_state \<Rightarrow> (ptr \<times> xrp_status \<times> xrp_state) option" where
  "sprd_xrp_create_queue E device s = xrp_create_queue E device s"

definition sprd_xrp_create_ns_queue ::
    "env \<Rightarrow> ptr \<Rightarrow> byte list option \<Rightarrow> xrp_state \<Rightarrow> (ptr \<times> xrp_status \<times> xrp_state) option" where
  "sprd_xrp_create_ns_queue E device nsid s = xrp_create_ns_queue E device nsid s"

definition sprd_xrp_create_nsp_queue ::
    "env \<Rightarrow> ptr \<Rightarrow> byte list option \<Rightarrow> i32 \<Rightarrow> xrp_state \<Rightarrow> (ptr \<times> xrp_status \<times> xrp_state) option" where
  "sprd_xrp_create_nsp_queue E device nsid priority s = xrp_create_nsp_queue E device nsid priority s"

definition sprd_xrp_retain_queue ::
    "ptr \<Rightarrow> xrp_state \<Rightarrow> xrp_state option" where
  "sprd_xrp_retain_queue queue s = xrp_retain_queue queue s"

definition sprd_xrp_release_queue ::
    "nat \<Rightarrow> env \<Rightarrow> ptr \<Rightarrow> xrp_state \<Rightarrow> xrp_state option" where
  "sprd_xrp_release_queue n E queue s = xrp_release_queue n E queue s"

definition sprd_xrp_retain_event ::
    "ptr \<Rightarrow> xrp_state \<Rightarrow> xrp_state option" where
  "sprd_xrp_retain_event event s = xrp_retain_event event s"

definition sprd_xrp_release_event ::
    "nat \<Rightarrow> env \<Rightarrow> ptr \<Rightarrow> xrp_state \<Rightarrow> xrp_state option" where
  "sprd_xrp_release_event n E event s = xrp_release_event n E event s"

definition sprd_xrp_event_status ::
    "ptr \<Rightarrow> xrp_state \<Rightarrow> xrp_status option" where
  "sprd_xrp_event_status event s = xrp_event_status event s"

definition sprd_xrp_run_command_sync ::
    "nat \<Rightarrow> env \<Rightarrow> ptr \<Rightarrow> ptr \<Rightarrow> i32 \<Rightarrow> size_t \<Rightarrow> ptr \<Rightarrow> i32 \<Rightarrow> size_t \<Rightarrow> ptr \<Rightarrow> xrp_state \<Rightarrow> (xrp_status \<times> xrp_state) option" where
  "sprd_xrp_run_command_sync n E queue in_data in_data_fd in_data_size out_data out_data_fd out_data_size
     buffer_group s = xrp_run_command_sync n E queue in_data in_data_fd in_data_size out_data out_data_fd out_data_size
     buffer_group s"

definition sprd_xrp_enqueue_command ::
    "env \<Rightarrow> ptr \<Rightarrow> ptr \<Rightarrow> i32 \<Rightarrow> size_t \<Rightarrow> ptr \<Rightarrow> i32 \<Rightarrow> size_t \<Rightarrow> ptr \<Rightarrow> bool \<Rightarrow> xrp_state \<Rightarrow> (ptr \<times> xrp_status \<times> xrp_state) option" where
  "sprd_xrp_enqueue_command E queue in_data in_data_fd in_data_size out_data out_data_fd out_data_size
     buffer_group event s = xrp_enqueue_command E queue in_data in_data_fd in_data_size out_data out_data_fd out_data_size
     buffer_group event s"

definition sprd_xrp_wait ::
    "nat \<Rightarrow> env \<Rightarrow> ptr \<Rightarrow> xrp_state \<Rightarrow> (xrp_status \<times> xrp_state) option" where
  "sprd_xrp_wait n E event s = xrp_wait n E event s"

end
