(* ===== verification/Vdsp_Ion_Ops.thy ===== *)
theory Vdsp_Ion_Ops
  imports Vdsp_Ion
begin

text \<open>
  The operations on ion memory beside allocation and release: cache maintenance, physical
  addresses and kernel mappings of VdspIon.cpp, and the exported wrappers of vdsp_ion.cpp and
  sprd_vdsp_ion.cpp. Each comes twice in the class: a static one (capital initial) that opens
  the ion device for the call, and a member that uses the descriptor of the object. Both choose
  between the legacy ion interface and dma-buf by the version ioctl.
\<close>

section \<open>Result codes\<close>

definition MEMION_NO_ERROR :: i32 where "MEMION_NO_ERROR = 0"
definition MEMION_NO_DEV :: i32 where "MEMION_NO_DEV = - 1"
definition MEMION_OP_FAILED :: i32 where "MEMION_OP_FAILED = - 2"
definition MEMION_NOT_SUPPORTED :: i32 where "MEMION_NOT_SUPPORTED = - 3"

lemmas memion_defs = MEMION_NO_ERROR_def MEMION_NO_DEV_def MEMION_OP_FAILED_def
  MEMION_NOT_SUPPORTED_def

text \<open>How every operation ends: no answer stands for the branch that is not supported, and any
  answer but 0 is a failure.\<close>

definition memion_result :: "answer option \<Rightarrow> i32" where
  "memion_result r = (case r of None \<Rightarrow> MEMION_NOT_SUPPORTED
     | Some a \<Rightarrow> if ans_ret a \<noteq> 0 then MEMION_OP_FAILED else MEMION_NO_ERROR)"

text \<open>The frame of the static operations: open the device, run the ioctl, close it.\<close>

definition with_ion_device ::
    "env \<Rightarrow> (i32 \<Rightarrow> xrp_state \<Rightarrow> answer option \<times> xrp_state) \<Rightarrow> xrp_state
       \<Rightarrow> i32 \<times> answer option \<times> xrp_state" where
  "with_ion_device E request s =
     (let (a, s) = sys E (Sys_open ''/dev/ion'' [O_SYNC]) s
      in if sint (ans_ret a) < 0 then (MEMION_NO_DEV, None, s)
         else (let (r, s) = request (ans_ret a) s;
                   (_, s) = sys E (Sys_close (ans_ret a)) s
               in (memion_result r, r, s)))"

text \<open>The frame of the members.\<close>

definition with_own_device ::
    "vdsp_ion \<Rightarrow> (xrp_state \<Rightarrow> answer option \<times> xrp_state) \<Rightarrow> xrp_state
       \<Rightarrow> i32 \<times> answer option \<times> xrp_state" where
  "with_own_device ion request s =
     (if sint (mIonDeviceFd ion) < 0 then (MEMION_NO_DEV, None, s)
      else (let (r, s) = request s in (memion_result r, r, s)))"

definition ask :: "env \<Rightarrow> syscall \<Rightarrow> xrp_state \<Rightarrow> answer option \<times> xrp_state" where
  "ask E c s = (let (a, s) = sys E c s in (Some a, s))"

section \<open>Accessors\<close>

definition getHeapID :: "vdsp_ion \<Rightarrow> i32" where "getHeapID ion = mFD ion"
definition getBase :: "vdsp_ion \<Rightarrow> ptr" where "getBase ion = mBase ion"
definition getIonDeviceFd :: "vdsp_ion \<Rightarrow> i32" where "getIonDeviceFd ion = mIonDeviceFd ion"

section \<open>Physical addresses\<close>

text \<open>The out parameters are the answer of the ioctl; they are written whatever it returns.\<close>

definition Get_phy_addr_from_ion ::
    "env \<Rightarrow> i32 \<Rightarrow> xrp_state \<Rightarrow> i32 \<times> (64 word \<times> size_t) option \<times> xrp_state" where
  "Get_phy_addr_from_ion E buffer_fd s =
     (let (ret, r, s) = with_ion_device E (\<lambda>fd s.
            let (legacy, s) = Is_ion_legacy E fd s
            in if legacy then ask E (Sys_ion_phys fd buffer_fd) s
               else ask E (Sys_ion_phy fd buffer_fd) s) s
      in (ret, map_option (\<lambda>a. (ans_addr a, ans_size a)) r, s))"

definition get_phy_addr_from_ion ::
    "env \<Rightarrow> vdsp_ion \<Rightarrow> xrp_state \<Rightarrow> i32 \<times> (64 word \<times> size_t) option \<times> xrp_state" where
  "get_phy_addr_from_ion E ion s =
     (let (ret, r, s) = with_own_device ion (\<lambda>s.
            let (legacy, s) = is_ion_legacy E ion s
            in if legacy then ask E (Sys_ion_phys (mIonDeviceFd ion) (mFD ion)) s
               else ask E (Sys_ion_phy (mIonDeviceFd ion) (mFD ion)) s) s
      in (ret, map_option (\<lambda>a. (ans_addr a, ans_size a)) r, s))"

section \<open>Cache maintenance\<close>

definition Flush_ion_buffer ::
    "env \<Rightarrow> i32 \<Rightarrow> ptr \<Rightarrow> ptr \<Rightarrow> size_t \<Rightarrow> xrp_state \<Rightarrow> i32 \<times> xrp_state" where
  "Flush_ion_buffer E buffer_fd v_addr p_addr sz s =
     (let (ret, _, s) = with_ion_device E (\<lambda>fd s.
            let (legacy, s) = Is_ion_legacy E fd s
            in if legacy then ask E (Sys_ion_msync fd buffer_fd v_addr p_addr sz) s
               else ask E (Sys_dma_buf_sync buffer_fd (DMA_BUF_SYNC_RW E OR DMA_BUF_SYNC_END E)) s) s
      in (ret, s))"

definition Invalid_ion_buffer :: "env \<Rightarrow> i32 \<Rightarrow> xrp_state \<Rightarrow> i32 \<times> xrp_state" where
  "Invalid_ion_buffer E buffer_fd s =
     (let (ret, _, s) = with_ion_device E (\<lambda>fd s.
            let (legacy, s) = Is_ion_legacy E fd s
            in if legacy then ask E (Sys_ion_invalidate fd buffer_fd) s
               else ask E (Sys_dma_buf_sync buffer_fd (DMA_BUF_SYNC_READ E)) s) s
      in (ret, s))"

definition Sync_ion_buffer :: "env \<Rightarrow> i32 \<Rightarrow> xrp_state \<Rightarrow> i32 \<times> xrp_state" where
  "Sync_ion_buffer E buffer_fd s =
     (let (ret, _, s) = with_ion_device E (\<lambda>fd s.
            let (legacy, s) = Is_ion_legacy E fd s
            in if legacy then ask E (Sys_ion_sync fd (- 1) buffer_fd) s
               else ask E (Sys_dma_buf_sync buffer_fd (DMA_BUF_SYNC_RW E OR DMA_BUF_SYNC_END E)) s) s
      in (ret, s))"

text \<open>The member refuses a range outside the mapping, on the legacy interface only; pointer sums
  wrap.\<close>

definition flush_in_range :: "vdsp_ion \<Rightarrow> ptr \<Rightarrow> size_t \<Rightarrow> bool" where
  "flush_in_range ion v_addr sz \<longleftrightarrow> \<not> (v_addr < mBase ion \<or> v_addr + sz > mBase ion + mSize ion)"

definition flush_ion_buffer ::
    "env \<Rightarrow> vdsp_ion \<Rightarrow> ptr \<Rightarrow> ptr \<Rightarrow> size_t \<Rightarrow> xrp_state \<Rightarrow> i32 \<times> xrp_state" where
  "flush_ion_buffer E ion v_addr p_addr sz s =
     (let (ret, _, s) = with_own_device ion (\<lambda>s.
            let (legacy, s) = is_ion_legacy E ion s
            in if legacy
               then (if flush_in_range ion v_addr sz
                     then ask E (Sys_ion_msync (mIonDeviceFd ion) (mFD ion) v_addr p_addr sz) s
                     else (None, s))
               else ask E (Sys_dma_buf_sync (mFD ion) (DMA_BUF_SYNC_RW E OR DMA_BUF_SYNC_END E)) s) s
      in (ret, s))"

definition invalid_ion_buffer :: "env \<Rightarrow> vdsp_ion \<Rightarrow> xrp_state \<Rightarrow> i32 \<times> xrp_state" where
  "invalid_ion_buffer E ion s =
     (let (ret, _, s) = with_own_device ion (\<lambda>s.
            let (legacy, s) = is_ion_legacy E ion s
            in if legacy then ask E (Sys_ion_invalidate (mIonDeviceFd ion) (mFD ion)) s
               else ask E (Sys_dma_buf_sync (mFD ion) (DMA_BUF_SYNC_READ E)) s) s
      in (ret, s))"

definition sync_ion_buffer :: "env \<Rightarrow> vdsp_ion \<Rightarrow> xrp_state \<Rightarrow> i32 \<times> xrp_state" where
  "sync_ion_buffer E ion s =
     (let (ret, _, s) = with_own_device ion (\<lambda>s.
            let (legacy, s) = is_ion_legacy E ion s
            in if legacy then ask E (Sys_ion_sync (mIonDeviceFd ion) (mIonHandle ion) (mFD ion)) s
               else ask E (Sys_dma_buf_sync (mFD ion) (DMA_BUF_SYNC_RW E OR DMA_BUF_SYNC_END E)) s) s
      in (ret, s))"

section \<open>Kernel mappings\<close>

definition Get_kaddr ::
    "env \<Rightarrow> i32 \<Rightarrow> xrp_state \<Rightarrow> i32 \<times> (64 word \<times> size_t) option \<times> xrp_state" where
  "Get_kaddr E buffer_fd s =
     (let (ret, r, s) = with_ion_device E (\<lambda>fd s.
            let (legacy, s) = Is_ion_legacy E fd s
            in if legacy then ask E (Sys_ion_map_kernel fd buffer_fd) s else (None, s)) s
      in (ret, map_option (\<lambda>a. (ans_addr a, ans_size a)) r, s))"

definition get_kaddr ::
    "env \<Rightarrow> vdsp_ion \<Rightarrow> xrp_state \<Rightarrow> i32 \<times> (64 word \<times> size_t) option \<times> xrp_state" where
  "get_kaddr E ion s =
     (let (ret, r, s) = with_own_device ion (\<lambda>s.
            let (legacy, s) = is_ion_legacy E ion s
            in if legacy then ask E (Sys_ion_map_kernel (mIonDeviceFd ion) (mFD ion)) s else (None, s)) s
      in (ret, map_option (\<lambda>a. (ans_addr a, ans_size a)) r, s))"

definition Free_kaddr :: "env \<Rightarrow> i32 \<Rightarrow> xrp_state \<Rightarrow> i32 \<times> xrp_state" where
  "Free_kaddr E buffer_fd s =
     (let (ret, _, s) = with_ion_device E (\<lambda>fd s.
            let (legacy, s) = Is_ion_legacy E fd s
            in if legacy then ask E (Sys_ion_unmap_kernel fd buffer_fd) s else (None, s)) s
      in (ret, s))"

definition free_kaddr :: "env \<Rightarrow> vdsp_ion \<Rightarrow> xrp_state \<Rightarrow> i32 \<times> xrp_state" where
  "free_kaddr E ion s =
     (let (ret, _, s) = with_own_device ion (\<lambda>s.
            let (legacy, s) = is_ion_legacy E ion s
            in if legacy then ask E (Sys_ion_unmap_kernel (mIonDeviceFd ion) (mFD ion)) s else (None, s)) s
      in (ret, s))"

section \<open>The wrappers\<close>

text \<open>The result carries the handle, the descriptor, the address and the physical address, the
  last one only when it was written.\<close>

definition vdsp_alloc_ionmem2 ::
    "env \<Rightarrow> u32 \<Rightarrow> byte \<Rightarrow> xrp_state \<Rightarrow> (ptr \<times> i32 \<times> ptr \<times> 64 word option \<times> xrp_state) option" where
  "vdsp_alloc_ionmem2 E sz iscache s =
     (let (pHeapIon, s) = malloc E s
      in if pHeapIon = 0 then None
         else let (ion, s) =
                (if iscache \<noteq> 0
                 then VdspIon E ''/dev/ion'' (ucast sz) 0
                        (push_bit 31 1 OR ION_HEAP_ID_MASK_CAM E OR ION_FLAG_NO_CLEAR E) s
                 else VdspIon E ''/dev/ion'' (ucast sz) NO_CACHING
                        (ION_HEAP_ID_MASK_CAM E OR ION_FLAG_NO_CLEAR E) s);
                  s = s\<lparr>ions := (ions s)(pHeapIon \<mapsto> ion)\<rparr>;
                  (_, phy, s) = get_phy_addr_from_ion E ion s
              in Some (pHeapIon, getHeapID ion, getBase ion, map_option fst phy, s))"

definition vdsp_flush_ionmem ::
    "env \<Rightarrow> ptr \<Rightarrow> ptr \<Rightarrow> ptr \<Rightarrow> u32 \<Rightarrow> xrp_state \<Rightarrow> (sprd_vdsp_status \<times> xrp_state) option" where
  "vdsp_flush_ionmem E handle vaddr paddr sz s =
     (if handle \<noteq> 0
      then do { ion \<leftarrow> ions s handle;
                let (ret, s) = Flush_ion_buffer E (getHeapID ion) vaddr paddr (ucast sz) s;
                Some (if ret = 0 then SPRD_XRP_STATUS_SUCCESS else SPRD_XRP_STATUS_FAILURE, s) }
      else Some (SPRD_XRP_STATUS_FAILURE, s))"

definition vdsp_invalid_ionmem :: "env \<Rightarrow> ptr \<Rightarrow> xrp_state \<Rightarrow> (sprd_vdsp_status \<times> xrp_state) option" where
  "vdsp_invalid_ionmem E handle s =
     (if handle \<noteq> 0
      then do { ion \<leftarrow> ions s handle;
                let (ret, s) = Invalid_ion_buffer E (getHeapID ion) s;
                Some (if ret = 0 then SPRD_XRP_STATUS_SUCCESS else SPRD_XRP_STATUS_FAILURE, s) }
      else Some (SPRD_XRP_STATUS_FAILURE, s))"

text \<open>sprd_vdsp_ion.cpp has its own copies, exported to clients.\<close>

definition sprd_alloc_ionmem ::
    "env \<Rightarrow> u32 \<Rightarrow> byte \<Rightarrow> xrp_state \<Rightarrow> (ptr \<times> i32 \<times> ptr \<times> xrp_state) option" where
  "sprd_alloc_ionmem E sz iscache s =
     (let (pHeapIon, s) = malloc E s
      in if pHeapIon = 0 then None
         else let (ion, s) =
                (if iscache \<noteq> 0
                 then VdspIon E ''/dev/ion'' (ucast sz) 0
                        (push_bit 31 1 OR ION_HEAP_ID_MASK_SYSTEM E OR ION_FLAG_NO_CLEAR E) s
                 else VdspIon E ''/dev/ion'' (ucast sz) NO_CACHING
                        (ION_HEAP_ID_MASK_SYSTEM E OR ION_FLAG_NO_CLEAR E) s)
              in Some (pHeapIon, getHeapID ion, getBase ion, s\<lparr>ions := (ions s)(pHeapIon \<mapsto> ion)\<rparr>))"

definition sprd_alloc_ionmem2 ::
    "env \<Rightarrow> u32 \<Rightarrow> byte \<Rightarrow> xrp_state \<Rightarrow> (ptr \<times> i32 \<times> ptr \<times> 64 word option \<times> xrp_state) option" where
  "sprd_alloc_ionmem2 E sz iscache s =
     (let (pHeapIon, s) = malloc E s
      in if pHeapIon = 0 then None
         else let (ion, s) =
                (if iscache \<noteq> 0
                 then VdspIon E ''/dev/ion'' (ucast sz) 0
                        (push_bit 31 1 OR ION_HEAP_ID_MASK_CAM E OR ION_FLAG_NO_CLEAR E) s
                 else VdspIon E ''/dev/ion'' (ucast sz) NO_CACHING
                        (ION_HEAP_ID_MASK_CAM E OR ION_FLAG_NO_CLEAR E) s);
                  s = s\<lparr>ions := (ions s)(pHeapIon \<mapsto> ion)\<rparr>;
                  (_, phy, s) = get_phy_addr_from_ion E ion s
              in Some (pHeapIon, getHeapID ion, getBase ion, map_option fst phy, s))"

definition sprd_flush_ionmem ::
    "env \<Rightarrow> ptr \<Rightarrow> ptr \<Rightarrow> ptr \<Rightarrow> u32 \<Rightarrow> xrp_state \<Rightarrow> (sprd_vdsp_status \<times> xrp_state) option" where
  "sprd_flush_ionmem E handle vaddr paddr sz s =
     (if handle \<noteq> 0
      then do { ion \<leftarrow> ions s handle;
                let (ret, s) = Flush_ion_buffer E (getHeapID ion) vaddr paddr (ucast sz) s;
                Some (if ret = 0 then SPRD_XRP_STATUS_SUCCESS else SPRD_XRP_STATUS_FAILURE, s) }
      else Some (SPRD_XRP_STATUS_FAILURE, s))"

definition sprd_invalid_ionmem :: "env \<Rightarrow> ptr \<Rightarrow> xrp_state \<Rightarrow> (sprd_vdsp_status \<times> xrp_state) option" where
  "sprd_invalid_ionmem E handle s =
     (if handle \<noteq> 0
      then do { ion \<leftarrow> ions s handle;
                let (ret, s) = Invalid_ion_buffer E (getHeapID ion) s;
                Some (if ret = 0 then SPRD_XRP_STATUS_SUCCESS else SPRD_XRP_STATUS_FAILURE, s) }
      else Some (SPRD_XRP_STATUS_FAILURE, s))"

definition sprd_free_ionmem :: "env \<Rightarrow> ptr \<Rightarrow> xrp_state \<Rightarrow> (sprd_vdsp_status \<times> xrp_state) option" where
  "sprd_free_ionmem E handle s =
     (if handle \<noteq> 0 then
        do { ion \<leftarrow> ions s handle;
             let s = VdspIon_dtor E ion s;
             Some (SPRD_XRP_STATUS_SUCCESS, s\<lparr>ions := (ions s)(handle := None)\<rparr>) }
      else Some (SPRD_XRP_STATUS_FAILURE, s))"

section \<open>The static operations leave the kernel as they found it\<close>

text \<open>A request that neither obtains nor gives back a kernel resource.\<close>

definition neutral :: "env \<Rightarrow> (xrp_state \<Rightarrow> 'a \<times> xrp_state) \<Rightarrow> bool" where
  "neutral E f \<longleftrightarrow> (\<forall>s. held E (trace (snd (f s))) = held E (trace s) \<and> same_but_trace s (snd (f s)))"

lemma neutral_trace: "neutral E f \<Longrightarrow> held E (trace (snd (f s))) = held E (trace s)"
  by (simp add: neutral_def)

lemma neutral_frame: "neutral E f \<Longrightarrow> same_but_trace s (snd (f s))"
  by (simp add: neutral_def)

lemma same_but_trace_trans: "same_but_trace s t \<Longrightarrow> same_but_trace t u \<Longrightarrow> same_but_trace s u"
  by (cases s, cases t, cases u) (simp add: same_but_trace_def)

lemma neutral_ask: "(\<And>h. gains E h c = {#}) \<Longrightarrow> losses c = {#} \<Longrightarrow> neutral E (ask E c)"
  by (simp add: neutral_def ask_def sys_def Let_def held_snoc)

lemma neutral_legacy: "neutral E (Is_ion_legacy E fd)" "neutral E (is_ion_legacy E ion)"
  by (simp_all add: neutral_def Is_ion_legacy_def is_ion_legacy_def sys_def Let_def held_snoc
      gains_def losses_def)

lemma neutral_let:
  assumes "neutral E f" and "\<And>x. neutral E (g x)"
  shows "neutral E (\<lambda>s. let (x, s) = f s in g x s)"
  unfolding neutral_def
proof (intro allI conjI)
  fix s
  obtain x t where f: "f s = (x, t)" by (cases "f s")
  show "held E (trace (snd (let (x, s) = f s in g x s))) = held E (trace s)"
    using neutral_trace [OF assms(1), of s] neutral_trace [OF assms(2), of x t] by (simp add: f)
  show "same_but_trace s (snd (let (x, s) = f s in g x s))"
    using neutral_frame [OF assms(1), of s] neutral_frame [OF assms(2), of t x]
    by (auto simp: f intro: same_but_trace_trans)
qed

lemma neutral_if: "neutral E f \<Longrightarrow> neutral E g \<Longrightarrow> neutral E (\<lambda>s. if b then f s else g s)"
  by (cases b) simp_all

lemma neutral_const: "neutral E (\<lambda>s. (x, s))"
  by (simp add: neutral_def)

lemma neutral_map: "neutral E f \<Longrightarrow> neutral E (\<lambda>s. let (x, s) = f s in (h x, s))"
  by (rule neutral_let) (simp_all add: neutral_const)

text \<open>Opening the device for the call and closing it cancel out.\<close>

lemma with_ion_device_neutral:
  assumes "\<And>fd. neutral E (request fd)"
  shows "held E (trace (snd (snd (with_ion_device E request s)))) = held E (trace s)"
    and "same_but_trace s (snd (snd (with_ion_device E request s)))"
proof -
  let ?a = "env_sys E (trace s) (Sys_open ''/dev/ion'' [O_SYNC])"
  let ?s = "s\<lparr>trace := trace s @ [Sys_open ''/dev/ion'' [O_SYNC]]\<rparr>"
  obtain r t where r: "request (ans_ret ?a) ?s = (r, t)" by (cases "request (ans_ret ?a) ?s")
  have h: "held E (trace t) = held E (trace ?s)" "same_but_trace ?s t"
    using neutral_trace [OF assms, of "ans_ret ?a" ?s] neutral_frame [OF assms, of ?s "ans_ret ?a"] r by simp_all
  then have "same_but_trace s t" using same_but_trace_trans [of s ?s t] by simp
  then show "held E (trace (snd (snd (with_ion_device E request s)))) = held E (trace s)"
    "same_but_trace s (snd (snd (with_ion_device E request s)))"
    using h(1) by (auto simp: with_ion_device_def sys_def r Let_def held_snoc gains_def losses_def)
qed

lemma with_own_device_neutral:
  assumes "neutral E request"
  shows "held E (trace (snd (snd (with_own_device ion request s)))) = held E (trace s)"
    and "same_but_trace s (snd (snd (with_own_device ion request s)))"
  using neutral_trace [OF assms, of s] neutral_frame [OF assms, of s]
  by (auto simp: with_own_device_def Let_def split: prod.splits)

lemmas neutral_intros = neutral_let neutral_legacy neutral_if neutral_const neutral_ask

text \<open>The code of an operation in terms of what the device answered.\<close>

lemma with_ion_device_code:
  "fst (with_ion_device E request s) \<in> {MEMION_NO_ERROR, MEMION_NO_DEV, MEMION_OP_FAILED, MEMION_NOT_SUPPORTED}"
  "fst (with_ion_device E request s) = MEMION_NO_ERROR \<longleftrightarrow>
     (\<exists>a. fst (snd (with_ion_device E request s)) = Some a \<and> ans_ret a = 0)"
  by (auto simp: with_ion_device_def memion_result_def memion_defs Let_def split: prod.splits option.splits)

lemma get_phy_member_neutral:
  "held E (trace (snd (snd (get_phy_addr_from_ion E ion s)))) = held E (trace s)"
  "same_but_trace s (snd (snd (get_phy_addr_from_ion E ion s)))"
proof -
  have n: "neutral E (\<lambda>s. let (legacy, s) = is_ion_legacy E ion s
      in if legacy then ask E (Sys_ion_phys (mIonDeviceFd ion) (mFD ion)) s
         else ask E (Sys_ion_phy (mIonDeviceFd ion) (mFD ion)) s)"
    by (intro neutral_intros) (simp_all add: gains_def losses_def)
  show "held E (trace (snd (snd (get_phy_addr_from_ion E ion s)))) = held E (trace s)"
    "same_but_trace s (snd (snd (get_phy_addr_from_ion E ion s)))"
    using with_own_device_neutral [OF n] by (simp_all add: get_phy_addr_from_ion_def Let_def case_prod_beta)
qed

lemma flush_static_neutral: "held E (trace (snd (Flush_ion_buffer E fd v p n s))) = held E (trace s)"
proof -
  have "neutral E (\<lambda>s. let (legacy, s) = Is_ion_legacy E d s
      in if legacy then ask E (Sys_ion_msync d fd v p n) s
         else ask E (Sys_dma_buf_sync fd (DMA_BUF_SYNC_RW E OR DMA_BUF_SYNC_END E)) s)" for d
    by (intro neutral_intros) (simp_all add: gains_def losses_def)
  from with_ion_device_neutral(1) [OF this] show ?thesis
    by (simp add: Flush_ion_buffer_def Let_def case_prod_beta)
qed

lemma invalid_static_neutral: "held E (trace (snd (Invalid_ion_buffer E fd s))) = held E (trace s)"
proof -
  have "neutral E (\<lambda>s. let (legacy, s) = Is_ion_legacy E d s
      in if legacy then ask E (Sys_ion_invalidate d fd) s
         else ask E (Sys_dma_buf_sync fd (DMA_BUF_SYNC_READ E)) s)" for d
    by (intro neutral_intros) (simp_all add: gains_def losses_def)
  from with_ion_device_neutral(1) [OF this] show ?thesis
    by (simp add: Invalid_ion_buffer_def Let_def case_prod_beta)
qed

lemma sync_static_neutral: "held E (trace (snd (Sync_ion_buffer E fd s))) = held E (trace s)"
proof -
  have "neutral E (\<lambda>s. let (legacy, s) = Is_ion_legacy E d s
      in if legacy then ask E (Sys_ion_sync d (- 1) fd) s
         else ask E (Sys_dma_buf_sync fd (DMA_BUF_SYNC_RW E OR DMA_BUF_SYNC_END E)) s)" for d
    by (intro neutral_intros) (simp_all add: gains_def losses_def)
  from with_ion_device_neutral(1) [OF this] show ?thesis
    by (simp add: Sync_ion_buffer_def Let_def case_prod_beta)
qed

lemma phys_static_neutral: "held E (trace (snd (snd (Get_phy_addr_from_ion E fd s)))) = held E (trace s)"
proof -
  have "neutral E (\<lambda>s. let (legacy, s) = Is_ion_legacy E d s
      in if legacy then ask E (Sys_ion_phys d fd) s else ask E (Sys_ion_phy d fd) s)" for d
    by (intro neutral_intros) (simp_all add: gains_def losses_def)
  from with_ion_device_neutral(1) [OF this] show ?thesis
    by (simp add: Get_phy_addr_from_ion_def Let_def case_prod_beta)
qed

lemma kaddr_static_neutral:
  "held E (trace (snd (snd (Get_kaddr E fd s)))) = held E (trace s)"
  "held E (trace (snd (Free_kaddr E fd s))) = held E (trace s)"
proof -
  have "neutral E (\<lambda>s. let (legacy, s) = Is_ion_legacy E d s
      in if legacy then ask E (Sys_ion_map_kernel d fd) s else (None, s))" for d
    by (intro neutral_intros) (simp_all add: gains_def losses_def)
  from with_ion_device_neutral(1) [OF this]
  show "held E (trace (snd (snd (Get_kaddr E fd s)))) = held E (trace s)"
    by (simp add: Get_kaddr_def Let_def case_prod_beta)
  have "neutral E (\<lambda>s. let (legacy, s) = Is_ion_legacy E d s
      in if legacy then ask E (Sys_ion_unmap_kernel d fd) s else (None, s))" for d
    by (intro neutral_intros) (simp_all add: gains_def losses_def)
  from with_ion_device_neutral(1) [OF this]
  show "held E (trace (snd (Free_kaddr E fd s))) = held E (trace s)"
    by (simp add: Free_kaddr_def Let_def case_prod_beta)
qed

section \<open>Flushing\<close>

lemma flush_in_range_iff:
  assumes "unat (mBase ion) + unat (mSize ion) < 2 ^ 64" and "unat v + unat n < 2 ^ 64"
  shows "flush_in_range ion v n \<longleftrightarrow>
    unat (mBase ion) \<le> unat v \<and> unat v + unat n \<le> unat (mBase ion) + unat (mSize ion)"
proof -
  have "unat (v + n) = unat v + unat n" "unat (mBase ion + mSize ion) = unat (mBase ion) + unat (mSize ion)"
    using assms by (simp_all add: unat_word_ariths)
  then show ?thesis by (auto simp: flush_in_range_def not_less word_le_nat_alt word_less_nat_alt)
qed

section \<open>The two sets of wrappers agree\<close>

lemma sprd_copies:
  "sprd_alloc_ionmem = vdsp_alloc_ionmem" "sprd_alloc_ionmem2 = vdsp_alloc_ionmem2"
  "sprd_flush_ionmem = vdsp_flush_ionmem" "sprd_invalid_ionmem = vdsp_invalid_ionmem"
  "sprd_free_ionmem = vdsp_free_ionmem"
  by (simp_all add: fun_eq_iff sprd_alloc_ionmem_def vdsp_alloc_ionmem_def sprd_alloc_ionmem2_def
      vdsp_alloc_ionmem2_def sprd_flush_ionmem_def vdsp_flush_ionmem_def sprd_invalid_ionmem_def
      vdsp_invalid_ionmem_def sprd_free_ionmem_def vdsp_free_ionmem_def getHeapID_def getBase_def Let_def case_prod_beta)

section \<open>Properties\<close>

text \<open>The operations that open the ion device for their own use (physical address,
  flush, invalidate, sync, kernel map and unmap) hold the same kernel resources after the call
  as before it, on every path, the unsupported ones and the failing ioctls included.\<close>

theorem ion_static_calls_balanced:
  "held E (trace (snd (snd (Get_phy_addr_from_ion E fd s)))) = held E (trace s) \<and>
   held E (trace (snd (Flush_ion_buffer E fd v p n s))) = held E (trace s) \<and>
   held E (trace (snd (Invalid_ion_buffer E fd s))) = held E (trace s) \<and>
   held E (trace (snd (Sync_ion_buffer E fd s))) = held E (trace s) \<and>
   held E (trace (snd (snd (Get_kaddr E fd s)))) = held E (trace s) \<and>
   held E (trace (snd (Free_kaddr E fd s))) = held E (trace s)"
  by (simp add: phys_static_neutral flush_static_neutral invalid_static_neutral sync_static_neutral
      kaddr_static_neutral)

text \<open>Flushing a live allocation on a kernel that opens its ion device makes exactly
  four calls - open, version, the flush of the interface the version selects, close - and
  reports success exactly when the flush was answered with 0.\<close>

theorem flush_ionmem_calls:
  assumes "h \<noteq> 0" and "ions s h = Some ion"
    and "dev = env_sys E (trace s) (Sys_open ''/dev/ion'' [O_SYNC])" and "0 \<le> sint (ans_ret dev)"
    and "tr1 = trace s @ [Sys_open ''/dev/ion'' [O_SYNC]]"
    and "ver = env_sys E tr1 (Sys_ion_version (ans_ret dev))"
    and "c = (if ans_ret ver \<noteq> 0 then Sys_ion_msync (ans_ret dev) (mFD ion) va pa (ucast n)
              else Sys_dma_buf_sync (mFD ion) (DMA_BUF_SYNC_RW E OR DMA_BUF_SYNC_END E))"
    and "tr2 = tr1 @ [Sys_ion_version (ans_ret dev)]"
  shows "vdsp_flush_ionmem E h va pa n s =
    Some (if ans_ret (env_sys E tr2 c) = 0 then SPRD_XRP_STATUS_SUCCESS else SPRD_XRP_STATUS_FAILURE,
          s\<lparr>trace := tr2 @ [c, Sys_close (ans_ret dev)]\<rparr>)"
  using assms
  by (simp add: vdsp_flush_ionmem_def Flush_ion_buffer_def with_ion_device_def sys_def Is_ion_legacy_def
      ask_def memion_result_def memion_defs getHeapID_def Let_def)

lemma flush_ionmem_calls_witness:
  "\<exists>s t. vdsp_flush_ionmem sample_env 0x1000 0 0 16 s = Some (SPRD_XRP_STATUS_FAILURE, t) \<and>
     trace t = [Sys_open ''/dev/ion'' [O_SYNC], Sys_ion_version 3, Sys_dma_buf_sync 7 7, Sys_close 3]"
proof -
  let ?s = "init_state\<lparr>ions := [0x1000 \<mapsto> empty_ion\<lparr>mFD := 7\<rparr>]\<rparr>"
  have "vdsp_flush_ionmem sample_env 0x1000 0 0 16 ?s = Some (SPRD_XRP_STATUS_FAILURE,
      ?s\<lparr>trace := [Sys_open ''/dev/ion'' [O_SYNC], Sys_ion_version 3, Sys_dma_buf_sync 7 7, Sys_close 3]\<rparr>)"
    using flush_ionmem_calls [where h = "0x1000" and s = ?s and ion = "empty_ion\<lparr>mFD := 7\<rparr>" and dev = granted
        and E = sample_env and ver = "granted\<lparr>ans_ret := 0\<rparr>" and c = "Sys_dma_buf_sync 7 7"
        and va = 0 and pa = 0 and n = 16, OF _ _ _ _ refl _ _ refl]
    by (simp add: sample_answer granted_def init_state_def) (simp add: sample_env_def)
  then show ?thesis by fastforce
qed

text \<open>For a range whose end does not wrap around the address space, the range check
  of \<open>flush_ion_buffer\<close> accepts exactly the ranges inside the mapping; where the end wraps it
  accepts a length that is larger than the whole mapping.\<close>

theorem flush_range_check:
  "(\<forall>ion v n. unat (mBase ion) + unat (mSize ion) < 2 ^ 64 \<longrightarrow> unat v + unat n < 2 ^ 64 \<longrightarrow>
      (flush_in_range ion v n \<longleftrightarrow>
        unat (mBase ion) \<le> unat v \<and> unat v + unat n \<le> unat (mBase ion) + unat (mSize ion)))
   \<and> (\<exists>ion v n. mSize ion < n \<and> flush_in_range ion v n)"
proof -
  have "flush_in_range (empty_ion\<lparr>mBase := 0x1000, mSize := 0x1000\<rparr>) 0x1800 (- 0x800)"
    by (simp add: flush_in_range_def)
  moreover have "mSize (empty_ion\<lparr>mBase := 0x1000, mSize := 0x1000\<rparr>) < - 0x800" by simp
  ultimately show ?thesis using flush_in_range_iff by blast
qed

lemma flush_range_check_witness:
  "\<not> flush_in_range (empty_ion\<lparr>mBase := 0x1000, mSize := 0x1000\<rparr>) 0x1800 0x801 \<and>
   flush_in_range (empty_ion\<lparr>mBase := 0x1000, mSize := 0x1000\<rparr>) 0x1800 0x800"
  using conjunct1 [OF flush_range_check, rule_format, of "empty_ion\<lparr>mBase := 0x1000, mSize := 0x1000\<rparr>" "0x1800" "0x801"]
    conjunct1 [OF flush_range_check, rule_format, of "empty_ion\<lparr>mBase := 0x1000, mSize := 0x1000\<rparr>" "0x1800" "0x800"]
  by (simp add: empty_ion_def)

text \<open>The copies of the ion wrappers in sprd_vdsp_ion.cpp, which clients link
  against, behave as those of vdsp_ion.cpp, which the library uses.\<close>

theorem sprd_ion_equivalent:
  "sprd_alloc_ionmem E n c s = vdsp_alloc_ionmem E n c s \<and>
   sprd_alloc_ionmem2 E n c s = vdsp_alloc_ionmem2 E n c s \<and>
   sprd_flush_ionmem E h v p n s = vdsp_flush_ionmem E h v p n s \<and>
   sprd_invalid_ionmem E h s = vdsp_invalid_ionmem E h s \<and>
   sprd_free_ionmem E h s = vdsp_free_ionmem E h s"
  by (simp add: sprd_copies)

end
