(* ===== verification/Image_Loops.thy ===== *)
theory Image_Loops
  imports Vdsp_Prelude
begin

text \<open>
  What the image code of the system tests shares: C arithmetic on \<open>int\<close> (overflow is undefined, so it
  makes the call \<^const>\<open>None\<close>), arrays with their bounds, loops as folds over the values of the loop
  variables, and files as lists of bytes. The tests are built for 32-bit ARM (Android_back.mk), so
  \<open>long\<close> and \<open>size_t\<close> have 32 bits.

  A null pointer that \<open>malloc\<close> or \<open>calloc\<close> returned is the empty array: each access through it is out of bounds.
\<close>

section \<open>Arithmetic and arrays\<close>

definition ckd :: "int \<Rightarrow> int option" where
  "ckd v = (if - 2147483648 \<le> v \<and> v < 2147483648 then Some v else None)"

definition aget :: "'a list \<Rightarrow> nat \<Rightarrow> 'a option" where
  "aget a i = (if i < length a then Some (a ! i) else None)"

definition aput :: "nat \<Rightarrow> 'a \<Rightarrow> 'a list \<Rightarrow> 'a list option" where
  "aput i v a = (if i < length a then Some (a[i := v]) else None)"

text \<open>\<open>mem\<close> says for which numbers of bytes there is memory.\<close>

definition calloc_n :: "(nat \<Rightarrow> bool) \<Rightarrow> int \<Rightarrow> nat \<Rightarrow> 'a \<Rightarrow> 'a list" where
  "calloc_n mem n w zero =
     (let k = nat (n mod 2 ^ 32) in if k * w < 2 ^ 32 \<and> mem (k * w) then replicate k zero else [])"

lemma ckd_Some [simp]: "ckd v = Some u \<longleftrightarrow> u = v \<and> - 2147483648 \<le> v \<and> v < 2147483648"
  by (auto simp: ckd_def)

lemma ckd_None [simp]: "ckd v = None \<longleftrightarrow> \<not> (- 2147483648 \<le> v \<and> v < 2147483648)"
  by (auto simp: ckd_def)

lemma aget_Some [simp]: "aget a i = Some v \<longleftrightarrow> i < length a \<and> v = a ! i"
  by (auto simp: aget_def)

lemma aput_Some [simp]: "aput i v a = Some b \<longleftrightarrow> i < length a \<and> b = a[i := v]"
  by (auto simp: aput_def)

lemma aget_in: "i < length a \<Longrightarrow> aget a i = Some (a ! i)"
  by simp

lemma aput_in: "i < length a \<Longrightarrow> aput i v a = Some (a[i := v])"
  by simp

section \<open>Loops\<close>

text \<open>A loop that runs \<open>f\<close> for each value of its variable, in order.\<close>

primrec foreach :: "('x \<Rightarrow> 's \<Rightarrow> 's option) \<Rightarrow> 'x list \<Rightarrow> 's \<Rightarrow> 's option" where
  "foreach f [] s = Some s"
| "foreach f (x # xs) s = do { s \<leftarrow> f x s; foreach f xs s }"

text \<open>The values of the two variables of a nested loop: rows outside, columns inside.\<close>

definition pixels :: "nat \<Rightarrow> nat \<Rightarrow> (nat \<times> nat) list" where
  "pixels w h = List.product [0..<h] [0..<w]"

lemma foreach_append: "foreach f (xs @ ys) s = do { s \<leftarrow> foreach f xs s; foreach f ys s }"
  by (induction xs arbitrary: s) (simp_all add: Option.bind_assoc)

lemma set_pixels [simp]: "set (pixels w h) = {..<h} \<times> {..<w}"
  by (auto simp: pixels_def)

lemma distinct_pixels [simp]: "distinct (pixels w h)"
  by (simp add: pixels_def distinct_product)

lemma pixel_index: "i < h \<Longrightarrow> j < w \<Longrightarrow> i * w + j < w * h" for i j w h :: nat
proof -
  assume "i < h" "j < w"
  then have "i * w + j < i * w + w" by simp
  also have "\<dots> = Suc i * w" by simp
  also have "\<dots> \<le> h * w" using \<open>i < h\<close> by (intro mult_le_mono1) simp
  finally show ?thesis by (simp add: mult.commute)
qed

lemma pixel_unique: "j < w \<Longrightarrow> j' < w \<Longrightarrow> i * w + j = i' * w + j' \<longleftrightarrow> i = i' \<and> j = j'" for i j w :: nat
  by (metis add.commute div_mult_self3 div_less mod_less mod_mult_self2 add_cancel_right_right
      less_nat_zero_code mod_mult_self3 nat_neq_iff)

lemma pixel_of: "k < w * h \<Longrightarrow> \<exists>i j. i < h \<and> j < w \<and> k = i * w + j" for k w h :: nat
  by (metis div_mult_mod_eq less_mult_imp_div_less mod_less_divisor mult.commute mult_zero_left not_less_zero zero_less_iff_neq_zero)

section \<open>Loops that fill an array\<close>

lemma foreach_put:
  assumes "\<And>x. x \<in> set xs \<Longrightarrow> k x < length a \<and> rd x = Some (v x)"
  shows "\<exists>b. foreach (\<lambda>x a. do { y \<leftarrow> rd x; aput (k x) y a }) xs a = Some b \<and> length b = length a \<and>
    (\<forall>n. n \<notin> k ` set xs \<longrightarrow> b ! n = a ! n) \<and>
    (inj_on k (set xs) \<longrightarrow> (\<forall>x\<in>set xs. b ! k x = v x))"
  using assms
proof (induction xs arbitrary: a)
  case Nil
  then show ?case by simp
next
  case (Cons x xs)
  have x: "k x < length a" "rd x = Some (v x)" using Cons.prems [of x] by simp_all
  obtain b where b: "foreach (\<lambda>x a. do { y \<leftarrow> rd x; aput (k x) y a }) xs (a[k x := v x]) = Some b" "length b = length a"
      "\<forall>n. n \<notin> k ` set xs \<longrightarrow> b ! n = a[k x := v x] ! n" "inj_on k (set xs) \<longrightarrow> (\<forall>x\<in>set xs. b ! k x = v x)"
    using Cons.IH [of "a[k x := v x]"] Cons.prems by auto
  have "b ! k y = v y" if "inj_on k (set (x # xs))" "y \<in> set (x # xs)" for y
  proof (cases "y \<in> set xs")
    case True
    then show ?thesis using b(4) that(1) by (auto simp: inj_on_def)
  next
    case False
    then have "y = x" "k x \<notin> k ` set xs" using that by (auto simp: inj_on_def)
    then show ?thesis using b(3) x(1) by simp
  qed
  moreover have "b ! n = a ! n" if "n \<notin> k ` set (x # xs)" for n using b(3) that by simp
  ultimately show ?case using b(1,2) x by (intro exI [of _ b]) (simp add: aput_in)
qed

text \<open>A loop that fills a whole plane, at the place \<open>o + i * w + j\<close> for row \<open>i\<close> and column \<open>j\<close>.\<close>

lemma plane_inj: "inj_on (\<lambda>(i, j). d + i * w + j) ({..<h} \<times> {..<w})" for d w h :: nat
  by (auto simp: inj_on_def add.assoc pixel_unique)

section \<open>Files\<close>

definition EOF :: int where "EOF = - 1"

fun fgetc :: "byte list \<Rightarrow> int \<times> byte list" where
  "fgetc [] = (EOF, [])"
| "fgetc (c # f) = (uint c, f)"

definition fputc :: "int \<Rightarrow> byte list \<Rightarrow> byte list" where
  "fputc c f = f @ [word_of_int c]"

text \<open>\<open>fseek\<close> to a position from the start of the file \<open>c\<close>; a negative one leaves the rest \<open>f\<close> to be read.\<close>

definition fseek_set :: "byte list \<Rightarrow> int \<Rightarrow> byte list \<Rightarrow> byte list" where
  "fseek_set c p f = (if p < 0 then f else drop (nat p) c)"

lemma uint_byte: "0 \<le> uint (c :: byte)" "uint (c :: byte) < 256" "uint (c :: byte) \<noteq> EOF"
proof -
  show "0 \<le> uint c" by simp
  show "uint c < 256" using uint_lt2p [of c] by simp
  have "EOF < 0" by (simp add: EOF_def)
  then show "uint c \<noteq> EOF" by (metis uint_ge_0 not_less)
qed

end
