(* ===== verification/Image_Bmp_Io.thy ===== *)
theory Image_Bmp_Io
  imports Image_Loops "HOL-Library.Signed_Division"
begin

text \<open>
  The bitmap files of the depth test (bmp_io.cpp): reading and writing numbers, headers and pixel
  data, and the \<open>SaveImage\<close> functions that write planes of different layouts. An image is written
  from the bottom row to the top, each row filled up to a multiple of four bytes. Writing to a file that
  is open is taken to succeed, as the code does, which never looks at the result of \<open>fputc\<close>.
\<close>

section \<open>Numbers\<close>

definition byte_swap :: int where "byte_swap = 1"

text \<open>The result is the value of \<open>retval\<close>, the number (the old one \<open>v\<close> when the file has ended) and the rest
  of the file.\<close>

definition read_u_short_int :: "16 word \<Rightarrow> byte list \<Rightarrow> int \<times> 16 word \<times> byte list" where
  "read_u_short_int v filein =
     (if byte_swap = 1 then
        let (clo, filein) = fgetc filein
        in if clo = EOF then (1, v, filein)
           else let (chi, filein) = fgetc filein
                in if chi = EOF then (1, v, filein)
                   else (0, word_of_int (push_bit 8 chi OR clo), filein)
      else
        let (chi, filein) = fgetc filein
        in if chi = EOF then (1, v, filein)
           else let (clo, filein) = fgetc filein
                in if clo = EOF then (1, v, filein)
                   else (0, word_of_int (push_bit 8 chi OR clo), filein))"

definition read_u_long_int :: "u32 \<Rightarrow> byte list \<Rightarrow> int \<times> u32 \<times> byte list" where
  "read_u_long_int v filein =
     (let (retval, n1, filein) = read_u_short_int 0 filein
      in if retval \<noteq> 0 then (1, v, filein)
         else let (retval, n2, filein) = read_u_short_int 0 filein
              in if retval \<noteq> 0 then (1, v, filein)
                 else let (hi, lo) = (if byte_swap = 1 then (n2, n1) else (n1, n2))
                      in (0, push_bit 16 (ucast hi) OR ucast lo, filein))"

definition write_u_short_int :: "16 word \<Rightarrow> byte list \<Rightarrow> byte list" where
  "write_u_short_int v fileout =
     (let chi = (ucast (v div 256) :: byte); clo = (ucast (v mod 256) :: byte)
      in if byte_swap = 1 then fputc (uint chi) (fputc (uint clo) fileout)
         else fputc (uint clo) (fputc (uint chi) fileout))"

definition write_u_long_int :: "u32 \<Rightarrow> byte list \<Rightarrow> byte list" where
  "write_u_long_int v fileout =
     (let hi = (ucast (v div 65536) :: 16 word); lo = (ucast (v mod 65536) :: 16 word)
      in if byte_swap = 1 then write_u_short_int hi (write_u_short_int lo fileout)
         else write_u_short_int lo (write_u_short_int hi fileout))"

section \<open>The header\<close>

record bmp_header =
  bh_file :: "byte list"
  bh_xsize :: int
  bh_ysize :: int
  bh_psize :: int

text \<open>Steps that end with a result other than 0 end the whole with 1.\<close>

primrec steps :: "(bmp_header \<Rightarrow> int \<times> bmp_header) list \<Rightarrow> bmp_header \<Rightarrow> int \<times> bmp_header" where
  "steps [] h = (0, h)"
| "steps (f # fs) h = (let (retval, h) = f h in if retval \<noteq> 0 then (1, h) else steps fs h)"

definition magic :: "bmp_header \<Rightarrow> int \<times> bmp_header" where
  "magic h =
     (let (c1, f) = fgetc (bh_file h)
      in if c1 = EOF then (1, h\<lparr>bh_file := f\<rparr>)
         else let (c2, f) = fgetc f
              in if c2 = EOF then (1, h\<lparr>bh_file := f\<rparr>)
                 else if c1 \<noteq> 66 \<or> c2 \<noteq> 77 then (1, h\<lparr>bh_file := f\<rparr>)
                 else (0, h\<lparr>bh_file := f\<rparr>))"

definition short :: "bmp_header \<Rightarrow> int \<times> bmp_header" where
  "short h = (let (retval, _, f) = read_u_short_int 0 (bh_file h) in (retval, h\<lparr>bh_file := f\<rparr>))"

text \<open>\<open>store\<close> stores the number that was read, as an \<open>int\<close>.\<close>

definition long :: "(int \<Rightarrow> bmp_header \<Rightarrow> bmp_header) \<Rightarrow> bmp_header \<Rightarrow> int \<times> bmp_header" where
  "long store h =
     (let (retval, v, f) = read_u_long_int 0 (bh_file h); h = h\<lparr>bh_file := f\<rparr>
      in if retval \<noteq> 0 then (retval, h) else (0, store (sint v) h))"

definition bmp_read_header :: "bmp_header \<Rightarrow> int \<times> bmp_header" where
  "bmp_read_header =
     steps [magic, long (\<lambda>_ h. h), short, short, long (\<lambda>v. bh_psize_update (\<lambda>_. v)),
       long (\<lambda>_ h. h), long (\<lambda>v. bh_xsize_update (\<lambda>_. v)), long (\<lambda>v. bh_ysize_update (\<lambda>_. v)),
       short, short, long (\<lambda>_ h. h), long (\<lambda>_ h. h), long (\<lambda>_ h. h), long (\<lambda>_ h. h),
       long (\<lambda>_ h. h), long (\<lambda>_ h. h)]"

definition bmp_write_header :: "byte list \<Rightarrow> int \<Rightarrow> int \<Rightarrow> byte list option" where
  "bmp_write_header fileout xsize ysize =
     do { t \<leftarrow> ckd (3 * xsize);
          t \<leftarrow> ckd (t * ysize);
          sz \<leftarrow> ckd (t + 54);
          let f = fputc 77 (fputc 66 fileout);
          let f = write_u_long_int (word_of_int sz) f;
          let f = write_u_short_int 0 (write_u_short_int 0 f);
          let f = write_u_long_int 54 f;
          let f = write_u_long_int 40 f;
          let f = write_u_long_int (word_of_int xsize) f;
          let f = write_u_long_int (word_of_int ysize) f;
          let f = write_u_short_int 1 f;
          let f = write_u_short_int 24 f;
          Some (fold (\<lambda>_. write_u_long_int 0) [0..<6] f) }"

fun bmp_read_palette :: "byte list \<Rightarrow> nat \<Rightarrow> int \<times> byte list" where
  "bmp_read_palette filein 0 = (0, filein)"
| "bmp_read_palette filein (Suc n) =
     (let (c1, f) = fgetc filein in if c1 = EOF then (1, f)
      else let (c2, f) = fgetc f in if c2 = EOF then (1, f)
      else let (c3, f) = fgetc f in if c3 = EOF then (1, f)
      else let (c4, f) = fgetc f in if c4 = EOF then (1, f)
      else bmp_read_palette f n)"

section \<open>The pixels\<close>

text \<open>The planes of red, green and blue.\<close>

type_synonym planes = "int list \<times> int list \<times> int list"

definition row_padding :: "int \<Rightarrow> nat option" where
  "row_padding xsize =
     do { t \<leftarrow> ckd (3 * xsize);
          let padding = (4 - t smod 4) smod 4;
          scanline \<leftarrow> ckd (padding + t);
          Some (nat (scanline - t)) }"

text \<open>A row of \<open>n\<close> pixels that goes to the place \<open>k\<close> of the planes. The test after the third byte reads the first
  pixel of the plane, not the one just stored.\<close>

fun bmp_read_row :: "nat \<Rightarrow> nat \<Rightarrow> planes \<Rightarrow> byte list \<Rightarrow> (int \<times> planes \<times> byte list) option" where
  "bmp_read_row k 0 a filein = Some (0, a, filein)"
| "bmp_read_row k (Suc n) (r, g, b) filein =
     (let (c, f) = fgetc filein in
      do { b \<leftarrow> aput k c b;
           if c = EOF then Some (1, (r, g, b), f)
           else let (c, f) = fgetc f in
             do { g \<leftarrow> aput k c g;
                  if c = EOF then Some (1, (r, g, b), f)
                  else let (c, f) = fgetc f in
                    do { r \<leftarrow> aput k c r;
                         first \<leftarrow> aget r 0;
                         if first = EOF then Some (1, (r, g, b), f)
                         else bmp_read_row (Suc k) n (r, g, b) f } } })"

fun bmp_read_rows :: "nat \<Rightarrow> nat \<Rightarrow> nat \<Rightarrow> planes \<Rightarrow> byte list \<Rightarrow> (int \<times> planes \<times> byte list) option" where
  "bmp_read_rows w pad 0 a filein = Some (0, a, filein)"
| "bmp_read_rows w pad (Suc m) a filein =
     do { (result, a, f) \<leftarrow> bmp_read_row (m * w) w a filein;
          if result \<noteq> 0 then Some (1, a, f) else bmp_read_rows w pad m a (drop pad f) }"

definition bmp_read_data :: "byte list \<Rightarrow> int \<Rightarrow> int \<Rightarrow> planes \<Rightarrow> (int \<times> planes \<times> byte list) option" where
  "bmp_read_data filein xsize ysize a =
     do { pad \<leftarrow> row_padding xsize; bmp_read_rows (nat xsize) pad (nat ysize) a filein }"

fun bmp_write_row :: "nat \<Rightarrow> nat \<Rightarrow> planes \<Rightarrow> byte list \<Rightarrow> byte list option" where
  "bmp_write_row k 0 a f = Some f"
| "bmp_write_row k (Suc n) (r, g, b) f =
     do { vb \<leftarrow> aget b k; vg \<leftarrow> aget g k; vr \<leftarrow> aget r k;
          bmp_write_row (Suc k) n (r, g, b) (fputc vr (fputc vg (fputc vb f))) }"

fun bmp_write_rows :: "nat \<Rightarrow> nat \<Rightarrow> nat \<Rightarrow> planes \<Rightarrow> byte list \<Rightarrow> byte list option" where
  "bmp_write_rows w pad 0 a f = Some f"
| "bmp_write_rows w pad (Suc m) a f =
     do { f \<leftarrow> bmp_write_row (m * w) w a f; bmp_write_rows w pad m a (f @ replicate pad 0) }"

definition bmp_write_data :: "byte list \<Rightarrow> int \<Rightarrow> int \<Rightarrow> planes \<Rightarrow> byte list option" where
  "bmp_write_data fileout xsize ysize a =
     do { pad \<leftarrow> row_padding xsize; bmp_write_rows (nat xsize) pad (nat ysize) a fileout }"

section \<open>Whole files\<close>

text \<open>The output parameters of \<open>bmp_read\<close>.\<close>

record bmp_image =
  bi_xsize :: int
  bi_ysize :: int
  bi_planes :: planes

text \<open>\<open>file\<close> is the content of the file, \<^const>\<open>None\<close> when it cannot be opened. The tests for a failed
  allocation look at the wrong pointer, so they never hold. The number of bytes is computed in \<open>size_t\<close>
  and stored in an \<open>int\<close>, which \<open>calloc\<close> turns into a \<open>size_t\<close> again.\<close>

definition bmp_read :: "(nat \<Rightarrow> bool) \<Rightarrow> byte list option \<Rightarrow> bmp_image \<Rightarrow> (int \<times> bmp_image) option" where
  "bmp_read mem file img =
     (case file of None \<Rightarrow> Some (1, img)
      | Some c \<Rightarrow>
          let (result, h) = bmp_read_header \<lparr>bh_file = c, bh_xsize = bi_xsize img, bh_ysize = bi_ysize img, bh_psize = 0\<rparr>;
              img = img\<lparr>bi_xsize := bh_xsize h, bi_ysize := bh_ysize h\<rparr>
          in if result \<noteq> 0 then Some (1, img)
             else do { n \<leftarrow> ckd (bi_xsize img * bi_ysize img);
                       let filein = fseek_set c (bh_psize h) (bh_file h);
                       let zeros = calloc_n mem (n * 4) 4 0;
                       (result, a, _) \<leftarrow> bmp_read_data filein (bi_xsize img) (bi_ysize img) (zeros, zeros, zeros);
                       Some (if result \<noteq> 0 then 1 else 0, img\<lparr>bi_planes := a\<rparr>) })"

definition bmp_read_test :: "(nat \<Rightarrow> bool) \<Rightarrow> byte list option \<Rightarrow> int option" where
  "bmp_read_test mem file =
     do { (result, _) \<leftarrow> bmp_read mem file \<lparr>bi_xsize = 0, bi_ysize = 0, bi_planes = ([], [], [])\<rparr>;
          Some (if result \<noteq> 0 then 1 else 0) }"

text \<open>\<open>can_open\<close> says whether the file can be opened for writing; the result has its content.\<close>

definition bmp_write :: "bool \<Rightarrow> int \<Rightarrow> int \<Rightarrow> planes \<Rightarrow> (int \<times> byte list) option" where
  "bmp_write can_open xsize ysize a =
     (if \<not> can_open then Some (1, [])
      else do { f \<leftarrow> bmp_write_header [] xsize ysize;
                f \<leftarrow> bmp_write_data f xsize ysize a;
                Some (0, f) })"

text \<open>The test picture: three regions of red, green and blue.\<close>

definition test_colour :: "int \<Rightarrow> int \<Rightarrow> int \<Rightarrow> int \<Rightarrow> int \<times> int \<times> int" where
  "test_colour xsize ysize i j =
     (if j \<ge> i then (255, 0, 0)
      else if (xsize - 1) * j + (ysize - 1) * i \<le> (xsize - 1) * (ysize - 1) then (0, 255, 0)
      else (0, 0, 255))"

definition test_picture :: "(nat \<Rightarrow> bool) \<Rightarrow> planes option" where
  "test_picture mem =
     (let zeros = calloc_n mem (200 * 200 * 4) 4 0
      in foreach (\<lambda>(j2, i) (r, g, b).
             (let (vr, vg, vb) = test_colour 200 200 (int i) (200 - int j2); k = j2 * 200 + i
              in do { r \<leftarrow> aput k vr r; g \<leftarrow> aput k vg g; b \<leftarrow> aput k vb b; Some (r, g, b) }))
           (pixels 200 200) (zeros, zeros, zeros))"

definition bmp_write_test :: "(nat \<Rightarrow> bool) \<Rightarrow> bool \<Rightarrow> (int \<times> byte list) option" where
  "bmp_write_test mem can_open =
     (if calloc_n mem (200 * 200 * 4) 4 (0 :: int) = [] then Some (1, [])
      else do { a \<leftarrow> test_picture mem;
                (result, f) \<leftarrow> bmp_write can_open 200 200 a;
                Some (if result \<noteq> 0 then 1 else 0, f) })"

section \<open>Saving planes\<close>

text \<open>Three planes filled from a reading function of the row and the column, and written.\<close>

definition fill_plane :: "int \<Rightarrow> int \<Rightarrow> (nat \<Rightarrow> nat \<Rightarrow> int option) \<Rightarrow> int list \<Rightarrow> int list option" where
  "fill_plane W H rd save =
     foreach (\<lambda>(i, j) save. do { v \<leftarrow> rd i j; aput (i * nat W + j) v save }) (pixels (nat W) (nat H)) save"

definition save_planes ::
    "(nat \<Rightarrow> bool) \<Rightarrow> bool \<Rightarrow> int \<Rightarrow> int \<Rightarrow> (nat \<Rightarrow> nat \<Rightarrow> int option) \<Rightarrow> (nat \<Rightarrow> nat \<Rightarrow> int option) \<Rightarrow>
      (nat \<Rightarrow> nat \<Rightarrow> int option) \<Rightarrow> (int \<times> byte list) option" where
  "save_planes mem can_open W H rd_r rd_g rd_b =
     do { n \<leftarrow> ckd (W * H);
          let zeros = calloc_n mem n 4 0;
          r \<leftarrow> fill_plane W H rd_r zeros;
          g \<leftarrow> fill_plane W H rd_g zeros;
          b \<leftarrow> fill_plane W H rd_b zeros;
          bmp_write can_open W H (r, g, b) }"

text \<open>Reading at row \<open>i\<close> and column \<open>j\<close> of an array whose rows are \<open>P\<close> apart; a place before the array is out of
  bounds too.\<close>

definition apitch :: "'a list \<Rightarrow> int \<Rightarrow> nat \<Rightarrow> nat \<Rightarrow> 'a option" where
  "apitch a P i j = (if int i * P + int j < 0 then None else aget a (nat (int i * P + int j)))"

definition rd8 :: "byte list \<Rightarrow> nat \<Rightarrow> int option" where
  "rd8 p k = map_option uint (aget p k)"

definition SaveImage :: "(nat \<Rightarrow> bool) \<Rightarrow> bool \<Rightarrow> byte list \<Rightarrow> int \<Rightarrow> int \<Rightarrow> (int \<times> byte list) option" where
  "SaveImage mem can_open p W H =
     save_planes mem can_open W H (\<lambda>i j. rd8 p ((i * nat W + j) * 3)) (\<lambda>i j. rd8 p ((i * nat W + j) * 3 + 1))
       (\<lambda>i j. rd8 p ((i * nat W + j) * 3 + 2))"

definition SaveImage_gray :: "(nat \<Rightarrow> bool) \<Rightarrow> bool \<Rightarrow> byte list \<Rightarrow> int \<Rightarrow> int \<Rightarrow> (int \<times> byte list) option" where
  "SaveImage_gray mem can_open p W H =
     (let rd = \<lambda>i j. rd8 p (i * nat W + j) in save_planes mem can_open W H rd rd rd)"

definition SaveImage_gray2 :: "(nat \<Rightarrow> bool) \<Rightarrow> bool \<Rightarrow> byte list \<Rightarrow> int \<Rightarrow> int \<Rightarrow> int \<Rightarrow> (int \<times> byte list) option" where
  "SaveImage_gray2 mem can_open p W H P =
     (let rd = \<lambda>i j. map_option uint (apitch p P i j) in save_planes mem can_open W H rd rd rd)"

definition SaveImage_3plane ::
    "(nat \<Rightarrow> bool) \<Rightarrow> bool \<Rightarrow> byte list \<Rightarrow> byte list \<Rightarrow> byte list \<Rightarrow> int \<Rightarrow> int \<Rightarrow> (int \<times> byte list) option" where
  "SaveImage_3plane mem can_open R G B W H =
     save_planes mem can_open W H (\<lambda>i j. rd8 R (i * nat W + j)) (\<lambda>i j. rd8 G (i * nat W + j)) (\<lambda>i j. rd8 B (i * nat W + j))"

text \<open>The smallest and the largest value, without the mark 32768 of invalid pixels.\<close>

definition range_u16 :: "16 word list \<Rightarrow> nat \<Rightarrow> nat \<Rightarrow> int \<Rightarrow> (16 word \<times> 16 word) option" where
  "range_u16 p W H P =
     foreach (\<lambda>(i, j) (minV, maxV).
         do { v \<leftarrow> apitch p P i j;
              let minV = (if v \<noteq> 32768 \<and> v < minV then v else minV);
              let maxV = (if v \<noteq> 32768 \<and> v > maxV then v else maxV);
              Some (minV, maxV) }) (pixels W H) (65535, 0)"

text \<open>The division of a flat image is a division by zero.\<close>

definition scale_u16 :: "16 word \<Rightarrow> 16 word \<Rightarrow> 16 word \<Rightarrow> int option" where
  "scale_u16 minV maxV v =
     (if v = 32768 then Some 255
      else if uint maxV - uint minV = 0 then None
      else Some ((255 * (uint v - uint minV)) sdiv (uint maxV - uint minV)))"

definition SaveImage_gray2_u16 :: "(nat \<Rightarrow> bool) \<Rightarrow> bool \<Rightarrow> 16 word list \<Rightarrow> int \<Rightarrow> int \<Rightarrow> int \<Rightarrow> (int \<times> byte list) option" where
  "SaveImage_gray2_u16 mem can_open p W H P =
     do { (minV, maxV) \<leftarrow> range_u16 p (nat W) (nat H) P;
          let rd = (\<lambda>i j. do { v \<leftarrow> apitch p P i j; scale_u16 minV maxV v });
          save_planes mem can_open W H rd rd rd }"

section \<open>Numbers and headers are read back\<close>

definition short_bytes :: "16 word \<Rightarrow> byte list" where
  "short_bytes v = [ucast (v mod 256), ucast (v div 256)]"

definition long_bytes :: "u32 \<Rightarrow> byte list" where
  "long_bytes v = short_bytes (ucast (v mod 65536)) @ short_bytes (ucast (v div 65536))"

lemma join_bytes: "word_of_int (push_bit 8 (uint (ucast (v div 256) :: byte)) OR uint (ucast (v mod 256) :: byte)) = (v :: 16 word)"
proof -
  have d: "v div 256 = drop_bit 8 v" by (simp add: drop_bit_eq_div)
  have m: "v mod 256 = take_bit 8 v" by (simp add: take_bit_eq_mod)
  show ?thesis unfolding d m by (rule bit_word_eqI) (auto simp: bit_simps not_less)
qed

lemma join_shorts: "push_bit 16 (ucast (ucast (v div 65536) :: 16 word)) OR ucast (ucast (v mod 65536) :: 16 word) = (v :: 32 word)"
proof -
  have d: "v div 65536 = drop_bit 16 v" by (simp add: drop_bit_eq_div)
  have m: "v mod 65536 = take_bit 16 v" by (simp add: take_bit_eq_mod)
  show ?thesis unfolding d m by (rule bit_word_eqI) (auto simp: bit_simps not_less)
qed

lemma fputc_uint [simp]: "fputc (uint (c :: byte)) f = f @ [c]"
  by (simp add: fputc_def)

lemma write_short: "write_u_short_int v f = f @ short_bytes v"
  by (simp add: write_u_short_int_def byte_swap_def short_bytes_def)

lemma write_long: "write_u_long_int v f = f @ long_bytes v"
  by (simp add: write_u_long_int_def write_short byte_swap_def long_bytes_def)

lemma read_short: "read_u_short_int u (short_bytes v @ f) = (0, v, f)"
  by (simp add: read_u_short_int_def byte_swap_def short_bytes_def uint_byte join_bytes)

lemma read_long: "read_u_long_int u (long_bytes v @ f) = (0, v, f)"
  by (simp add: read_u_long_int_def long_bytes_def read_short byte_swap_def join_shorts)

definition header_bytes :: "int \<Rightarrow> int \<Rightarrow> byte list" where
  "header_bytes x y = [66, 77] @ long_bytes (word_of_int (3 * x * y + 54)) @ short_bytes 0 @ short_bytes 0 @
     long_bytes 54 @ long_bytes 40 @ long_bytes (word_of_int x) @ long_bytes (word_of_int y) @ short_bytes 1 @ short_bytes 24 @
     long_bytes 0 @ long_bytes 0 @ long_bytes 0 @ long_bytes 0 @ long_bytes 0 @ long_bytes 0"

lemma length_bytes [simp]: "length (short_bytes v) = 2" "length (long_bytes w) = 4" "length (header_bytes x y) = 54"
  by (simp_all add: short_bytes_def long_bytes_def header_bytes_def)

lemma write_header:
  assumes "0 \<le> x" and "0 \<le> y" and "3 * x < 2 ^ 31" and "3 * x * y + 54 < 2 ^ 31"
  shows "bmp_write_header f x y = Some (f @ header_bytes x y)"
proof -
  have "0 \<le> 3 * x * y" using assms(1,2) by simp
  then have "- 2147483648 \<le> 3 * x * y" by simp
  moreover have "[0..<6] = [0, 1, 2, 3, 4, 5]" by (simp add: upt_conv_Cons)
  ultimately show ?thesis using assms
    by (simp add: bmp_write_header_def header_bytes_def write_short write_long fputc_def ckd_def)
qed

lemma small_int: "0 \<le> x \<Longrightarrow> x < 2 ^ 31 \<Longrightarrow> sint (word_of_int x :: 32 word) = x"
  by (simp add: signed_of_int signed_take_bit_int_eq_self)

lemma step_short: "short (h\<lparr>bh_file := short_bytes v @ f\<rparr>) = (0, h\<lparr>bh_file := f\<rparr>)"
  by (simp add: short_def read_short)

lemma step_long: "long store (h\<lparr>bh_file := long_bytes v @ f\<rparr>) = (0, store (sint v) (h\<lparr>bh_file := f\<rparr>))"
  by (simp add: long_def read_long)

lemma read_header:
  assumes "0 \<le> x" and "x < 2 ^ 31" and "0 \<le> y" and "y < 2 ^ 31"
  shows "bmp_read_header \<lparr>bh_file = header_bytes x y @ f, bh_xsize = a, bh_ysize = b, bh_psize = c\<rparr>
    = (0, \<lparr>bh_file = f, bh_xsize = x, bh_ysize = y, bh_psize = 54\<rparr>)"
  using assms
  by (simp add: bmp_read_header_def header_bytes_def magic_def EOF_def short_def long_def read_short read_long small_int)

section \<open>Pixels are read back\<close>

fun row_bytes :: "nat \<Rightarrow> nat \<Rightarrow> planes \<Rightarrow> byte list" where
  "row_bytes k 0 a = []"
| "row_bytes k (Suc n) (r, g, b) =
     [word_of_int (b ! k), word_of_int (g ! k), word_of_int (r ! k)] @ row_bytes (Suc k) n (r, g, b)"

fun body_bytes :: "nat \<Rightarrow> nat \<Rightarrow> nat \<Rightarrow> planes \<Rightarrow> byte list" where
  "body_bytes w pad 0 a = []"
| "body_bytes w pad (Suc m) a = row_bytes (m * w) w a @ replicate pad 0 @ body_bytes w pad m a"

definition wide :: "nat \<Rightarrow> planes \<Rightarrow> bool" where
  "wide n a \<longleftrightarrow> (case a of (r, g, b) \<Rightarrow> n \<le> length r \<and> n \<le> length g \<and> n \<le> length b)"

text \<open>The pixels from \<open>k\<close> on, \<open>n\<close> of them, come from \<open>src\<close>, reduced to a byte.\<close>

definition copied :: "nat \<Rightarrow> nat \<Rightarrow> int list \<Rightarrow> int list \<Rightarrow> int list" where
  "copied k n src dst = map (\<lambda>i. if k \<le> i \<and> i < k + n then src ! i mod 256 else dst ! i) [0..<length dst]"

fun copied3 :: "nat \<Rightarrow> nat \<Rightarrow> planes \<Rightarrow> planes \<Rightarrow> planes" where
  "copied3 k n (r0, g0, b0) (r, g, b) = (copied k n r0 r, copied k n g0 g, copied k n b0 b)"

definition clean :: "int list \<Rightarrow> bool" where
  "clean r \<longleftrightarrow> EOF \<notin> set r"

lemma length_copied [simp]: "length (copied k n src dst) = length dst"
  by (simp add: copied_def)

lemma nth_copied: "i < length dst \<Longrightarrow> copied k n src dst ! i = (if k \<le> i \<and> i < k + n then src ! i mod 256 else dst ! i)"
  by (simp add: copied_def)

lemma copied_0 [simp]: "copied k 0 src dst = dst"
  by (rule nth_equalityI) (simp_all add: nth_copied)

lemma copied_Suc: "copied (Suc k) n src (dst[k := src ! k mod 256]) = copied k (Suc n) src dst"
proof (rule nth_equalityI)
  fix i
  assume "i < length (copied (Suc k) n src (dst[k := src ! k mod 256]))"
  then show "copied (Suc k) n src (dst[k := src ! k mod 256]) ! i = copied k (Suc n) src dst ! i"
    by (cases "i = k") (auto simp: nth_copied)
qed simp

lemma copied_copied: "copied 0 k src (copied k n src dst) = copied 0 (n + k) src dst"
  by (rule nth_equalityI) (auto simp: nth_copied)

lemma clean_update: "clean r \<Longrightarrow> clean (r[k := v mod 256])"
proof -
  have "v mod 256 \<noteq> EOF" using pos_mod_sign [of 256 v] by (simp add: EOF_def del: pos_mod_sign)
  then show "clean r \<Longrightarrow> clean (r[k := v mod 256])" using set_update_subset_insert [of r k "v mod 256"] by (auto simp: clean_def)
qed

lemma uint_byte_of_int: "uint (word_of_int v :: byte) = v mod 256"
  by (simp add: unsigned_of_int take_bit_eq_mod)

lemma mod_not_EOF: "v mod 256 \<noteq> EOF"
  using uint_byte(3) [of "word_of_int v"] by (simp add: uint_byte_of_int)

lemma clean_copied:
  assumes "clean dst"
  shows "clean (copied k n src dst)"
proof -
  have "copied k n src dst ! i \<noteq> EOF" if "i < length dst" for i
  proof -
    have "dst ! i \<noteq> EOF" using assms nth_mem [OF that] by (auto simp: clean_def)
    then show ?thesis using mod_not_EOF [of "src ! i"] that by (simp add: nth_copied)
  qed
  then show ?thesis by (auto simp: clean_def in_set_conv_nth)
qed

lemma write_row: "wide (k + n) a \<Longrightarrow> bmp_write_row k n a f = Some (f @ row_bytes k n a)"
  by (induction k n a f rule: bmp_write_row.induct) (auto simp: wide_def aget_in fputc_def)

lemma write_rows: "wide (m * w) a \<Longrightarrow> bmp_write_rows w pad m a f = Some (f @ body_bytes w pad m a)"
proof (induction m arbitrary: f)
  case (Suc m)
  then have "wide (m * w + w) a" "wide (m * w) a" by (auto simp: wide_def add.commute split: prod.splits)
  then show ?case using Suc.IH by (simp add: write_row)
qed simp

lemma read_row:
  assumes "wide (k + n) (r, g, b)" and "clean r"
  shows "bmp_read_row k n (r, g, b) (row_bytes k n a0 @ f) = Some (0, copied3 k n a0 (r, g, b), f)"
  using assms
proof (induction n arbitrary: k r g b)
  case 0
  then show ?case by (cases a0) simp
next
  case (Suc n)
  obtain r0 g0 b0 where a0: "a0 = (r0, g0, b0)" by (cases a0)
  let ?r = "r[k := r0 ! k mod 256]" and ?g = "g[k := g0 ! k mod 256]" and ?b = "b[k := b0 ! k mod 256]"
  have k: "k < length r" "k < length g" "k < length b" and w: "wide (Suc k + n) (?r, ?g, ?b)"
    using Suc.prems(1) by (auto simp: wide_def)
  have c: "clean ?r" using Suc.prems(2) by (rule clean_update)
  have "?r ! 0 \<in> set ?r" using k(1) by (intro nth_mem, unfold length_list_update, linarith)
  then have "?r ! 0 \<noteq> EOF" using c by (auto simp: clean_def)
  moreover have "aget ?r 0 = Some (?r ! 0)" using k(1) by (intro aget_in, unfold length_list_update, linarith)
  ultimately show ?case using k Suc.IH [OF w c]
    by (simp add: a0 uint_byte_of_int mod_not_EOF aput_in aget_in copied_Suc)
qed

lemma read_rows:
  assumes "wide (m * w) (r, g, b)" and "clean r"
  shows "bmp_read_rows w pad m (r, g, b) (body_bytes w pad m a0 @ f) = Some (0, copied3 0 (m * w) a0 (r, g, b), f)"
  using assms
proof (induction m arbitrary: r g b)
  case 0
  then show ?case by (cases a0) simp
next
  case (Suc m)
  obtain r0 g0 b0 where a0: "a0 = (r0, g0, b0)" by (cases a0)
  have w: "wide (m * w + w) (r, g, b)" using Suc.prems(1) by (simp add: add.commute)
  have w': "wide (m * w) (copied (m * w) w r0 r, copied (m * w) w g0 g, copied (m * w) w b0 b)"
    using Suc.prems(1) by (simp add: wide_def)
  note r = read_row [OF w Suc.prems(2), of a0]
  show ?case using Suc.IH [OF w' clean_copied [OF Suc.prems(2)]] r
    by (simp add: a0 copied_copied)
qed

lemma smod_nonneg: "0 \<le> a \<Longrightarrow> a smod 4 = a mod 4" for a :: int
  by (cases "a = 0") (simp_all add: smod_int_alt_def)

lemma row_padding:
  assumes "0 \<le> x" and "x < 2 ^ 29"
  obtains pad where "row_padding x = Some pad"
proof -
  have s: "3 * x smod 4 = 3 * x mod 4" using assms(1) by (intro smod_nonneg) simp
  have "0 \<le> 4 - 3 * x mod 4" using pos_mod_bound [of 4 "3 * x"] by linarith
  then have "0 \<le> (4 - 3 * x smod 4) smod 4 \<and> (4 - 3 * x smod 4) smod 4 < 4"
    unfolding s by (simp add: smod_nonneg)
  then show ?thesis using assms that by (simp add: row_padding_def Let_def ckd_def)
qed

lemma calloc_planes:
  assumes "0 \<le> n" and "16 * n < 2 ^ 32" and "mem (nat (16 * n))"
  shows "calloc_n mem (n * 4) 4 z = replicate (nat (4 * n)) z"
proof -
  have "nat (n * 4 mod 2 ^ 32) = nat (4 * n)" using assms(1,2) by simp
  moreover have "nat (4 * n) * 4 = nat (16 * n)" using assms(1) by simp
  moreover have "nat (16 * n) < 2 ^ 32" using assms(1,2) by simp
  ultimately show ?thesis using assms(3) by (simp add: calloc_n_def)
qed

lemma calloc_plane:
  assumes "0 \<le> n" and "16 * n < 2 ^ 32" and "mem (nat (4 * n))"
  shows "calloc_n mem n 4 z = replicate (nat n) z"
proof -
  have m: "n mod 2 ^ 32 = n" using assms(1,2) by (intro mod_pos_pos_trivial) simp_all
  have "4 * n < 2 ^ 32" using assms(1,2) by linarith
  then have s: "nat (4 * n) < 2 ^ 32" using assms(1) by (simp add: nat_less_iff)
  have e: "nat n * 4 = nat (4 * n)" using assms(1) by simp
  show ?thesis unfolding calloc_n_def m e Let_def using s assms(3) by simp
qed

lemma bmp_written:
  assumes "0 \<le> x" and "0 \<le> y" and "x < 2 ^ 29" and "3 * x * y + 54 < 2 ^ 31" and "wide (nat (x * y)) a"
    and "row_padding x = Some pad"
  shows "bmp_write True x y a = Some (0, header_bytes x y @ body_bytes (nat x) pad (nat y) a)"
proof -
  have "wide (nat y * nat x) a" using assms(1,2,5) by (simp add: nat_mult_distrib mult.commute)
  then show ?thesis using assms(1-4,6) write_header [of x y "[]"]
    by (simp add: bmp_write_def bmp_write_data_def write_rows)
qed

text \<open>What \<open>bmp_write\<close> wrote \<open>bmp_read\<close> reads: the same size and the same pixels, reduced to a byte each.\<close>

lemma bmp_write_read:
  assumes "0 \<le> x" and "x < 2 ^ 29" and "0 \<le> y" and "y < 2 ^ 31" and "16 * (x * y) < 2 ^ 32" and "mem (nat (16 * (x * y)))"
    and "wide (nat (x * y)) (r, g, b)"
  shows "\<exists>c r' g' b'. bmp_write True x y (r, g, b) = Some (0, c) \<and>
    bmp_read mem (Some c) img = Some (0, img\<lparr>bi_xsize := x, bi_ysize := y, bi_planes := (r', g', b')\<rparr>) \<and>
    (\<forall>k<nat (x * y). r' ! k = r ! k mod 256 \<and> g' ! k = g ! k mod 256 \<and> b' ! k = b ! k mod 256)"
proof -
  obtain pad where pad: "row_padding x = Some pad" by (rule row_padding [OF assms(1,2)])
  let ?n = "nat (x * y)" and ?z = "replicate (nat (4 * (x * y))) (0 :: int)"
  let ?f = "body_bytes (nat x) pad (nat y) (r, g, b)"
  have xy: "0 \<le> x * y" using assms(1,3) by simp
  have n: "nat y * nat x = ?n" using assms(1,3) by (simp add: nat_mult_distrib mult.commute)
  have w: "bmp_write True x y (r, g, b) = Some (0, header_bytes x y @ ?f)"
    by (rule bmp_written) (use assms pad in simp_all)
  have c: "clean ?z" by (simp add: clean_def EOF_def)
  have "wide (nat y * nat x) (?z, ?z, ?z)" using xy by (simp add: wide_def n)
  from read_rows [OF this c, of pad "(r, g, b)" "[]"]
  have rd: "bmp_read_rows (nat x) pad (nat y) (?z, ?z, ?z) ?f = Some (0, copied3 0 ?n (r, g, b) (?z, ?z, ?z), [])"
    by (simp add: n)
  have ck: "- 2147483648 \<le> x * y" using xy by simp
  have "fseek_set (header_bytes x y @ ?f) 54 ?f = ?f" by (simp add: fseek_set_def)
  then have "bmp_read mem (Some (header_bytes x y @ ?f)) img
      = Some (0, img\<lparr>bi_xsize := x, bi_ysize := y, bi_planes := copied3 0 ?n (r, g, b) (?z, ?z, ?z)\<rparr>)"
    using assms(1-5) xy read_header [of x y ?f] calloc_planes [of "x * y" mem "0 :: int"] assms(6) pad rd ck
    by (simp add: bmp_read_def bmp_read_data_def ckd_def Let_def mult.commute)
  then show ?thesis using w xy
    by (intro exI [of _ "header_bytes x y @ ?f"] exI [of _ "copied 0 ?n r ?z"] exI [of _ "copied 0 ?n g ?z"]
        exI [of _ "copied 0 ?n b ?z"]) (simp add: nth_copied)
qed

section \<open>Saved planes\<close>

text \<open>The value \<open>v i j\<close> stands at row \<open>i\<close> and column \<open>j\<close> of a plane of width \<open>w\<close>.\<close>

definition plane_of :: "nat \<Rightarrow> nat \<Rightarrow> (nat \<Rightarrow> nat \<Rightarrow> int) \<Rightarrow> int list \<Rightarrow> bool" where
  "plane_of w h v a \<longleftrightarrow> length a = w * h \<and> (\<forall>i<h. \<forall>j<w. a ! (i * w + j) = v i j)"

lemma fill_plane_filled:
  assumes "\<And>i j. i < nat H \<Longrightarrow> j < nat W \<Longrightarrow> rd i j = Some (v i j)" and "length a = nat W * nat H"
  shows "\<exists>b. fill_plane W H rd a = Some b \<and> plane_of (nat W) (nat H) v b"
proof -
  let ?k = "\<lambda>(i, j). i * nat W + j"
  have inj: "inj_on ?k (set (pixels (nat W) (nat H)))"
    using plane_inj [of 0 "nat W" "nat H"] by simp
  obtain b where b: "foreach (\<lambda>x a. do { y \<leftarrow> (case x of (i, j) \<Rightarrow> rd i j); aput (?k x) y a }) (pixels (nat W) (nat H)) a = Some b"
      "length b = length a" "\<forall>x\<in>set (pixels (nat W) (nat H)). b ! ?k x = (case x of (i, j) \<Rightarrow> v i j)"
    using foreach_put [of "pixels (nat W) (nat H)" ?k a "\<lambda>(i, j). rd i j" "\<lambda>(i, j). v i j"] assms inj
    by (force simp: pixel_index)
  have "fill_plane W H rd a = foreach (\<lambda>x a. do { y \<leftarrow> (case x of (i, j) \<Rightarrow> rd i j); aput (?k x) y a }) (pixels (nat W) (nat H)) a"
    unfolding fill_plane_def by (rule arg_cong [of _ _ "\<lambda>f. foreach f _ _"]) (auto simp: fun_eq_iff)
  then show ?thesis using b assms(2) by (auto simp: plane_of_def)
qed

text \<open>When the image fits and there is memory, saving writes a file that reads back as the planes.\<close>

definition fits :: "(nat \<Rightarrow> bool) \<Rightarrow> int \<Rightarrow> int \<Rightarrow> bool" where
  "fits mem W H \<longleftrightarrow> 0 \<le> W \<and> W < 2 ^ 29 \<and> 0 \<le> H \<and> H < 2 ^ 31 \<and> 16 * (W * H) < 2 ^ 32 \<and>
     mem (nat (4 * (W * H))) \<and> mem (nat (16 * (W * H)))"

lemma save_planes_saved:
  assumes "fits mem W H" and "\<And>i j. i < nat H \<Longrightarrow> j < nat W \<Longrightarrow> rd_r i j = Some (vr i j)"
    and "\<And>i j. i < nat H \<Longrightarrow> j < nat W \<Longrightarrow> rd_g i j = Some (vg i j)"
    and "\<And>i j. i < nat H \<Longrightarrow> j < nat W \<Longrightarrow> rd_b i j = Some (vb i j)"
  shows "\<exists>r g b. save_planes mem True W H rd_r rd_g rd_b = bmp_write True W H (r, g, b) \<and> wide (nat (W * H)) (r, g, b) \<and>
    plane_of (nat W) (nat H) vr r \<and> plane_of (nat W) (nat H) vg g \<and> plane_of (nat W) (nat H) vb b"
proof -
  have f: "0 \<le> W * H" "16 * (W * H) < 2 ^ 32" "mem (nat (4 * (W * H)))" using assms(1) by (simp_all add: fits_def)
  have WH: "nat W * nat H = nat (W * H)" using assms(1) by (simp add: fits_def nat_mult_distrib)
  have z: "calloc_n mem (W * H) 4 (0 :: int) = replicate (nat W * nat H) 0"
    using calloc_plane [OF f(1,2), of mem "0 :: int"] f(3) WH by simp
  let ?z = "replicate (nat W * nat H) (0 :: int)"
  obtain r g b where p: "fill_plane W H rd_r ?z = Some r" "plane_of (nat W) (nat H) vr r"
      "fill_plane W H rd_g ?z = Some g" "plane_of (nat W) (nat H) vg g"
      "fill_plane W H rd_b ?z = Some b" "plane_of (nat W) (nat H) vb b"
    using fill_plane_filled [of H W rd_r vr ?z] fill_plane_filled [of H W rd_g vg ?z] fill_plane_filled [of H W rd_b vb ?z]
      assms(2-4) by (metis length_replicate)
  have "wide (nat (W * H)) (r, g, b)" using p(2,4,6) WH by (simp add: wide_def plane_of_def)
  moreover have "- 2147483648 \<le> W * H" "W * H < 2147483648" using f(1,2) by (simp_all add: mult.commute)
  moreover have "save_planes mem True W H rd_r rd_g rd_b = bmp_write True W H (r, g, b)"
    using p(1,3,5) z calculation(2,3) by (simp add: save_planes_def ckd_def)
  ultimately show ?thesis using p(2,4,6) by blast
qed

lemma save_planes_None:
  assumes "fits mem W H" and "i < nat H" "j < nat W" and "rd i j = None"
  shows "save_planes mem True W H rd rd_g rd_b = None"
proof -
  have "foreach (\<lambda>(i, j) a. do { v \<leftarrow> rd i j; aput (i * nat W + j) v a }) xs a = None" if "(i, j) \<in> set xs" for xs a
    using that
  proof (induction xs arbitrary: a)
    case (Cons x xs)
    then show ?case using assms(4)
      by (cases x) (auto simp: bind_eq_None_conv aput_def)
  qed simp
  then have "fill_plane W H rd a = None" for a using assms(2,3) by (simp add: fill_plane_def)
  then show ?thesis by (auto simp: save_planes_def bind_eq_None_conv)
qed

lemma read_back:
  assumes "fits mem W H" and "wide (nat (W * H)) (r, g, b)"
    and "plane_of (nat W) (nat H) vr r" and "plane_of (nat W) (nat H) vg g" and "plane_of (nat W) (nat H) vb b"
    and "\<And>i j. 0 \<le> vr i j \<and> vr i j < 256 \<and> 0 \<le> vg i j \<and> vg i j < 256 \<and> 0 \<le> vb i j \<and> vb i j < 256"
  shows "\<exists>c r' g' b'. bmp_write True W H (r, g, b) = Some (0, c) \<and>
    bmp_read mem (Some c) img = Some (0, img\<lparr>bi_xsize := W, bi_ysize := H, bi_planes := (r', g', b')\<rparr>) \<and>
    (\<forall>i<nat H. \<forall>j<nat W. r' ! (i * nat W + j) = vr i j \<and> g' ! (i * nat W + j) = vg i j \<and> b' ! (i * nat W + j) = vb i j)"
proof -
  obtain c r' g' b' where c: "bmp_write True W H (r, g, b) = Some (0, c)"
      "bmp_read mem (Some c) img = Some (0, img\<lparr>bi_xsize := W, bi_ysize := H, bi_planes := (r', g', b')\<rparr>)"
      "\<forall>k<nat (W * H). r' ! k = r ! k mod 256 \<and> g' ! k = g ! k mod 256 \<and> b' ! k = b ! k mod 256"
    using bmp_write_read [of W H mem r g b img] assms(1,2) by (auto simp: fits_def)
  have "i * nat W + j < nat (W * H)" if "i < nat H" "j < nat W" for i j
    using pixel_index [OF that] assms(1) by (simp add: fits_def nat_mult_distrib)
  then show ?thesis using c assms(3-6) by (intro exI [of _ c] exI [of _ r'] exI [of _ g'] exI [of _ b']) (simp add: plane_of_def)
qed

text \<open>Property C36: \<open>SaveImage\<close> saves packed pixels of three bytes so that \<open>bmp_read\<close> gives back exactly their
  planes, pixel by pixel.\<close>

theorem saved_image_read:
  assumes "fits mem W H" and "length p = nat W * nat H * 3"
  shows "\<exists>c r g b. SaveImage mem True p W H = Some (0, c) \<and>
    bmp_read mem (Some c) img = Some (0, img\<lparr>bi_xsize := W, bi_ysize := H, bi_planes := (r, g, b)\<rparr>) \<and>
    (\<forall>i<nat H. \<forall>j<nat W. r ! (i * nat W + j) = uint (p ! ((i * nat W + j) * 3)) \<and>
      g ! (i * nat W + j) = uint (p ! ((i * nat W + j) * 3 + 1)) \<and> b ! (i * nat W + j) = uint (p ! ((i * nat W + j) * 3 + 2)))"
proof -
  let ?v = "\<lambda>d i j. uint (p ! ((i * nat W + j) * 3 + d))"
  have rd: "rd8 p ((i * nat W + j) * 3 + d) = Some (?v d i j)" if "i < nat H" "j < nat W" "d < 3" for i j d
    using pixel_index [OF that(1,2)] that(3) assms(2) by (simp add: rd8_def aget_def)
  have b: "0 \<le> ?v d i j \<and> ?v d i j < 256" for d i j using uint_byte by simp
  obtain r g b where s: "SaveImage mem True p W H = bmp_write True W H (r, g, b)" "wide (nat (W * H)) (r, g, b)"
      "plane_of (nat W) (nat H) (?v 0) r" "plane_of (nat W) (nat H) (?v 1) g" "plane_of (nat W) (nat H) (?v 2) b"
    using save_planes_saved [OF assms(1), of "\<lambda>i j. rd8 p ((i * nat W + j) * 3)" "?v 0" "\<lambda>i j. rd8 p ((i * nat W + j) * 3 + 1)" "?v 1"
        "\<lambda>i j. rd8 p ((i * nat W + j) * 3 + 2)" "?v 2"] rd [of _ _ 0] rd [of _ _ 1] rd [of _ _ 2]
    by (auto simp: SaveImage_def)
  obtain c r' g' b' where "bmp_write True W H (r, g, b) = Some (0, c)"
      "bmp_read mem (Some c) img = Some (0, img\<lparr>bi_xsize := W, bi_ysize := H, bi_planes := (r', g', b')\<rparr>)"
      "\<forall>i<nat H. \<forall>j<nat W. r' ! (i * nat W + j) = ?v 0 i j \<and> g' ! (i * nat W + j) = ?v 1 i j \<and> b' ! (i * nat W + j) = ?v 2 i j"
    using read_back [OF assms(1) s(2-5), of img] b by blast
  then show ?thesis unfolding s(1) by (intro exI [of _ c] exI [of _ r'] exI [of _ g'] exI [of _ b']) simp
qed

theorem saved_image_read_witness:
  "\<exists>c r g b. SaveImage (\<lambda>_. True) True [1, 2, 3, 4, 5, 6] 1 2 = Some (0, c) \<and>
    bmp_read (\<lambda>_. True) (Some c) \<lparr>bi_xsize = 0, bi_ysize = 0, bi_planes = ([], [], [])\<rparr>
      = Some (0, \<lparr>bi_xsize = 1, bi_ysize = 2, bi_planes = (r, g, b)\<rparr>) \<and>
    r ! 0 = 1 \<and> r ! 1 = 4 \<and> g ! 1 = 5 \<and> b ! 0 = 3"
proof -
  have "(\<forall>i<2. P i) \<longleftrightarrow> P 0 \<and> P (Suc 0)" for P :: "nat \<Rightarrow> bool"
    by (auto simp: less_Suc_eq numeral_2_eq_2)
  then show ?thesis
    using saved_image_read [of "\<lambda>_. True" 1 2 "[1, 2, 3, 4, 5, 6]" "\<lparr>bi_xsize = 0, bi_ysize = 0, bi_planes = ([], [], [])\<rparr>"]
    by (simp add: fits_def) blast
qed

lemma SaveImage_3plane_gray: "SaveImage_gray mem True p W H = SaveImage_3plane mem True p p p W H"
  by (simp add: SaveImage_gray_def SaveImage_3plane_def Let_def)

lemma apitch_nat: "0 \<le> P \<Longrightarrow> apitch a P i j = aget a (i * nat P + j)"
proof -
  assume P: "0 \<le> P"
  then have "int i * P + int j = int (i * nat P + j)" by simp
  then show ?thesis unfolding apitch_def by (simp only: nat_int of_nat_less_0_iff if_False)
qed

lemma SaveImage_gray2_gray: "0 \<le> W \<Longrightarrow> SaveImage_gray2 mem True p W H W = SaveImage_gray mem True p W H"
  by (simp add: SaveImage_gray2_def SaveImage_gray_def rd8_def apitch_nat Let_def)

section \<open>Scaled planes\<close>

lemma range_foreach:
  fixes p :: "16 word list"
  assumes "\<And>x. x \<in> set xs \<Longrightarrow> ix x < length p"
  shows "\<exists>lo hi. foreach (\<lambda>x (minV, maxV). do { v \<leftarrow> aget p (ix x);
       let minV = (if v \<noteq> 32768 \<and> v < minV then v else minV);
       let maxV = (if v \<noteq> 32768 \<and> v > maxV then v else maxV);
       Some (minV, maxV) }) xs (mn, mx) = Some (lo, hi) \<and>
    (let V = (\<lambda>x. p ! ix x) ` set xs - {32768}
     in lo \<in> insert mn V \<and> (\<forall>v\<in>insert mn V. lo \<le> v) \<and> hi \<in> insert mx V \<and> (\<forall>v\<in>insert mx V. v \<le> hi))"
  using assms
proof (induction xs arbitrary: mn mx)
  case (Cons x xs)
  let ?v = "p ! ix x" and ?V = "(\<lambda>x. p ! ix x) ` set xs - {32768}"
  define a where "a = (if ?v \<noteq> 32768 \<and> ?v < mn then ?v else mn)"
  define b where "b = (if ?v \<noteq> 32768 \<and> ?v > mx then ?v else mx)"
  define V where "V = (\<lambda>x. p ! ix x) ` set (x # xs) - {32768}"
  have V: "V = (if ?v = 32768 then ?V else insert ?v ?V)" by (auto simp: V_def)
  have a: "a \<in> insert mn V" "a \<le> mn" "?v \<noteq> 32768 \<Longrightarrow> a \<le> ?v" and b: "b \<in> insert mx V" "mx \<le> b" "?v \<noteq> 32768 \<Longrightarrow> ?v \<le> b"
    by (auto simp: a_def b_def V)
  obtain lo hi where r: "foreach (\<lambda>x (minV, maxV). do { v \<leftarrow> aget p (ix x);
       let minV = (if v \<noteq> 32768 \<and> v < minV then v else minV);
       let maxV = (if v \<noteq> 32768 \<and> v > maxV then v else maxV);
       Some (minV, maxV) }) xs (a, b) = Some (lo, hi)"
      "lo \<in> insert a ?V" "\<forall>v\<in>insert a ?V. lo \<le> v" "hi \<in> insert b ?V" "\<forall>v\<in>insert b ?V. v \<le> hi"
    using Cons.IH [of a b] Cons.prems by (auto simp: Let_def)
  have sub: "?V \<subseteq> V" using V by auto
  have "lo \<in> insert mn V" "hi \<in> insert mx V" using r(2,4) a(1) b(1) sub by blast+
  moreover have "lo \<le> v" if "v \<in> insert mn V" for v
    using that r(3) a(2,3) unfolding V by (auto split: if_splits intro: order_trans)
  moreover have "v \<le> hi" if "v \<in> insert mx V" for v
    using that r(5) b(2,3) unfolding V by (auto split: if_splits intro: order_trans)
  moreover have "ix x < length p" using Cons.prems by simp
  ultimately show ?case using r(1) unfolding V_def [symmetric] by (simp add: aget_in Let_def a_def b_def)
qed simp

text \<open>The valid values of an image.\<close>

definition valid_u16 :: "16 word list \<Rightarrow> nat \<Rightarrow> nat \<Rightarrow> nat \<Rightarrow> 16 word set" where
  "valid_u16 p W H P = (\<lambda>(i, j). p ! (i * P + j)) ` ({..<H} \<times> {..<W}) - {32768}"

lemma range_u16_range:
  assumes "\<And>i j. i < H \<Longrightarrow> j < W \<Longrightarrow> i * P + j < length p"
  shows "\<exists>lo hi. range_u16 p W H (int P) = Some (lo, hi) \<and>
    (if valid_u16 p W H P = {} then lo = 65535 \<and> hi = 0
     else lo \<in> valid_u16 p W H P \<and> hi \<in> valid_u16 p W H P \<and> (\<forall>v\<in>valid_u16 p W H P. lo \<le> v \<and> v \<le> hi))"
proof -
  let ?V = "valid_u16 p W H P"
  have top: "v \<le> 65535" for v :: "16 word"
    using uint_lt2p [of v] by (simp add: word_le_def)
  let ?ix = "\<lambda>(i, j). i * P + j"
  have "?ix x < length p" if "x \<in> set (pixels W H)" for x
    using assms that by auto
  note r = range_foreach [of "pixels W H" ?ix p 65535 0, OF this]
  have V: "?V = (\<lambda>x. p ! ?ix x) ` set (pixels W H) - {32768}"
    by (simp add: valid_u16_def case_prod_beta)
  have "range_u16 p W H (int P) = foreach (\<lambda>x (minV, maxV). do { v \<leftarrow> aget p (?ix x);
       let minV = (if v \<noteq> 32768 \<and> v < minV then v else minV);
       let maxV = (if v \<noteq> 32768 \<and> v > maxV then v else maxV);
       Some (minV, maxV) }) (pixels W H) (65535, 0)"
    unfolding range_u16_def by (rule arg_cong [of _ _ "\<lambda>f. foreach f _ _"]) (simp add: fun_eq_iff apitch_nat)
  then obtain lo hi where r: "range_u16 p W H (int P) = Some (lo, hi)" "lo \<in> insert 65535 ?V" "\<forall>v\<in>insert 65535 ?V. lo \<le> v"
      "hi \<in> insert 0 ?V" "\<forall>v\<in>insert 0 ?V. v \<le> hi"
    using r unfolding V [symmetric] Let_def by (auto simp only:)
  have "lo \<in> ?V" if "v \<in> ?V" for v
    using r(2,3) that top [of v] by (auto dest: order_antisym)
  moreover have "hi \<in> ?V" if "v \<in> ?V" for v
    using r(4,5) that by (auto dest: order_antisym)
  ultimately show ?thesis using r by (auto simp: ex_in_conv)
qed

lemma scale_u16_scales:
  assumes "lo \<le> v" and "v \<le> hi" and "lo < hi" and "v \<noteq> 32768"
  shows "\<exists>s. scale_u16 lo hi v = Some s \<and> 0 \<le> s \<and> s \<le> 255 \<and> (v = lo \<longrightarrow> s = 0) \<and> (v = hi \<longrightarrow> s = 255)"
proof -
  let ?d = "uint hi - uint lo" and ?e = "uint v - uint lo"
  have d: "0 < ?d" "0 \<le> ?e" "?e \<le> ?d" using assms(1-3) by (simp_all add: word_less_def word_le_def)
  have s: "(255 * ?e) sdiv ?d = 255 * ?e div ?d"
    using d by (cases "?e = 0") (simp_all add: signed_divide_int_def sgn_if)
  have "255 * ?e div ?d \<le> 255 * ?d div ?d" using d by (intro zdiv_mono1) simp_all
  moreover have top: "255 * ?d div ?d = 255" using d(1) by (intro nonzero_mult_div_cancel_right) simp
  ultimately have "255 * ?e div ?d \<le> 255" by (simp only:)
  moreover have "0 \<le> 255 * ?e div ?d" using d by (simp add: pos_imp_zdiv_nonneg_iff)
  moreover have "v = hi \<Longrightarrow> 255 * ?e div ?d = 255" using top by (simp only:)
  moreover have "v = lo \<Longrightarrow> 255 * ?e div ?d = 0" by simp
  moreover have "scale_u16 lo hi v = Some (255 * ?e div ?d)"
    unfolding scale_u16_def s using d(1) assms(4) by (simp only: if_False) simp
  ultimately show ?thesis by blast
qed

text \<open>Property C38: \<open>SaveImage_gray2_u16\<close> divides by zero exactly for an image whose valid pixels are all
  equal; every other image, one without a valid pixel too, is written.\<close>

theorem gray2_u16_crashes:
  assumes "fits mem W H" and "\<And>i j. i < nat H \<Longrightarrow> j < nat W \<Longrightarrow> i * nat P + j < length p" and "0 \<le> P"
  shows "SaveImage_gray2_u16 mem True p W H P = None \<longleftrightarrow> (\<exists>v. valid_u16 p (nat W) (nat H) (nat P) = {v})"
proof -
  let ?V = "valid_u16 p (nat W) (nat H) (nat P)" and ?rd = "\<lambda>i j. aget p (i * nat P + j)"
  obtain lo hi where r: "range_u16 p (nat W) (nat H) P = Some (lo, hi)"
      "if ?V = {} then lo = 65535 \<and> hi = 0 else lo \<in> ?V \<and> hi \<in> ?V \<and> (\<forall>v\<in>?V. lo \<le> v \<and> v \<le> hi)"
    using range_u16_range [of "nat H" "nat W" "nat P" p] assms(2,3) by auto
  let ?sc = "\<lambda>i j. do { v \<leftarrow> ?rd i j; scale_u16 lo hi v }"
  have eq: "SaveImage_gray2_u16 mem True p W H P = save_planes mem True W H ?sc ?sc ?sc"
    unfolding SaveImage_gray2_u16_def r(1) Let_def apitch_nat [OF assms(3)] by (simp only: bind.bind_lunit prod.case)
  show ?thesis
  proof
    assume "\<exists>v. ?V = {v}"
    then obtain v where v: "?V = {v}" by blast
    then have "v \<in> ?V" by simp
    then obtain i j where ij: "i < nat H" "j < nat W" "p ! (i * nat P + j) = v" "v \<noteq> 32768"
      unfolding valid_u16_def by auto
    have "lo = v" "hi = v" using r(2) v by simp_all
    then have "?sc i j = None" using ij assms(2) by (simp add: aget_in scale_u16_def)
    then show "SaveImage_gray2_u16 mem True p W H P = None" unfolding eq by (rule save_planes_None [OF assms(1) ij(1,2)])
  next
    assume n: "SaveImage_gray2_u16 mem True p W H P = None"
    show "\<exists>v. ?V = {v}"
    proof (rule ccontr)
      assume no: "\<nexists>v. ?V = {v}"
      have "\<exists>s. ?sc i j = Some s" if "i < nat H" "j < nat W" for i j
      proof (cases "p ! (i * nat P + j) = 32768")
        case True
        then show ?thesis using assms(2) [OF that] by (simp add: aget_in scale_u16_def)
      next
        case False
        then have v: "p ! (i * nat P + j) \<in> ?V" using that by (auto simp: valid_u16_def)
        then have lh: "lo \<le> p ! (i * nat P + j)" "p ! (i * nat P + j) \<le> hi" "\<forall>v\<in>?V. lo \<le> v \<and> v \<le> hi"
          using r(2) by (auto split: if_splits)
        have "lo \<noteq> hi"
        proof
          assume "lo = hi"
          then have "?V = {hi}" using lh(3) v by (auto dest: order_antisym)
          then show False using no by blast
        qed
        then have "lo < hi" using lh(1,2) by (meson order_trans order_le_imp_less_or_eq)
        then show ?thesis using scale_u16_scales [OF lh(1,2) _ False] assms(2) [OF that] by (auto simp: aget_in)
      qed
      then have sc: "?sc i j = Some (the (?sc i j))" if "i < nat H" "j < nat W" for i j using that by fastforce
      obtain r g b where s: "save_planes mem True W H ?sc ?sc ?sc = bmp_write True W H (r, g, b)" "wide (nat (W * H)) (r, g, b)"
        using save_planes_saved [OF assms(1), of ?sc "\<lambda>i j. the (?sc i j)" ?sc "\<lambda>i j. the (?sc i j)" ?sc "\<lambda>i j. the (?sc i j)"] sc
        by blast
      obtain c where "bmp_write True W H (r, g, b) = Some (0, c)"
        using bmp_write_read [of W H mem r g b] assms(1) s(2) by (auto simp: fits_def)
      then show False using n unfolding eq s(1) by simp
    qed
  qed
qed

theorem gray2_u16_crashes_witness:
  "SaveImage_gray2_u16 (\<lambda>_. True) True [7, 9, 7, 32768] 2 2 2 \<noteq> None \<and> SaveImage_gray2_u16 (\<lambda>_. True) True [7, 9, 32768, 9] 1 2 2 = None"
proof -
  have j: "i < 2 \<Longrightarrow> j < 2 \<Longrightarrow> i * 2 + j < 4" "i < 2 \<Longrightarrow> i * 2 < 4" for i j :: nat by linarith+
  have d: "{..<2} = {0, 1 :: nat}" "{..<Suc 0} = {0 :: nat}" by auto
  have "{0, Suc 0} \<times> {0} = {(0, 0), (Suc 0, 0 :: nat)}" "{0, Suc 0} \<times> {0, Suc 0} = {(0, 0), (0, Suc 0), (Suc 0, 0), (Suc 0, Suc 0)}"
    by auto
  then have "valid_u16 [7, 9, 7, 32768] 2 2 2 = {7, 9}" "valid_u16 [7, 9, 32768, 9] 1 2 2 = {7}"
    by (auto simp: valid_u16_def d)
  moreover have "{7, 9 :: 16 word} \<noteq> {v}" "\<exists>v. {7 :: 16 word} = {v}" for v by (auto simp: insert_eq_iff)
  ultimately show ?thesis
    using gray2_u16_crashes [of "\<lambda>_. True" 2 2 2 "[7, 9, 7, 32768]"] gray2_u16_crashes [of "\<lambda>_. True" 1 2 2 "[7, 9, 32768, 9]"] j
    by (simp add: fits_def)
qed

end
