(* ===== verification/Image_Bitmap.thy ===== *)
theory Image_Bitmap
  imports Image_Bmp_Io
begin

text \<open>
  The bitmap files of the hdr test (hdr/bmp.cpp and hdr/bmp.h): packed headers, the reversal of rows and
  channels, \<open>save_bmp\<close> and \<open>OpenBMPFile\<close>. Fields and sizes keep their 16 and 32 bits. Memory from
  \<open>malloc\<close> and local structs hold what \<open>junk\<close> says until they are written.
\<close>

section \<open>Headers\<close>

record RGBQUAD1 =
  rgbBlue :: byte
  rgbGreen :: byte
  rgbRed :: byte
  rgbReserved :: byte

record BITMAPINFOHEADER1 =
  biSize :: u32
  biWidth :: u32
  biHeight :: u32
  biPlanes :: "16 word"
  biBitCount :: "16 word"
  biCompression :: u32
  biSizeImage :: u32
  biXPelsPerMeter :: u32
  biYPelsPerMeter :: u32
  biClrUsed :: u32
  biClrImportant :: u32

record BITMAPINFO1 =
  bmiHeader :: BITMAPINFOHEADER1
  bmiColors :: "RGBQUAD1 list"

record BITMAPFILEHEADER1 =
  bfType :: "16 word"
  bfSize :: u32
  bfReserved1 :: "16 word"
  bfReserved2 :: "16 word"
  bfOffBits :: u32

text \<open>The bytes of the packed structs, in the order of the fields, and the structs that bytes stand for.\<close>

definition file_header_bytes :: "BITMAPFILEHEADER1 \<Rightarrow> byte list" where
  "file_header_bytes h =
     short_bytes (bfType h) @ long_bytes (bfSize h) @ short_bytes (bfReserved1 h) @ short_bytes (bfReserved2 h) @
     long_bytes (bfOffBits h)"

definition info_header_bytes :: "BITMAPINFOHEADER1 \<Rightarrow> byte list" where
  "info_header_bytes h =
     long_bytes (biSize h) @ long_bytes (biWidth h) @ long_bytes (biHeight h) @ short_bytes (biPlanes h) @
     short_bytes (biBitCount h) @ long_bytes (biCompression h) @ long_bytes (biSizeImage h) @
     long_bytes (biXPelsPerMeter h) @ long_bytes (biYPelsPerMeter h) @ long_bytes (biClrUsed h) @ long_bytes (biClrImportant h)"

definition quad_bytes :: "RGBQUAD1 \<Rightarrow> byte list" where
  "quad_bytes q = [rgbBlue q, rgbGreen q, rgbRed q, rgbReserved q]"

definition info_bytes :: "BITMAPINFO1 \<Rightarrow> byte list" where
  "info_bytes b = info_header_bytes (bmiHeader b) @ concat (map quad_bytes (bmiColors b))"

definition short_at :: "byte list \<Rightarrow> nat \<Rightarrow> 16 word" where
  "short_at c k = fst (snd (read_u_short_int 0 (drop k c)))"

definition long_at :: "byte list \<Rightarrow> nat \<Rightarrow> u32" where
  "long_at c k = fst (snd (read_u_long_int 0 (drop k c)))"

definition file_header_of :: "byte list \<Rightarrow> BITMAPFILEHEADER1" where
  "file_header_of c =
     \<lparr>bfType = short_at c 0, bfSize = long_at c 2, bfReserved1 = short_at c 6, bfReserved2 = short_at c 8,
      bfOffBits = long_at c 10\<rparr>"

definition info_header_of :: "byte list \<Rightarrow> BITMAPINFOHEADER1" where
  "info_header_of c =
     \<lparr>biSize = long_at c 0, biWidth = long_at c 4, biHeight = long_at c 8, biPlanes = short_at c 12,
      biBitCount = short_at c 14, biCompression = long_at c 16, biSizeImage = long_at c 20,
      biXPelsPerMeter = long_at c 24, biYPelsPerMeter = long_at c 28, biClrUsed = long_at c 32, biClrImportant = long_at c 36\<rparr>"

definition WIDTH_BYTES :: "int \<Rightarrow> int option" where
  "WIDTH_BYTES bits = do { t \<leftarrow> ckd (bits + 31); ckd ((t sdiv 32) * 4) }"

section \<open>Memory and files\<close>

definition malloc_n :: "(nat \<Rightarrow> bool) \<Rightarrow> (nat \<Rightarrow> byte) \<Rightarrow> int \<Rightarrow> byte list" where
  "malloc_n mem junk n = (let k = nat (n mod 2 ^ 32) in if mem k then map junk [0..<k] else [])"

text \<open>\<open>fread\<close> of up to \<open>n\<close> bytes over what the buffer holds; a buffer that is too small, or null, is undefined
  behaviour.\<close>

definition fread_to :: "nat \<Rightarrow> byte list \<Rightarrow> byte list \<Rightarrow> (byte list \<times> byte list) option" where
  "fread_to n buf f =
     (if n \<le> length buf then Some (take n f @ drop (length (take n f)) buf, drop n f) else None)"

section \<open>Rows and channels\<close>

text \<open>Both arrays of \<open>convertRGB2BGR\<close> may be the same; then \<open>inp\<close> is \<^const>\<open>None\<close>.\<close>

definition convertRGB2BGR :: "byte list option \<Rightarrow> byte list \<Rightarrow> u32 \<Rightarrow> u32 \<Rightarrow> byte list option" where
  "convertRGB2BGR inp out width height =
     foreach (\<lambda>(i, j) out.
         (let off = unat ((of_nat i * width + of_nat j) * 3); rd = (\<lambda>k out. case inp of None \<Rightarrow> aget out k | Some a \<Rightarrow> aget a k)
          in do { temp \<leftarrow> aget out (off + 2);
                  v \<leftarrow> rd off out;
                  out \<leftarrow> aput (off + 2) v out;
                  v \<leftarrow> rd (off + 1) out;
                  out \<leftarrow> aput (off + 1) v out;
                  aput off temp out })) (pixels (unat width) (unat height)) out"

definition convertBGR2RGB :: "byte list option \<Rightarrow> byte list \<Rightarrow> u32 \<Rightarrow> u32 \<Rightarrow> byte list option" where
  "convertBGR2RGB inp out width height = convertRGB2BGR inp out width height"

definition ChangeRows :: "byte list \<Rightarrow> byte list \<Rightarrow> u32 \<Rightarrow> u32 \<Rightarrow> byte list option" where
  "ChangeRows inp out width height =
     foreach (\<lambda>(i, j) out.
         (let offsetin = unat ((of_nat i * width + of_nat j) * 3);
              offsetout = unat (((height - of_nat i - 1) * width + of_nat j) * 3)
          in do { v \<leftarrow> aget inp offsetin;
                  out \<leftarrow> aput (offsetout + 2) v out;
                  v \<leftarrow> aget inp (offsetin + 1);
                  out \<leftarrow> aput (offsetout + 1) v out;
                  v \<leftarrow> aget inp (offsetin + 2);
                  aput offsetout v out })) (pixels (unat width) (unat height)) out"

section \<open>Saving\<close>

definition gray_colours :: "RGBQUAD1 list" where
  "gray_colours = map (\<lambda>i. \<lparr>rgbBlue = of_nat i, rgbGreen = of_nat i, rgbRed = of_nat i, rgbReserved = 0\<rparr>) [0..<256]"

text \<open>The result is the returned value and what was written, if the file was opened.\<close>

definition save_bmp ::
    "(nat \<Rightarrow> bool) \<Rightarrow> bool \<Rightarrow> byte list \<Rightarrow> u32 \<Rightarrow> u32 \<Rightarrow> (u32 \<times> byte list option) option" where
  "save_bmp mem can_open pRGBData width height =
     (if \<not> mem 1064 then None
      else
        let info = \<lparr>bmiHeader = \<lparr>biSize = 40, biWidth = width, biHeight = height, biPlanes = 1, biBitCount = 24,
                biCompression = 0, biSizeImage = 0, biXPelsPerMeter = 72, biYPelsPerMeter = 72, biClrUsed = 0,
                biClrImportant = 0\<rparr>, bmiColors = gray_colours\<rparr>;
            nTable = (if uint (biBitCount (bmiHeader info)) > 8 then 0 else 255 :: nat)
        in do {
          t \<leftarrow> ckd (sint width * sint height);
          _ \<leftarrow> ckd (t * ((uint (biBitCount (bmiHeader info)) + 7) div 8));
          bits \<leftarrow> ckd (sint width * uint (biBitCount (bmiHeader info)));
          rowBytes \<leftarrow> WIDTH_BYTES bits;
          t \<leftarrow> ckd (rowBytes * sint height);
          let dwImageSize = (word_of_int t :: u32);
          let info = info\<lparr>bmiHeader := (bmiHeader info)\<lparr>biSizeImage := dwImageSize\<rparr>\<rparr>;
          if dwImageSize = 0 then Some (0, None)
          else
            let off = (54 + of_nat (nTable * 4) :: u32);
                bfh = \<lparr>bfType = push_bit 8 77 OR 66, bfSize = off + dwImageSize, bfReserved1 = 0, bfReserved2 = 0, bfOffBits = off\<rparr>
            in if \<not> can_open then Some (0, None)
               else
                 let f = file_header_bytes bfh;
                     f = f @ take (40 + nTable * 4) (info_bytes info);
                     pTempData1 = calloc_n mem (uint dwImageSize) 1 0;
                     pTempData2 = calloc_n mem (uint (width * height * 3)) 1 0;
                     widthByteNum = (word_of_int rowBytes :: u32)
                 in do {
                   pTempData2 \<leftarrow> ChangeRows pRGBData pTempData2 width height;
                   pTempData1 \<leftarrow> foreach (\<lambda>(i, j) a.
                       do { v \<leftarrow> aget pTempData2 (unat (width * 3 * of_nat i + of_nat j));
                            aput (unat (of_nat i * widthByteNum + of_nat j)) v a })
                     (pixels (unat (width * 3)) (unat height)) pTempData1;
                   Some (bfSize bfh, Some (f @ pTempData1)) } })"

section \<open>Loading\<close>

text \<open>The result is the returned value, the header that was read and \<open>*ppImageBuffer\<close>, when it is assigned.\<close>

definition OpenBMPFile ::
    "(nat \<Rightarrow> bool) \<Rightarrow> (nat \<Rightarrow> byte) \<Rightarrow> byte list option \<Rightarrow> BITMAPINFO1 \<Rightarrow> bool \<Rightarrow>
      (int \<times> BITMAPINFO1 \<times> byte list option) option" where
  "OpenBMPFile mem junk hFile pBmpInfo ppImageBuffer =
     (case hFile of None \<Rightarrow> Some (0, pBmpInfo, None)
      | Some f \<Rightarrow>
        do { (h, f) \<leftarrow> fread_to 14 (map junk [0..<14]) f;
             let bfh = file_header_of h;
             if bfType bfh \<noteq> push_bit 8 77 OR 66 then Some (0, pBmpInfo, None)
             else do {
               (h, f) \<leftarrow> fread_to 40 (info_header_bytes (bmiHeader pBmpInfo)) f;
               let pBmpInfo = pBmpInfo\<lparr>bmiHeader := info_header_of h\<rparr>;
               let width = sint (biWidth (bmiHeader pBmpInfo));
               let height = sint (biHeight (bmiHeader pBmpInfo));
               let gap = bfOffBits bfh - 14 - 40;
               f \<leftarrow> (if gap > 0
                     then do { (_, f) \<leftarrow> fread_to (unat gap) (malloc_n mem junk (uint gap)) f; Some f }
                     else Some f);
               bits \<leftarrow> ckd (width * uint (biBitCount (bmiHeader pBmpInfo)));
               rowBytes \<leftarrow> WIDTH_BYTES bits;
               t \<leftarrow> ckd (rowBytes * height);
               let dwDataSize = (word_of_int t :: u32);
               let widthByteNum = (word_of_int rowBytes :: 16 word);
               t \<leftarrow> ckd (width * height);
               sz \<leftarrow> ckd (t * 3);
               let pImageBuffer = malloc_n mem junk sz;
               let pTempData1 = malloc_n mem junk sz;
               let pUpsideDownImageBuffer = malloc_n mem junk (uint dwDataSize);
               (pUpsideDownImageBuffer, f) \<leftarrow> fread_to (unat dwDataSize) pUpsideDownImageBuffer f;
               pTempData1 \<leftarrow> foreach (\<lambda>(i, j) a.
                   do { v \<leftarrow> aget pUpsideDownImageBuffer (i * unat widthByteNum + j);
                        aput (nat width * 3 * i + j) v a })
                 (pixels (nat (width * 3)) (nat height)) pTempData1;
               if ppImageBuffer
               then do { pImageBuffer \<leftarrow> ChangeRows pTempData1 pImageBuffer (word_of_int width) (word_of_int height);
                         Some (1, pBmpInfo, Some pImageBuffer) }
               else Some (1, pBmpInfo, None) } })"

section \<open>Headers are read back\<close>

lemma length_headers [simp]: "length (file_header_bytes h) = 14" "length (info_header_bytes g) = 40"
  by (simp_all add: file_header_bytes_def info_header_bytes_def)

lemma read_last: "read_u_long_int u (long_bytes v) = (0, v, [])"
  using read_long [of u v "[]"] by simp

lemma file_header_of_bytes: "file_header_of (file_header_bytes h) = h"
  by (simp add: file_header_of_def file_header_bytes_def short_at_def long_at_def read_short read_long read_last)

lemma info_header_of_bytes: "info_header_of (info_header_bytes h) = h"
  by (simp add: info_header_of_def info_header_bytes_def short_at_def long_at_def read_short read_long read_last)

section \<open>Rows and channels\<close>

text \<open>The place of channel \<open>d\<close> of the pixel at row \<open>i\<close> and column \<open>j\<close>.\<close>

definition px :: "nat \<Rightarrow> nat \<Rightarrow> nat \<Rightarrow> nat \<Rightarrow> nat" where
  "px w i j d = (i * w + j) * 3 + d"

lemma px_unique:
  assumes "j < w" and "j' < w" and "d < 3" and "d' < 3"
  shows "px w i j d = px w i' j' d' \<longleftrightarrow> i = i' \<and> j = j' \<and> d = d'"
  using pixel_unique [of d 3 d' "i * w + j" "i' * w + j'"] pixel_unique [of j w j' i i'] assms by (auto simp: px_def)

lemma px_less: "i < h \<Longrightarrow> j < w \<Longrightarrow> d < 3 \<Longrightarrow> px w i j d < 3 * (w * h)"
  using pixel_index [of "i * w + j" "w * h" d 3] pixel_index [of i h j w] by (simp add: px_def)

lemma px_of:
  assumes "n < 3 * (w * h)"
  obtains i j d where "i < h" "j < w" "d < 3" "n = px w i j d"
proof -
  obtain k d where k: "k < w * h" "d < 3" "n = k * 3 + d" using pixel_of [of n 3 "w * h"] assms by auto
  then obtain i j where "i < h" "j < w" "k = i * w + j" using pixel_of [of k w h] by auto
  then show thesis using that k by (simp add: px_def)
qed

lemma foreach_cong: "(\<And>x s. x \<in> set xs \<Longrightarrow> f x s = g x s) \<Longrightarrow> foreach f xs s = foreach g xs s"
proof (induction xs arbitrary: s)
  case (Cons x xs)
  then show ?case by (cases "g x s") simp_all
qed simp

lemma foreach_nest:
  "foreach (\<lambda>x s. foreach (g x) ys s) xs s = foreach (\<lambda>(x, y). g x y) (List.product xs ys) s"
proof (induction xs arbitrary: s)
  case (Cons x xs)
  have "foreach (g x) zs s = foreach (\<lambda>(x, y). g x y) (map (Pair x) zs) s" for zs s
    by (induction zs arbitrary: s) simp_all
  then show ?case using Cons.IH by (simp add: foreach_append)
qed simp

lemma unat_u32: "n < 2 ^ 32 \<Longrightarrow> unat (of_nat n :: u32) = n"
  by (simp add: unat_of_nat)

lemma uint_u32: "n < 2 ^ 32 \<Longrightarrow> uint (of_nat n :: u32) = int n"
  by (simp only: uint_nat unat_u32)

lemma sint_u32: "n < 2 ^ 31 \<Longrightarrow> sint (of_nat n :: u32) = int n"
  using small_int [of "int n"] by simp

lemma offset_word:
  assumes "i < h" and "j < w" and "3 * (w * h) < 2 ^ 32"
  shows "unat ((of_nat i * of_nat w + of_nat j) * 3 :: u32) = (i * w + j) * 3"
proof -
  have "(i * w + j) * 3 < 2 ^ 32" using px_less [of i h j w 0] assms by (simp add: px_def)
  moreover have "(of_nat i * of_nat w + of_nat j) * 3 = (of_nat ((i * w + j) * 3) :: u32)" by simp
  ultimately show ?thesis by (simp only: unat_u32)
qed

lemma channels: "foreach (\<lambda>d a. do { v \<leftarrow> aget inp (p + d); aput (q + (2 - d)) v a }) [0, 1, 2] out =
    do { v \<leftarrow> aget inp p; out \<leftarrow> aput (q + 2) v out; v \<leftarrow> aget inp (p + 1); out \<leftarrow> aput (q + 1) v out;
         v \<leftarrow> aget inp (p + 2); aput q v out }"
  by (cases "aput (q + 2) (inp ! p) out") (simp_all add: aget_def Option.bind_assoc)

lemma rows_changed:
  assumes "length out = 3 * (w * h)" and "3 * (w * h) \<le> length inp" and "3 * (w * h) < 2 ^ 32" and "0 < w" and "0 < h"
  shows "\<exists>b. ChangeRows inp out (of_nat w) (of_nat h) = Some b \<and> length b = 3 * (w * h) \<and>
    (\<forall>i<h. \<forall>j<w. \<forall>d<3. b ! px w i j d = inp ! px w (h - 1 - i) j (2 - d))"
proof -
  let ?k = "\<lambda>((i, j), d). px w (h - 1 - i) j (2 - d)" and ?rd = "\<lambda>((i, j), d). aget inp (px w i j d)"
  let ?xs = "List.product (pixels w h) [0, 1, 2]"
  have le: "w \<le> w * h" "h \<le> w * h" using assms(4,5) by simp_all
  have u: "unat (of_nat w :: u32) = w" "unat (of_nat h :: u32) = h" by (rule unat_u32; use le assms(3) in linarith)+
  have "ChangeRows inp out (of_nat w) (of_nat h) =
      foreach (\<lambda>x a. foreach (\<lambda>d a. do { y \<leftarrow> ?rd (x, d); aput (?k (x, d)) y a }) [0, 1, 2] a) (pixels w h) out"
    unfolding ChangeRows_def u
  proof (rule foreach_cong)
    fix x a
    assume "x \<in> set (pixels w h)"
    then obtain i j where x: "x = (i, j)" "i < h" "j < w" by auto
    have h: "of_nat h - of_nat i - 1 = (of_nat (h - 1 - i) :: u32)" using x(2) by (simp add: of_nat_diff)
    show "(case x of (i, j) \<Rightarrow> \<lambda>out.
         (let offsetin = unat ((of_nat i * of_nat w + of_nat j) * 3 :: u32);
              offsetout = unat (((of_nat h - of_nat i - 1) * of_nat w + of_nat j) * 3 :: u32)
          in do { v \<leftarrow> aget inp offsetin;
                  out \<leftarrow> aput (offsetout + 2) v out;
                  v \<leftarrow> aget inp (offsetin + 1);
                  out \<leftarrow> aput (offsetout + 1) v out;
                  v \<leftarrow> aget inp (offsetin + 2);
                  aput offsetout v out })) a = foreach (\<lambda>d a. do { y \<leftarrow> ?rd (x, d); aput (?k (x, d)) y a }) [0, 1, 2] a"
      using offset_word [OF x(2,3) assms(3)] offset_word [of "h - 1 - i" h j w] x(2,3) assms(3)
      unfolding x(1) prod.case h px_def channels by (simp add: Let_def)
  qed
  then have e: "ChangeRows inp out (of_nat w) (of_nat h) = foreach (\<lambda>x a. do { y \<leftarrow> ?rd x; aput (?k x) y a }) ?xs out"
    unfolding foreach_nest by (simp only: case_prod_unfold prod.collapse)
  have s: "x \<in> set ?xs \<longleftrightarrow> (\<exists>i j d. x = ((i, j), d) \<and> i < h \<and> j < w \<and> d < 3)" for x :: "(nat \<times> nat) \<times> nat"
    by (auto simp: less_Suc_eq numeral_3_eq_3 numeral_2_eq_2)
  have inj: "inj_on ?k (set ?xs)"
    unfolding inj_on_def s using px_unique [of _ w] by auto
  have "?k x < length out \<and> ?rd x = Some (case x of ((i, j), d) \<Rightarrow> inp ! px w i j d)" if "x \<in> set ?xs" for x
  proof -
    obtain i j d where x: "x = ((i, j), d)" "i < h" "j < w" "d < 3" using \<open>x \<in> set ?xs\<close> s by auto
    have "px w i j d < length inp" using px_less [OF x(2-4)] assms(2) by linarith
    then show ?thesis using x px_less [of "h - 1 - i" h j w "2 - d"] assms(1) by (simp add: aget_in)
  qed
  from foreach_put [of ?xs ?k out ?rd, OF this]
  obtain b where b: "ChangeRows inp out (of_nat w) (of_nat h) = Some b" "length b = 3 * (w * h)"
      "\<forall>x\<in>set ?xs. b ! ?k x = (case x of ((i, j), d) \<Rightarrow> inp ! px w i j d)"
    using inj e assms(1) by auto
  have "b ! px w i j d = inp ! px w (h - 1 - i) j (2 - d)" if "i < h" "j < w" "d < 3" for i j d
  proof -
    have "((h - 1 - i, j), 2 - d) \<in> set ?xs" unfolding s using that by auto
    from bspec [OF b(3) this] show ?thesis using that by simp
  qed
  then show ?thesis using b(1,2) by blast
qed

text \<open>Changing the rows twice gives the picture back.\<close>

lemma rows_changed_twice:
  assumes "length out = 3 * (w * h)" and "length out' = 3 * (w * h)" and "length inp = 3 * (w * h)"
    and "3 * (w * h) < 2 ^ 32" and "0 < w" and "0 < h"
  shows "\<exists>b. ChangeRows inp out (of_nat w) (of_nat h) = Some b \<and> length b = 3 * (w * h) \<and>
    ChangeRows b out' (of_nat w) (of_nat h) = Some inp"
proof -
  obtain b where b: "ChangeRows inp out (of_nat w) (of_nat h) = Some b" "length b = 3 * (w * h)"
      "\<forall>i<h. \<forall>j<w. \<forall>d<3. b ! px w i j d = inp ! px w (h - 1 - i) j (2 - d)"
    using rows_changed [OF assms(1) _ assms(4-6), of inp] assms(3) by auto
  obtain c where c: "ChangeRows b out' (of_nat w) (of_nat h) = Some c" "length c = 3 * (w * h)"
      "\<forall>i<h. \<forall>j<w. \<forall>d<3. c ! px w i j d = b ! px w (h - 1 - i) j (2 - d)"
    using rows_changed [OF assms(2) _ assms(4-6), of b] b(2) by auto
  have "c = inp"
  proof (rule nth_equalityI)
    fix n
    assume "n < length c"
    then obtain i j d where n: "i < h" "j < w" "d < 3" "n = px w i j d" using px_of [of n w h] c(2) by auto
    then have "c ! n = inp ! px w (h - 1 - (h - 1 - i)) j (2 - (2 - d))" using c(3) b(3) by simp
    then show "c ! n = inp ! n" using n by simp
  qed (simp add: c(2) assms(3))
  then show ?thesis using b(1,2) c(1) by blast
qed

section \<open>Padded rows\<close>

lemma copy_rows:
  assumes "\<And>i j. i < h \<Longrightarrow> j < w \<Longrightarrow> to i j = i * B + j \<and> from i j = i * A + j"
    and "h * A \<le> length src" and "h * B \<le> length dst" and "w \<le> A" and "w \<le> B"
  shows "\<exists>b. foreach (\<lambda>(i, j) a. do { v \<leftarrow> aget src (from i j); aput (to i j) v a }) (pixels w h) dst = Some b \<and>
    length b = length dst \<and> (\<forall>i<h. \<forall>j<w. b ! (i * B + j) = src ! (i * A + j))"
proof -
  let ?k = "\<lambda>(i, j). to i j" and ?rd = "\<lambda>(i, j). aget src (from i j)"
  have "i * A + j < length src \<and> i * B + j < length dst" if "i < h" "j < w" for i j
    using pixel_index [of i h j A] pixel_index [of i h j B] that assms(2-5) by (simp add: mult.commute)
  then have r: "?k x < length dst \<and> ?rd x = Some (case x of (i, j) \<Rightarrow> src ! (i * A + j))" if "x \<in> set (pixels w h)" for x
    using that assms(1) by (auto simp: aget_def)
  have inj: "inj_on ?k (set (pixels w h))"
    unfolding inj_on_def using assms(1,5) by (auto simp: pixel_unique)
  have "(\<lambda>(i, j) a. do { v \<leftarrow> aget src (from i j); aput (to i j) v a }) = (\<lambda>x a. do { v \<leftarrow> ?rd x; aput (?k x) v a })"
    by (simp add: fun_eq_iff)
  then show ?thesis using foreach_put [of "pixels w h" ?k dst ?rd, OF r] inj assms(1) by (force simp: case_prod_unfold)
qed

section \<open>A saved picture is loaded\<close>

text \<open>The bytes of a row in the file, filled up to a multiple of four.\<close>

definition stride :: "nat \<Rightarrow> nat" where
  "stride w = (24 * w + 31) div 32 * 4"

lemma stride_row: "3 * w \<le> stride w"
proof -
  have "24 * w \<le> (24 * w + 31) div 32 * 32" by linarith
  then show ?thesis by (simp add: stride_def)
qed

lemma WIDTH_BYTES_stride:
  assumes "24 * w + 31 < 2 ^ 31"
  shows "WIDTH_BYTES (int w * 24) = Some (int (stride w))"
proof -
  have b: "stride w \<le> 24 * w + 31" unfolding stride_def by linarith
  have "(int w * 24 + 31) sdiv 32 = (24 * int w + 31) div 32"
    by (simp add: signed_divide_int_def sgn_if mult.commute)
  moreover have "(24 * int w + 31) div 32 * 4 = int (stride w)"
    by (simp add: stride_def zdiv_int)
  ultimately show ?thesis using assms b by (simp add: WIDTH_BYTES_def ckd_def)
qed

definition bmp_fits :: "(nat \<Rightarrow> bool) \<Rightarrow> nat \<Rightarrow> nat \<Rightarrow> bool" where
  "bmp_fits mem w h \<longleftrightarrow> 0 < w \<and> 0 < h \<and> 24 * w + 31 < 2 ^ 31 \<and> stride w * h < 2 ^ 31 \<and> mem 1064 \<and> mem (stride w * h) \<and> mem (3 * (w * h))"

definition saved_header :: "nat \<Rightarrow> nat \<Rightarrow> BITMAPINFOHEADER1" where
  "saved_header w h =
     \<lparr>biSize = 40, biWidth = of_nat w, biHeight = of_nat h, biPlanes = 1, biBitCount = 24, biCompression = 0,
      biSizeImage = of_nat (stride w * h), biXPelsPerMeter = 72, biYPelsPerMeter = 72, biClrUsed = 0, biClrImportant = 0\<rparr>"

lemma saved:
  assumes "bmp_fits mem w h" and "length rgb = 3 * (w * h)"
  obtains t2 t1 where "ChangeRows rgb (replicate (3 * (w * h)) 0) (of_nat w) (of_nat h) = Some t2" "length t2 = 3 * (w * h)"
    "length t1 = stride w * h" "\<forall>i<h. \<forall>j<3 * w. t1 ! (i * stride w + j) = t2 ! (i * (3 * w) + j)"
    "save_bmp mem True rgb (of_nat w) (of_nat h) = Some (of_nat (54 + stride w * h),
       Some (file_header_bytes \<lparr>bfType = push_bit 8 77 OR 66, bfSize = of_nat (54 + stride w * h), bfReserved1 = 0, bfReserved2 = 0,
           bfOffBits = 54\<rparr> @ info_header_bytes (saved_header w h) @ t1))"
proof -
  let ?z = "replicate (3 * (w * h)) (0 :: byte)" and ?B = "stride w"
  have f: "0 < w" "0 < h" "24 * w + 31 < 2 ^ 31" "?B * h < 2 ^ 31" "mem 1064" "mem (?B * h)" "mem (3 * (w * h))"
    using assms(1) by (simp_all add: bmp_fits_def)
  define n where "n = w * h"
  define m where "m = ?B * h"
  have "3 * w * h \<le> ?B * h" using stride_row by simp
  then have "3 * n \<le> m" "h \<le> n" "w \<le> n" "m < 2 ^ 31" using f by (simp_all add: n_def m_def)
  then have "3 * n < 2 ^ 31" "h < 2 ^ 31" "n < 2 ^ 31" "w < 2 ^ 31" "3 * w < 2 ^ 31" by linarith+
  then have s: "3 * (w * h) < 2 ^ 32" "h < 2 ^ 31" "w * h < 2 ^ 31" "w < 2 ^ 31" "3 * w < 2 ^ 31" "3 * (w * h) < 2 ^ 31"
    unfolding n_def by simp_all
  obtain t2 where t2: "ChangeRows rgb ?z (of_nat w) (of_nat h) = Some t2" "length t2 = 3 * (w * h)"
    using rows_changed_twice [of ?z w h ?z rgb] assms(2) s(1) f(1,2) by auto
  have at: "unat (of_nat i * of_nat ?B + of_nat j :: u32) = i * ?B + j"
      "unat (of_nat w * 3 * of_nat i + of_nat j :: u32) = i * (3 * w) + j" if "i < h" "j < 3 * w" for i j
  proof -
    have "i * ?B + j < ?B * h" "i * (3 * w) + j < 3 * w * h"
      using pixel_index [of i h j ?B] pixel_index [of i h j "3 * w"] that stride_row [of w] by linarith+
    moreover have "3 * w * h = 3 * (w * h)" by simp
    ultimately have "i * ?B + j < 2 ^ 32" "i * (3 * w) + j < 2 ^ 32" using s(1) f(4) by simp_all
    then show "unat (of_nat i * of_nat ?B + of_nat j :: u32) = i * ?B + j"
        "unat (of_nat w * 3 * of_nat i + of_nat j :: u32) = i * (3 * w) + j"
      using unat_u32 [of "i * ?B + j"] unat_u32 [of "i * (3 * w) + j"] by (simp_all add: mult_ac)
  qed
  let ?y = "replicate (?B * h) (0 :: byte)"
  obtain t1 where t1: "foreach (\<lambda>(i, j) a. do { v \<leftarrow> aget t2 (unat (of_nat w * 3 * of_nat i + of_nat j :: u32));
        aput (unat (of_nat i * of_nat ?B + of_nat j :: u32)) v a }) (pixels (3 * w) h) ?y = Some t1"
      "length t1 = ?B * h" "\<forall>i<h. \<forall>j<3 * w. t1 ! (i * ?B + j) = t2 ! (i * (3 * w) + j)"
    using copy_rows [of h "3 * w" "\<lambda>i j. unat (of_nat i * of_nat ?B + of_nat j :: u32)" ?B
        "\<lambda>i j. unat (of_nat w * 3 * of_nat i + of_nat j :: u32)" "3 * w" t2 ?y] at t2(2) stride_row [of w]
    by (auto simp: mult_ac)
  have u: "unat (of_nat w :: u32) = w" "unat (of_nat h :: u32) = h" "unat (of_nat w * 3 :: u32) = 3 * w"
      "sint (of_nat w :: u32) = int w" "sint (of_nat h :: u32) = int h" "uint (of_nat w * of_nat h * 3 :: u32) = int (3 * (w * h))"
    using s unat_u32 [of w] unat_u32 [of h] unat_u32 [of "3 * w"] uint_u32 [of "3 * (w * h)"] sint_u32 [of w] sint_u32 [of h]
    by (simp_all add: mult_ac)
  have "0 < m" using f(1,2) stride_row [of w] by (simp add: m_def)
  then have "unat (of_nat m :: u32) \<noteq> 0" "uint (of_nat m :: u32) = int m"
    using f(4) unat_u32 [of m] uint_u32 [of m] by (simp_all add: m_def [symmetric])
  then have d: "(of_nat m :: u32) \<noteq> 0" "uint (of_nat m :: u32) = int m" by auto
  have c: "calloc_n mem (int m) 1 (0 :: byte) = ?y" "calloc_n mem (int (3 * (w * h))) 1 (0 :: byte) = ?z"
    using f(4,6,7) s(1) by (simp_all add: calloc_n_def Let_def m_def [symmetric] del: of_nat_mult)
  have p: "int w * int h = int (w * h)" "int (w * h) * 3 = int (3 * (w * h))" "int ?B * int h = int m" by (simp_all add: m_def)
  have k: "ckd (int k) = Some (int k)" if "k < 2 ^ 31" for k using that by simp
  have "ckd (int w * int h) = Some (int (w * h))" "ckd (int (w * h) * 3) = Some (int (3 * (w * h)))"
      "ckd (int ?B * int h) = Some (int m)" "ckd (int w * 24) = Some (int (w * 24))"
    unfolding p using k [of "w * h"] k [of "3 * (w * h)"] k [of m] k [of "w * 24"] s(3,6) f(3,4) by (simp_all add: m_def)
  moreover have "WIDTH_BYTES (int (w * 24)) = Some (int ?B)" using WIDTH_BYTES_stride [OF f(3)] by simp
  moreover have "take 40 (info_bytes \<lparr>bmiHeader = saved_header w h, bmiColors = gray_colours\<rparr>) = info_header_bytes (saved_header w h)"
    by (simp add: info_bytes_def)
  ultimately have "save_bmp mem True rgb (of_nat w) (of_nat h) = Some (of_nat (54 + m),
       Some (file_header_bytes \<lparr>bfType = push_bit 8 77 OR 66, bfSize = of_nat (54 + m), bfReserved1 = 0, bfReserved2 = 0,
           bfOffBits = 54\<rparr> @ info_header_bytes (saved_header w h) @ t1))"
    using f(5) t1(1) t2(1) u d c
    by (simp add: save_bmp_def saved_header_def Let_def m_def [symmetric] del: ckd_Some)
  then show ?thesis using that t1(2,3) t2 unfolding m_def by blast
qed

lemma fread_exact: "length a = n \<Longrightarrow> length buf = n \<Longrightarrow> fread_to n buf (a @ f) = Some (a, f)"
  by (simp add: fread_to_def)

lemma fread_last: "length a = n \<Longrightarrow> length buf = n \<Longrightarrow> fread_to n buf a = Some (a, [])"
  using fread_exact [of a n buf "[]"] by simp

text \<open>A picture that \<open>save_bmp\<close> saves is loaded by \<open>OpenBMPFile\<close> as it was, byte for byte, and the
  returned size is the length of the file, as long as a row of the file has less than 65536 bytes.\<close>

lemma saved_bmp_loaded:
  assumes "bmp_fits mem w h" and "length rgb = 3 * (w * h)" and "stride w < 2 ^ 16"
  shows "\<exists>c. save_bmp mem True rgb (of_nat w) (of_nat h) = Some (of_nat (length c), Some c) \<and>
    OpenBMPFile mem junk (Some c) info True = Some (1, info\<lparr>bmiHeader := saved_header w h\<rparr>, Some rgb)"
proof -
  let ?B = "stride w"
  have f: "0 < w" "0 < h" "24 * w + 31 < 2 ^ 31" "?B * h < 2 ^ 31" "mem (?B * h)" "mem (3 * (w * h))"
    using assms(1) by (simp_all add: bmp_fits_def)
  define n where "n = w * h"
  define m where "m = ?B * h"
  have "3 * w * h \<le> ?B * h" using stride_row by simp
  then have "3 * n \<le> m" "h \<le> n" "w \<le> n" "m < 2 ^ 31" using f by (simp_all add: n_def m_def)
  then have s: "3 * n < 2 ^ 32" "h < 2 ^ 31" "n < 2 ^ 31" "w < 2 ^ 31" "3 * n < 2 ^ 31" "m < 2 ^ 32" by simp_all
  obtain t2 t1 where t: "ChangeRows rgb (replicate (3 * (w * h)) 0) (of_nat w) (of_nat h) = Some t2" "length t2 = 3 * (w * h)"
    "length t1 = m" "\<forall>i<h. \<forall>j<3 * w. t1 ! (i * ?B + j) = t2 ! (i * (3 * w) + j)"
    "save_bmp mem True rgb (of_nat w) (of_nat h) = Some (of_nat (54 + m),
       Some (file_header_bytes \<lparr>bfType = push_bit 8 77 OR 66, bfSize = of_nat (54 + m), bfReserved1 = 0, bfReserved2 = 0,
           bfOffBits = 54\<rparr> @ info_header_bytes (saved_header w h) @ t1))"
    unfolding m_def by (rule saved [OF assms(1,2)])
  let ?m = "\<lambda>k. map junk [0..<k]"
  obtain t3 where t3: "foreach (\<lambda>(i, j) a. do { v \<leftarrow> aget t1 (i * ?B + j); aput (w * 3 * i + j) v a }) (pixels (3 * w) h) (?m (3 * n)) = Some t3"
      "length t3 = 3 * n" "\<forall>i<h. \<forall>j<3 * w. t3 ! (i * (3 * w) + j) = t1 ! (i * ?B + j)"
    using copy_rows [of h "3 * w" "\<lambda>i j. w * 3 * i + j" "3 * w" "\<lambda>i j. i * ?B + j" ?B t1 "?m (3 * n)"] t(3) stride_row [of w]
    by (auto simp: mult_ac n_def m_def)
  have "t3 = t2"
  proof (rule nth_equalityI)
    fix k
    assume "k < length t3"
    then obtain i j where "i < h" "j < 3 * w" "k = i * (3 * w) + j"
      using pixel_of [of k "3 * w" h] t3(2) by (auto simp: n_def mult_ac)
    then show "t3 ! k = t2 ! k" using t3(3) t(4) by simp
  qed (simp add: t3(2) t(2) n_def)
  moreover have "ChangeRows t2 (?m (3 * n)) (of_nat w) (of_nat h) = Some rgb"
    using rows_changed_twice [of "replicate (3 * (w * h)) 0" w h "?m (3 * n)" rgb] t(1) assms(2) s(1) f(1,2) by (simp add: n_def)
  moreover have "malloc_n mem junk (int (3 * n)) = ?m (3 * n)" "malloc_n mem junk (int m) = ?m m"
    using f(5,6) s(1,6) by (simp_all add: malloc_n_def Let_def m_def n_def del: of_nat_mult)
  moreover have "sint (of_nat w :: u32) = int w" "sint (of_nat h :: u32) = int h" "uint (of_nat m :: u32) = int m"
      "unat (of_nat m :: u32) = m" "unat (of_nat ?B :: 16 word) = ?B" "nat (int w * 3) = 3 * w"
    using sint_u32 [of w] sint_u32 [of h] uint_u32 [of m] unat_u32 [of m] s assms(3) by (simp_all add: unat_of_nat)
  moreover have p: "int w * int h = int n" "int n * 3 = int (3 * n)" "int ?B * int h = int m" by (simp_all add: m_def n_def)
  have k: "ckd (int k) = Some (int k)" if "k < 2 ^ 31" for k using that by simp
  have "ckd (int w * int h) = Some (int n)" "ckd (int n * 3) = Some (int (3 * n))"
      "ckd (int ?B * int h) = Some (int m)" "ckd (int w * 24) = Some (int (w * 24))"
    unfolding p using k [of n] k [of "3 * n"] k [of m] k [of "w * 24"] s(3,5) f(3,4) by (simp_all add: m_def)
  moreover have "WIDTH_BYTES (int (w * 24)) = Some (int ?B)" using WIDTH_BYTES_stride [OF f(3)] by simp
  ultimately have "OpenBMPFile mem junk (Some (file_header_bytes \<lparr>bfType = push_bit 8 77 OR 66, bfSize = of_nat (54 + m),
        bfReserved1 = 0, bfReserved2 = 0, bfOffBits = 54\<rparr> @ info_header_bytes (saved_header w h) @ t1)) info True =
      Some (1, info\<lparr>bmiHeader := saved_header w h\<rparr>, Some rgb)"
    using t3(1) t(3)
    by (simp add: OpenBMPFile_def fread_exact fread_last file_header_of_bytes info_header_of_bytes Let_def saved_header_def
        m_def [symmetric] del: ckd_Some)
  then show ?thesis using t(3,5) by (intro exI [of _ "file_header_bytes \<lparr>bfType = push_bit 8 77 OR 66, bfSize = of_nat (54 + m),
        bfReserved1 = 0, bfReserved2 = 0, bfOffBits = 54\<rparr> @ info_header_bytes (saved_header w h) @ t1"]) simp
qed

lemma saved_bmp_loaded_example:
  "\<exists>c. save_bmp (\<lambda>_. True) True [1, 2, 3, 4, 5, 6] 1 2 = Some (of_nat (length c), Some c) \<and>
    OpenBMPFile (\<lambda>_. True) (\<lambda>_. 0) (Some c) \<lparr>bmiHeader = saved_header 0 0, bmiColors = []\<rparr> True
      = Some (1, \<lparr>bmiHeader = saved_header 1 2, bmiColors = []\<rparr>, Some [1, 2, 3, 4, 5, 6])"
  using saved_bmp_loaded [of "\<lambda>_. True" 1 2 "[1, 2, 3, 4, 5, 6]" "\<lambda>_. 0" "\<lparr>bmiHeader = saved_header 0 0, bmiColors = []\<rparr>"]
  by (simp add: bmp_fits_def stride_def)

section \<open>Channels in place\<close>

text \<open>On one array \<open>convertRGB2BGR\<close> swaps red and blue of a pixel; on two arrays it stores as blue what the
  output array held as red, never the input's.\<close>

lemma channels_swapped:
  assumes "length out = 3"
  shows "convertRGB2BGR None out 1 1 = Some [out ! 2, out ! 1, out ! 0]"
    and "length a = 3 \<Longrightarrow> convertRGB2BGR (Some a) out 1 1 = Some [out ! 2, a ! 1, a ! 0]"
proof -
  obtain x y z where out: "out = [x, y, z]" using assms by (auto simp: numeral_3_eq_3 length_Suc_conv)
  have p: "pixels (Suc 0) (Suc 0) = [(0, 0)]" by (simp add: pixels_def)
  show "convertRGB2BGR None out 1 1 = Some [out ! 2, out ! 1, out ! 0]"
    by (simp add: convertRGB2BGR_def out p aget_def aput_def Let_def)
  show "length a = 3 \<Longrightarrow> convertRGB2BGR (Some a) out 1 1 = Some [out ! 2, a ! 1, a ! 0]"
    by (simp add: convertRGB2BGR_def out p aget_def aput_def Let_def)
qed

end
