(* ===== verification/Image_Yuv.thy ===== *)
theory Image_Yuv
  imports Image_Bitmap
begin

text \<open>
  The pictures of the hdr test (hdr/util.cpp): the list of input frames, the two layouts of 4:2:0 data, planes one
  after the other and NV21 with the two chroma channels interleaved, the conversion to RGB and the functions
  that save pictures. A variable that counts the rounds of a nested loop, as the index \<open>s\<close> or a pointer that
  is moved on, is the number of the pixel in \<^const>\<open>List.enumerate\<close>.
\<close>

section \<open>Input frames\<close>

definition MAX_FRAME_NUM :: nat where "MAX_FRAME_NUM = 2"

definition MAX_FILENAME_LENGTH :: nat where "MAX_FILENAME_LENGTH = 512"

definition c_string :: "string \<Rightarrow> string" where
  "c_string s = takeWhile (\<lambda>c. c \<noteq> CHR 0x00) s"

text \<open>One round of the loop over the characters, on the copy of the argument, the place where the next frame
  starts and the frames that were found. \<open>strdup\<close> is taken to find memory.\<close>

definition frame_round :: "nat \<Rightarrow> nat \<Rightarrow> string \<times> nat \<times> string list \<Rightarrow> string \<times> nat \<times> string list" where
  "frame_round len i = (\<lambda>(arg, idx, inputs).
     if \<not> length inputs < MAX_FRAME_NUM then (arg, idx, inputs)
     else if arg ! i \<noteq> CHR ''|'' \<and> int i \<noteq> int len - 1 then (arg, idx, inputs)
     else
       let arg = (if arg ! i = CHR ''|'' then arg[i := CHR 0x00] else arg)
       in (arg, i + 1, inputs @ [c_string (drop idx arg)]))"

definition parse_input_frames :: "string \<Rightarrow> string list" where
  "parse_input_frames optarg =
     (let arg = c_string optarg; len = length arg; (_, _, inputs) = fold (frame_round len) [0..<len] (arg, 0, [])
      in inputs)"

section \<open>Colours\<close>

definition ISP_CLIP :: "int \<Rightarrow> int \<Rightarrow> int \<Rightarrow> int" where
  "ISP_CLIP val hi lo = (let val = (if val > hi then hi else val) in if val < lo then lo else val)"

definition s16 :: "int \<Rightarrow> int" where
  "s16 v = sint (word_of_int v :: 16 word)"

text \<open>The red, green and blue of one pixel.\<close>

definition yuv_pixel :: "byte \<Rightarrow> byte \<Rightarrow> byte \<Rightarrow> byte \<times> byte \<times> byte" where
  "yuv_pixel y_val u_val v_val =
     (let y = uint y_val; u = uint u_val; v = uint v_val;
          red_val = ISP_CLIP (s16 (y + drop_bit 8 (v * 359 + 128) - 180)) 255 0;
          green_val = ISP_CLIP (s16 (y - drop_bit 8 (u * 88 + 128) - drop_bit 8 (v * 183 + 128) + 136)) 255 0;
          blue_val = ISP_CLIP (s16 (y + drop_bit 8 (u * 454 + 128) - 227)) 255 0
      in (word_of_int red_val, word_of_int green_val, word_of_int blue_val))"

text \<open>The width and height that are passed are cut to 16 bits.\<close>

definition yuv2rgb :: "byte list \<Rightarrow> byte list \<Rightarrow> int \<Rightarrow> int \<Rightarrow> byte list option" where
  "yuv2rgb inp out w h =
     (let iwidth = nat (w mod 65536); iheight = nat (h mod 65536)
      in do { n \<leftarrow> ckd (int iwidth * int iheight);
              foreach (\<lambda>(k, iy, ix) out.
                do { y_val \<leftarrow> aget inp k;
                     let uv_pos = iy * iwidth + ix;
                     u_val \<leftarrow> aget inp (nat n + uv_pos);
                     v_val \<leftarrow> aget inp (nat n + nat n + uv_pos);
                     let (red, green, blue) = yuv_pixel y_val u_val v_val;
                     out \<leftarrow> aput (3 * k) red out;
                     out \<leftarrow> aput (3 * k + 1) green out;
                     aput (3 * k + 2) blue out }) (List.enumerate 0 (pixels iwidth iheight)) out })"

section \<open>Layouts\<close>

definition memcpy_n :: "int \<Rightarrow> byte list \<Rightarrow> byte list \<Rightarrow> byte list option" where
  "memcpy_n n src dst =
     (let k = nat (n mod 2 ^ 32) in if k \<le> length src \<and> k \<le> length dst then Some (take k src @ drop k dst) else None)"

text \<open>The loop over \<open>c\<close> goes in steps of two.\<close>

definition yvu420s_yuv420p :: "byte list \<Rightarrow> int \<Rightarrow> int \<Rightarrow> byte list \<Rightarrow> byte list option" where
  "yvu420s_yuv420p yvu420s width height yuv420p =
     (let uv_w = width; uv_h = height sdiv 2
      in do { y_pix_num \<leftarrow> ckd (width * height);
              yuv420p \<leftarrow> memcpy_n y_pix_num yvu420s yuv420p;
              foreach (\<lambda>(s, r, c) out.
                do { u \<leftarrow> aget yvu420s (nat y_pix_num + r * nat uv_w + 2 * c + 1);
                     out \<leftarrow> aput (nat y_pix_num + s) u out;
                     v \<leftarrow> aget yvu420s (nat y_pix_num + r * nat uv_w + 2 * c);
                     t \<leftarrow> ckd (y_pix_num * 5);
                     aput (nat (t sdiv 4) + s) v out })
                (List.enumerate 0 (pixels (nat ((uv_w + 1) sdiv 2)) (nat uv_h))) yuv420p })"

definition yuv420p_yvu420s :: "byte list \<Rightarrow> int \<Rightarrow> int \<Rightarrow> byte list \<Rightarrow> byte list option" where
  "yuv420p_yvu420s yuv420p width height yvu420s =
     (let uv_width = width sdiv 2; uv_height = height sdiv 2
      in do { pix_num \<leftarrow> ckd (width * height);
              yvu420s \<leftarrow> memcpy_n pix_num yuv420p yvu420s;
              let uv_ptr = nat pix_num;
              let u_ptr = nat pix_num;
              let v_ptr = u_ptr + nat (pix_num sdiv 4);
              let s = nat uv_width;
              foreach (\<lambda>(n, r, c) out.
                do { v \<leftarrow> aget yuv420p (v_ptr + (r * s + c));
                     out \<leftarrow> aput (uv_ptr + 2 * n) v out;
                     u \<leftarrow> aget yuv420p (u_ptr + (r * s + c));
                     aput (uv_ptr + 2 * n + 1) u out })
                (List.enumerate 0 (pixels (nat uv_width) (nat uv_height))) yvu420s })"

section \<open>Saving\<close>

text \<open>Each pixel gets the chroma of its block of four.\<close>

definition upsample :: "byte list \<Rightarrow> int \<Rightarrow> int \<Rightarrow> byte list \<Rightarrow> byte list option" where
  "upsample src w h pYUV =
     foreach (\<lambda>(i, j) out.
       (let W = nat w; n = nat (w * h); uv = i div 2 * W div 2 + j div 2
        in do { y \<leftarrow> aget src (i * W + j);
                out \<leftarrow> aput (i * W + j) y out;
                u \<leftarrow> aget src (uv + n);
                out \<leftarrow> aput (i * W + j + n) u out;
                t \<leftarrow> ckd (w * h * 5);
                v \<leftarrow> aget src (uv + nat (t sdiv 4));
                aput (i * W + j + n * 2) v out })) (pixels (nat w) (nat h)) pYUV"

text \<open>The part of \<open>yuv420tobmp\<close> under \<open>if (0)\<close> never runs.\<close>

definition yuv420tobmp ::
    "(nat \<Rightarrow> bool) \<Rightarrow> (nat \<Rightarrow> byte) \<Rightarrow> bool \<Rightarrow> byte list \<Rightarrow> int \<Rightarrow> int \<Rightarrow> (u32 \<times> byte list option) option" where
  "yuv420tobmp mem junk can_open imgData w h =
     do { n \<leftarrow> ckd (w * h);
          n3 \<leftarrow> ckd (n * 3);
          pYUV \<leftarrow> upsample imgData w h (malloc_n mem junk n3);
          pRGB \<leftarrow> yuv2rgb pYUV (malloc_n mem junk n3) w h;
          save_bmp mem can_open pRGB (word_of_int w) (word_of_int h) }"

definition save_as_bmp ::
    "(nat \<Rightarrow> bool) \<Rightarrow> (nat \<Rightarrow> byte) \<Rightarrow> bool \<Rightarrow> string \<Rightarrow> byte list \<Rightarrow> int \<Rightarrow> int \<Rightarrow> (u32 \<times> byte list option) option" where
  "save_as_bmp mem junk can_open fileName imgData w h =
     (if length (c_string fileName) + 5 > MAX_FILENAME_LENGTH then None
      else do { n \<leftarrow> ckd (w * h);
                n3 \<leftarrow> ckd (n * 3);
                pTmp \<leftarrow> yvu420s_yuv420p imgData w h (malloc_n mem junk (n3 sdiv 2));
                pYUV \<leftarrow> upsample pTmp w h (malloc_n mem junk n3);
                pRGB \<leftarrow> yuv2rgb pYUV (malloc_n mem junk n3) w h;
                save_bmp mem can_open pRGB (word_of_int w) (word_of_int h) })"

definition save_as_nv21 :: "bool \<Rightarrow> string \<Rightarrow> byte list \<Rightarrow> int \<Rightarrow> int \<Rightarrow> byte list option" where
  "save_as_nv21 can_open fileName imgData w h =
     (if length (c_string fileName) + 6 > MAX_FILENAME_LENGTH then None
      else if \<not> can_open then None
      else do { n \<leftarrow> ckd (w * h);
                n3 \<leftarrow> ckd (n * 3);
                let k = nat ((n3 sdiv 2) mod 2 ^ 32);
                if k \<le> length imgData then Some (take k imgData) else None })"

section \<open>Frames\<close>

lemma no_bar: "i < length a \<Longrightarrow> a ! i \<noteq> CHR ''|'' \<Longrightarrow> i + 1 < len \<Longrightarrow> frame_round len i (a, idx, fs) = (a, idx, fs)"
  by (simp add: frame_round_def)

lemma full_rounds: "MAX_FRAME_NUM \<le> length fs \<Longrightarrow> fold (frame_round len) is (a, idx, fs) = (a, idx, fs)"
  by (induction "is") (simp_all add: frame_round_def)

text \<open>Inside a frame nothing happens.\<close>

lemma frame_rounds:
  assumes "\<And>i. i \<in> set is \<Longrightarrow> i < length a \<and> a ! i \<noteq> CHR ''|'' \<and> i + 1 < len"
  shows "fold (frame_round len) is (a, idx, fs) = (a, idx, fs)"
  using assms by (induction "is") (simp_all add: no_bar)

text \<open>The text from \<open>k\<close> on is a list of frames, none with a bar or a null character.\<close>

definition plain :: "string \<Rightarrow> bool" where
  "plain s \<longleftrightarrow> CHR ''|'' \<notin> set s \<and> CHR 0x00 \<notin> set s"

fun joined :: "string list \<Rightarrow> string" where
  "joined [] = []"
| "joined [f] = f"
| "joined (f # g # fs) = f @ CHR ''|'' # joined (g # fs)"

lemma c_string_plain: "plain s \<Longrightarrow> c_string (s @ CHR 0x00 # t) = s" "plain s \<Longrightarrow> c_string s = s"
  unfolding c_string_def plain_def by (auto simp: takeWhile_append takeWhile_eq_all_conv)

lemma parsed:
  assumes "\<And>f. f \<in> set fs \<Longrightarrow> plain f" and "fs \<noteq> []" and "last fs \<noteq> []" and "length pre = k"
  shows "\<exists>a i. fold (frame_round (k + length (joined fs))) [k..<k + length (joined fs)] (pre @ joined fs, k, inputs)
    = (a, i, inputs @ take (MAX_FRAME_NUM - length inputs) fs)"
  using assms
proof (induction fs arbitrary: pre k inputs rule: joined.induct)
  case (2 f)
  have f: "plain f" "f \<noteq> []" using "2.prems" by simp_all
  then obtain g c where g: "f = g @ [c]" by (cases f rule: rev_cases) auto
  have bar: "f ! i \<noteq> CHR ''|''" if "i < length f" for i by (metis f(1) nth_mem plain_def that)
  have r: "[k..<k + length f] = [k..<k + length g] @ [k + length g]" by (simp add: g)
  have at: "(pre @ f) ! i = f ! (i - k)" if "k \<le> i" for i using that "2.prems"(4) by (simp add: nth_append)
  have a: "fold (frame_round (k + length f)) [k..<k + length g] (pre @ f, k, inputs) = (pre @ f, k, inputs)"
    by (rule frame_rounds) (use "2.prems"(4) bar at in \<open>auto simp: g\<close>)
  have l: "(pre @ f) ! (k + length g) \<noteq> CHR ''|''" using at [of "k + length g"] bar [of "length g"] by (simp add: g)
  have d: "drop k (pre @ f) = f" using "2.prems"(4) by simp
  show ?case
  proof (cases "length inputs < MAX_FRAME_NUM")
    case True
    then have "take (MAX_FRAME_NUM - length inputs) [f] = [f]" by simp
    moreover have "frame_round (k + length f) (k + length g) (pre @ f, k, inputs) = (pre @ f, k + length g + 1, inputs @ [f])"
      using True l d c_string_plain(2) [OF f(1)] by (simp add: frame_round_def g Let_def)
    ultimately show ?thesis using a r by simp
  qed (simp add: full_rounds)
next
  case (3 f g fs)
  let ?r = "joined (g # fs)" and ?k = "k + length f + 1"
  have f: "plain f" using "3.prems"(1) by simp
  have bar: "f ! i \<noteq> CHR ''|''" if "i < length f" for i by (metis f nth_mem plain_def that)
  let ?a = "pre @ f @ CHR ''|'' # ?r" and ?n = "k + length (joined (f # g # fs))"
  have n: "?n = ?k + length ?r" by simp
  have split: "[k..<?n] = [k..<k + length f] @ (k + length f) # [?k..<?n]"
  proof -
    have "[k..<?n] = [k..<k + length f] @ [k + length f..<?n]"
      using upt_add_eq_append [of k "k + length f" "length ?r + 1"] by (simp add: add.assoc)
    moreover have "[k + length f..<?n] = (k + length f) # [?k..<?n]" by (subst upt_conv_Cons) simp_all
    ultimately show ?thesis by simp
  qed
  have a: "fold (frame_round ?n) [k..<k + length f] (?a, k, inputs) = (?a, k, inputs)"
    by (rule frame_rounds) (use "3.prems"(4) bar in \<open>auto simp: nth_append\<close>)
  show ?case
  proof (cases "length inputs < MAX_FRAME_NUM")
    case True
    have at: "?a ! (k + length f) = CHR ''|''" "?a[k + length f := CHR 0x00] = (pre @ f @ [CHR 0x00]) @ ?r"
        "drop k (?a[k + length f := CHR 0x00]) = f @ CHR 0x00 # ?r"
      using "3.prems"(4) by (simp_all add: nth_append list_update_append)
    have b: "frame_round ?n (k + length f) (?a, k, inputs) = ((pre @ f @ [CHR 0x00]) @ ?r, ?k, inputs @ [f])"
      using True at c_string_plain(1) [OF f, of ?r] by (simp add: frame_round_def Let_def)
    obtain a' i where c: "fold (frame_round (?k + length ?r)) [?k..<?k + length ?r] ((pre @ f @ [CHR 0x00]) @ ?r, ?k, inputs @ [f])
        = (a', i, (inputs @ [f]) @ take (MAX_FRAME_NUM - length (inputs @ [f])) (g # fs))"
      using "3.IH" [of "pre @ f @ [CHR 0x00]" ?k "inputs @ [f]"] "3.prems" by auto
    have t: "take (MAX_FRAME_NUM - length inputs) (f # g # fs) = f # take (MAX_FRAME_NUM - length (inputs @ [f])) (g # fs)"
      using True by (simp add: take_Cons' )
    have "fold (frame_round ?n) [k..<?n] (?a, k, inputs) = fold (frame_round ?n) [?k..<?n]
        (frame_round ?n (k + length f) (fold (frame_round ?n) [k..<k + length f] (?a, k, inputs)))"
      unfolding split by (simp only: fold_append fold_Cons o_apply)
    also have "\<dots> = (a', i, inputs @ take (MAX_FRAME_NUM - length inputs) (f # g # fs))"
      unfolding a b using c unfolding n t by (simp only: append_assoc append_Cons append_Nil)
    finally show ?thesis by (simp only: joined.simps(3)) blast
  qed (simp add: full_rounds del: upt_Suc)
qed simp

text \<open>A list of frames joined by bars is taken apart, up to the largest number of frames.\<close>

lemma parse_joined:
  assumes "\<And>f. f \<in> set fs \<Longrightarrow> plain f" and "fs \<noteq> []" and "last fs \<noteq> []"
  shows "parse_input_frames (joined fs) = take MAX_FRAME_NUM fs"
proof -
  have "CHR 0x00 \<notin> set (joined fs)"
    using assms(1) by (induction fs rule: joined.induct) (auto simp: plain_def)
  then have "c_string (joined fs) = joined fs" unfolding c_string_def by (auto simp: takeWhile_eq_all_conv)
  then show ?thesis using parsed [of fs "[]" 0 "[]"] assms by (auto simp: parse_input_frames_def Let_def)
qed

section \<open>Rounds that store several bytes\<close>

abbreviation updates :: "('p \<Rightarrow> nat) \<Rightarrow> ('p \<Rightarrow> 'a) \<Rightarrow> 'p list \<Rightarrow> 'a list \<Rightarrow> 'a list" where
  "updates k v ps a \<equiv> fold (\<lambda>p a. a[k p := v p]) ps a"

lemma length_updates [simp]: "length (updates k v ps a) = length a"
  by (induction ps arbitrary: a) simp_all

lemma updates_other: "n \<notin> k ` set ps \<Longrightarrow> updates k v ps a ! n = a ! n"
  by (induction ps arbitrary: a) simp_all

lemma updates_at:
  assumes "p \<in> set ps" and "k p < length a" and "\<And>q. q \<in> set ps \<Longrightarrow> k q = k p \<Longrightarrow> q = p"
  shows "updates k v ps a ! k p = v p"
  using assms
proof (induction ps arbitrary: a)
  case (Cons q ps)
  show ?case
  proof (cases "p \<in> set ps")
    case True
    then show ?thesis using Cons by simp
  next
    case False
    then have "q = p" "k p \<notin> k ` set ps" using Cons.prems(1,3) by force+
    then show ?thesis using Cons.prems(2) by (simp add: updates_other)
  qed
qed simp

lemma foreach_updates:
  assumes "\<And>x a. x \<in> set xs \<Longrightarrow> length a = L \<Longrightarrow> f x a = Some (updates (k x) (v x) ds a)" and "length a = L"
  shows "foreach f xs a = Some (updates (\<lambda>(x, d). k x d) (\<lambda>(x, d). v x d) (List.product xs ds) a)"
  using assms
proof (induction xs arbitrary: a)
  case (Cons x xs)
  have "updates (\<lambda>(x, d). k x d) (\<lambda>(x, d). v x d) (map (Pair x) ds) a = updates (k x) (v x) ds a" for a
    by (induction ds arbitrary: a) simp_all
  then show ?case using Cons.IH [of "updates (k x) (v x) ds a"] Cons.prems by simp
qed simp

lemma foreach_stores:
  assumes "\<And>x a. x \<in> set xs \<Longrightarrow> length a = L \<Longrightarrow> f x a = Some (updates (k x) (v x) ds a)" and "length a = L"
    and "\<And>x d. x \<in> set xs \<Longrightarrow> d \<in> set ds \<Longrightarrow> k x d < L"
    and "\<And>x d x' d'. x \<in> set xs \<Longrightarrow> d \<in> set ds \<Longrightarrow> x' \<in> set xs \<Longrightarrow> d' \<in> set ds \<Longrightarrow> k x d = k x' d' \<Longrightarrow> x = x' \<and> d = d'"
  shows "\<exists>b. foreach f xs a = Some b \<and> length b = L \<and> (\<forall>x\<in>set xs. \<forall>d\<in>set ds. b ! k x d = v x d) \<and>
    (\<forall>n. (\<forall>x\<in>set xs. \<forall>d\<in>set ds. n \<noteq> k x d) \<longrightarrow> b ! n = a ! n)"
proof -
  let ?K = "\<lambda>(x, d). k x d" and ?V = "\<lambda>(x, d). v x d" and ?ps = "List.product xs ds"
  have "updates ?K ?V ?ps a ! k x d = v x d" if "x \<in> set xs" "d \<in> set ds" for x d
  proof -
    have "q = (x, d)" if "q \<in> set ?ps" "?K q = k x d" for q
    proof -
      obtain x' d' where q: "q = (x', d')" by (cases q)
      then show ?thesis using that assms(4) [of x d x' d'] \<open>x \<in> set xs\<close> \<open>d \<in> set ds\<close> by simp
    qed
    then show ?thesis using updates_at [of "(x, d)" ?ps ?K a ?V] that assms(2,3) by simp
  qed
  moreover have "updates ?K ?V ?ps a ! n = a ! n" if "\<forall>x\<in>set xs. \<forall>d\<in>set ds. n \<noteq> k x d" for n
    using that by (intro updates_other) auto
  moreover have "foreach f xs a = Some (updates ?K ?V ?ps a)" by (rule foreach_updates [OF assms(1,2)])
  ultimately show ?thesis using assms(2) by auto
qed

lemma foreach_map: "foreach f (map g xs) s = foreach (\<lambda>x. f (g x)) xs s"
  by (induction xs arbitrary: s) simp_all

lemma enumerate_pixels: "List.enumerate 0 (pixels w h) = map (\<lambda>(i, j). (i * w + j, i, j)) (pixels w h)"
proof (rule nth_equalityI)
  fix n
  assume "n < length (List.enumerate 0 (pixels w h))"
  then have n: "n < h * w" by (simp add: pixels_def)
  then have "0 < w" "n div w < h" "n mod w < w" by (auto simp: less_mult_imp_div_less intro!: mod_less_divisor gr0I)
  then show "List.enumerate 0 (pixels w h) ! n = map (\<lambda>(i, j). (i * w + j, i, j)) (pixels w h) ! n"
    using n by (simp add: pixels_def nth_enumerate_eq product_nth)
qed (simp add: pixels_def)

section \<open>Colours in range\<close>

lemma s16_id: "- 32768 \<le> v \<Longrightarrow> v < 32768 \<Longrightarrow> s16 v = v"
  by (simp add: s16_def signed_of_int signed_take_bit_int_eq_self)

lemma shifted: "drop_bit 8 (v :: int) = v div 256"
  by (simp add: drop_bit_eq_div)

text \<open>No value leaves the 16 bits before it is clipped.\<close>

lemma channels_fit:
  fixes y u v :: byte
  defines "a \<equiv> uint y + drop_bit 8 (uint v * 359 + 128) - 180"
    and "b \<equiv> uint y - drop_bit 8 (uint u * 88 + 128) - drop_bit 8 (uint v * 183 + 128) + 136"
    and "c \<equiv> uint y + drop_bit 8 (uint u * 454 + 128) - 227"
  shows "s16 a = a" and "s16 b = b" and "s16 c = c"
proof -
  have "0 \<le> uint y" "uint y < 256" "0 \<le> uint u" "uint u < 256" "0 \<le> uint v" "uint v < 256"
    using uint_byte by simp_all
  then show "s16 a = a" "s16 b = b" "s16 c = c"
    unfolding a_def b_def c_def shifted by (intro s16_id; linarith)+
qed

text \<open>A pixel without colour keeps its brightness.\<close>

lemma gray_pixel: "yuv_pixel y 128 128 = (y, y, y)"
proof -
  have y: "0 \<le> uint y" "uint y < 256" using uint_byte by simp_all
  have "s16 (uint y) = uint y" using y by (intro s16_id) linarith+
  then show ?thesis using y by (simp add: yuv_pixel_def shifted ISP_CLIP_def Let_def)
qed

section \<open>Layouts are converted back\<close>

text \<open>A loop over \<open>a\<close> columns and \<open>b\<close> rows that stores \<open>V k d\<close> at \<open>K k d\<close> in round \<open>k\<close>, for each \<open>d\<close> of a list.\<close>

lemma rounds_stored:
  assumes "\<And>r c out. r < b \<Longrightarrow> c < a \<Longrightarrow> length out = L \<Longrightarrow>
      f (r * a + c, r, c) out = Some (updates (K (r * a + c)) (V (r * a + c)) ds out)"
    and "length dst = L" and "\<And>k d. k < a * b \<Longrightarrow> d \<in> set ds \<Longrightarrow> K k d < L"
    and "\<And>k d k' d'. k < a * b \<Longrightarrow> d \<in> set ds \<Longrightarrow> k' < a * b \<Longrightarrow> d' \<in> set ds \<Longrightarrow> K k d = K k' d' \<Longrightarrow> k = k' \<and> d = d'"
  shows "\<exists>p. foreach f (List.enumerate 0 (pixels a b)) dst = Some p \<and> length p = L \<and>
    (\<forall>k<a * b. \<forall>d\<in>set ds. p ! K k d = V k d) \<and> (\<forall>n. (\<forall>k<a * b. \<forall>d\<in>set ds. n \<noteq> K k d) \<longrightarrow> p ! n = dst ! n)"
proof -
  let ?g = "\<lambda>x. f (case x of (i, j) \<Rightarrow> (i * a + j, i, j))" and ?at = "\<lambda>(r, c). r * a + c"
  have in_m: "?at x < a * b" if "x \<in> set (pixels a b)" for x using that pixel_index by auto
  have step: "?g x out = Some (updates (K (?at x)) (V (?at x)) ds out)" if "x \<in> set (pixels a b)" "length out = L" for x out
    using that assms(1) by auto
  have less: "K (?at x) d < L" if "x \<in> set (pixels a b)" "d \<in> set ds" for x d
    using assms(3) in_m that by blast
  have inj: "x = x' \<and> d = d'" if i: "x \<in> set (pixels a b)" "d \<in> set ds" "x' \<in> set (pixels a b)" "d' \<in> set ds"
    "K (?at x) d = K (?at x') d'" for x d x' d'
  proof -
    have "?at x = ?at x' \<and> d = d'" using assms(4) i in_m by blast
    then show ?thesis using i(1,3) by (auto simp: pixel_unique)
  qed
  from foreach_stores [of "pixels a b" L ?g "\<lambda>x. K (?at x)" "\<lambda>x. V (?at x)" ds, OF step assms(2) less inj]
  obtain p where p: "foreach ?g (pixels a b) dst = Some p" "length p = L"
      "\<forall>x\<in>set (pixels a b). \<forall>d\<in>set ds. p ! K (?at x) d = V (?at x) d"
      "\<forall>n. (\<forall>x\<in>set (pixels a b). \<forall>d\<in>set ds. n \<noteq> K (?at x) d) \<longrightarrow> p ! n = dst ! n"
    by blast
  have "\<exists>x\<in>set (pixels a b). ?at x = k" if "k < a * b" for k
    using pixel_of [OF that] by force
  then have "\<forall>k<a * b. \<forall>d\<in>set ds. p ! K k d = V k d" using p(3) by blast
  moreover have "p ! n = dst ! n" if "\<forall>k<a * b. \<forall>d\<in>set ds. n \<noteq> K k d" for n using p(4) that in_m by blast
  ultimately show ?thesis using p(1,2) by (auto simp: enumerate_pixels foreach_map)
qed

text \<open>The pictures have \<open>2 * a\<close> columns and \<open>2 * b\<close> rows, so \<open>4 * (a * b)\<close> bytes of brightness and
  \<open>a * b\<close> of each chroma.\<close>

lemma memcpy_prefix:
  assumes "n \<le> length src" and "n \<le> length dst" and "n < 2 ^ 32"
  shows "memcpy_n (int n) src dst = Some (take n src @ drop n dst)"
  using assms by (simp add: memcpy_n_def Let_def)

lemma halves: "(int (2 * a) + 1) sdiv 2 = int a" "int (2 * a) sdiv 2 = int a" "4 * int m sdiv 4 = int m" "20 * int m sdiv 4 = 5 * int m"
  by (simp_all add: signed_divide_int_def sgn_if)

lemma to_planar:
  assumes "length src = 6 * (a * b)" and "length dst = 6 * (a * b)" and "20 * (a * b) < 2 ^ 31"
  shows "\<exists>p. yvu420s_yuv420p src (int (2 * a)) (int (2 * b)) dst = Some p \<and> length p = 6 * (a * b) \<and>
    (\<forall>n<4 * (a * b). p ! n = src ! n) \<and>
    (\<forall>k<a * b. p ! (4 * (a * b) + k) = src ! (4 * (a * b) + 2 * k + 1) \<and> p ! (5 * (a * b) + k) = src ! (4 * (a * b) + 2 * k))"
proof -
  define m where "m = a * b"
  let ?K = "\<lambda>k d. (if d then 4 * m else 5 * m) + k" and ?V = "\<lambda>k d. src ! (4 * m + 2 * k + (if d then 1 else 0))"
  let ?dst = "take (4 * m) src @ drop (4 * m) dst"
  let ?f = "\<lambda>(s, r, c) out.
                do { u \<leftarrow> aget src (4 * m + r * (2 * a) + 2 * c + 1);
                     out \<leftarrow> aput (4 * m + s) u out;
                     v \<leftarrow> aget src (4 * m + r * (2 * a) + 2 * c);
                     t \<leftarrow> ckd (int (4 * m) * 5);
                     aput (nat (t sdiv 4) + s) v out }"
  have len: "length src = 6 * m" "length dst = 6 * m" "20 * m < 2 ^ 31" using assms by (simp_all add: m_def)
  have dst: "length ?dst = 6 * m" using len by simp
  have ck: "ckd (int (4 * m) * 5) = Some (int (4 * m) * 5)" "ckd (int (4 * m)) = Some (int (4 * m))" using len(3) by simp_all
  have step: "?f (r * a + c, r, c) out = Some (updates (?K (r * a + c)) (?V (r * a + c)) [True, False] out)"
    if "r < b" "c < a" "length out = 6 * m" for r c out
  proof -
    have i: "4 * m + r * (2 * a) + 2 * c = 4 * m + 2 * (r * a + c)" by simp
    have "r * a + c < m" using pixel_index [OF that(1,2)] by (simp add: m_def)
    then show ?thesis unfolding prod.case i ck using len(1) that(3) by (simp add: aget_in aput_in halves nat_mult_distrib)
  qed
  from rounds_stored [of b a "6 * m" ?f ?K ?V "[True, False]" ?dst, OF step dst]
  obtain p where p: "foreach ?f (List.enumerate 0 (pixels a b)) ?dst = Some p" "length p = 6 * m"
      "\<forall>k<m. \<forall>d. p ! ?K k d = ?V k d" "\<forall>n. (\<forall>k<m. \<forall>d. n \<noteq> ?K k d) \<longrightarrow> p ! n = ?dst ! n"
    by (fastforce simp: m_def split: if_splits)
  have "p ! n = src ! n" if "n < 4 * m" for n using p(4) that len(1,2) by (auto simp: nth_append)
  moreover have "p ! (4 * m + k) = src ! (4 * m + 2 * k + 1) \<and> p ! (5 * m + k) = src ! (4 * m + 2 * k)" if k: "k < m" for k
    using p(3) k by (simp add: all_bool_eq)
  moreover have "yvu420s_yuv420p src (int (2 * a)) (int (2 * b)) dst = Some p"
  proof -
    have n: "int (2 * a) * int (2 * b) = int (4 * m)" by (simp add: m_def)
    show ?thesis
      unfolding yvu420s_yuv420p_def Let_def n halves ck
      using memcpy_prefix [of "4 * m" src dst] len p(1) by (simp add: case_prod_unfold nat_mult_distrib)
  qed
  ultimately show ?thesis using p(2) unfolding m_def by blast
qed

lemma to_nv21:
  assumes "length src = 6 * (a * b)" and "length dst = 6 * (a * b)" and "20 * (a * b) < 2 ^ 31"
  shows "\<exists>p. yuv420p_yvu420s src (int (2 * a)) (int (2 * b)) dst = Some p \<and> length p = 6 * (a * b) \<and>
    (\<forall>n<4 * (a * b). p ! n = src ! n) \<and>
    (\<forall>k<a * b. p ! (4 * (a * b) + 2 * k) = src ! (5 * (a * b) + k) \<and> p ! (4 * (a * b) + 2 * k + 1) = src ! (4 * (a * b) + k))"
proof -
  define m where "m = a * b"
  let ?K = "\<lambda>k d. 4 * m + 2 * k + (if d then 0 else 1)" and ?V = "\<lambda>k d. src ! ((if d then 5 * m else 4 * m) + k)"
  let ?dst = "take (4 * m) src @ drop (4 * m) dst"
  let ?f = "\<lambda>(n, r, c) out.
                do { v \<leftarrow> aget src (4 * m + m + (r * a + c));
                     out \<leftarrow> aput (4 * m + 2 * n) v out;
                     u \<leftarrow> aget src (4 * m + (r * a + c));
                     aput (4 * m + 2 * n + 1) u out }"
  have len: "length src = 6 * m" "length dst = 6 * m" "20 * m < 2 ^ 31" using assms by (simp_all add: m_def)
  have dst: "length ?dst = 6 * m" using len by simp
  have ck: "ckd (int (4 * m)) = Some (int (4 * m))" using len(3) by simp
  have step: "?f (r * a + c, r, c) out = Some (updates (?K (r * a + c)) (?V (r * a + c)) [True, False] out)"
    if "r < b" "c < a" "length out = 6 * m" for r c out
  proof -
    have "r * a + c < m" using pixel_index [OF that(1,2)] by (simp add: m_def)
    then show ?thesis unfolding prod.case using len(1) that(3) by (simp add: aget_in aput_in)
  qed
  have less: "?K k d < 6 * m" if "k < a * b" "d \<in> set [True, False]" for k d using that(1) by (simp add: m_def)
  have inj: "k = k' \<and> d = d'" if "k < a * b" "d \<in> set [True, False]" "k' < a * b" "d' \<in> set [True, False]" "?K k d = ?K k' d'"
    for k d k' d' using that(5) by (cases d; cases d') (simp_all, presburger+)
  from rounds_stored [of b a "6 * m" ?f ?K ?V "[True, False]" ?dst, OF step dst less inj]
  obtain p where p: "foreach ?f (List.enumerate 0 (pixels a b)) ?dst = Some p" "length p = 6 * m"
      "\<forall>k<a * b. \<forall>d\<in>set [True, False]. p ! ?K k d = ?V k d"
      "\<forall>n. (\<forall>k<a * b. \<forall>d\<in>set [True, False]. n \<noteq> ?K k d) \<longrightarrow> p ! n = ?dst ! n"
    by blast
  have "p ! n = src ! n" if "n < 4 * m" for n using p(4) that len(1,2) by (auto simp: nth_append)
  moreover have "p ! (4 * m + 2 * k) = src ! (5 * m + k) \<and> p ! (4 * m + 2 * k + 1) = src ! (4 * m + k)" if k: "k < m" for k
    using p(3) k by (simp add: m_def ex_bool_eq)
  moreover have "yuv420p_yvu420s src (int (2 * a)) (int (2 * b)) dst = Some p"
  proof -
    have n: "int (2 * a) * int (2 * b) = int (4 * m)" by (simp add: m_def)
    show ?thesis
      unfolding yuv420p_yvu420s_def Let_def n halves ck
      using memcpy_prefix [of "4 * m" src dst] len p(1) by (simp add: case_prod_unfold nat_mult_distrib halves)
  qed
  ultimately show ?thesis using p(2) unfolding m_def by blast
qed

text \<open>Property C37: the two conversions of layout are inverse to each other, for pictures of even width and height.\<close>

theorem nv21_roundtrip:
  assumes "length src = 6 * (a * b)" and "length dst = 6 * (a * b)" and "20 * (a * b) < 2 ^ 31"
  shows "Option.bind (yvu420s_yuv420p src (int (2 * a)) (int (2 * b)) dst) (\<lambda>p. yuv420p_yvu420s p (int (2 * a)) (int (2 * b)) dst) = Some src
    \<and> Option.bind (yuv420p_yvu420s src (int (2 * a)) (int (2 * b)) dst) (\<lambda>p. yvu420s_yuv420p p (int (2 * a)) (int (2 * b)) dst) = Some src"
proof -
  define m where "m = a * b"
  have len: "length src = 6 * m" using assms(1) by (simp add: m_def)
  have eq: "q = src" if "length q = 6 * m" "\<And>n. n < 6 * m \<Longrightarrow> q ! n = src ! n" for q
    using that len by (intro nth_equalityI) simp_all
  obtain p where p: "yvu420s_yuv420p src (int (2 * a)) (int (2 * b)) dst = Some p" "length p = 6 * m" "\<forall>n<4 * m. p ! n = src ! n"
      "\<forall>k<m. p ! (4 * m + k) = src ! (4 * m + 2 * k + 1) \<and> p ! (5 * m + k) = src ! (4 * m + 2 * k)"
    using to_planar [OF assms] unfolding m_def by blast
  obtain q where q: "yuv420p_yvu420s p (int (2 * a)) (int (2 * b)) dst = Some q" "length q = 6 * m" "\<forall>n<4 * m. q ! n = p ! n"
      "\<forall>k<m. q ! (4 * m + 2 * k) = p ! (5 * m + k) \<and> q ! (4 * m + 2 * k + 1) = p ! (4 * m + k)"
    using to_nv21 [OF p(2) [unfolded m_def] assms(2,3)] unfolding m_def by blast
  have "q ! n = src ! n" if n: "n < 6 * m" for n
  proof -
    have "n < 4 * m \<or> (\<exists>k<m. n = 4 * m + 2 * k \<or> n = 4 * m + 2 * k + 1)" using n by presburger
    then show ?thesis using p(3,4) q(3,4) by auto
  qed
  then have "q = src" using eq q(2) by blast
  obtain p' where p': "yuv420p_yvu420s src (int (2 * a)) (int (2 * b)) dst = Some p'" "length p' = 6 * m" "\<forall>n<4 * m. p' ! n = src ! n"
      "\<forall>k<m. p' ! (4 * m + 2 * k) = src ! (5 * m + k) \<and> p' ! (4 * m + 2 * k + 1) = src ! (4 * m + k)"
    using to_nv21 [OF assms] unfolding m_def by blast
  obtain q' where q': "yvu420s_yuv420p p' (int (2 * a)) (int (2 * b)) dst = Some q'" "length q' = 6 * m" "\<forall>n<4 * m. q' ! n = p' ! n"
      "\<forall>k<m. q' ! (4 * m + k) = p' ! (4 * m + 2 * k + 1) \<and> q' ! (5 * m + k) = p' ! (4 * m + 2 * k)"
    using to_planar [OF p'(2) [unfolded m_def] assms(2,3)] unfolding m_def by blast
  have "q' ! n = src ! n" if n: "n < 6 * m" for n
  proof -
    have "n < 4 * m \<or> (\<exists>k<m. n = 4 * m + k \<or> n = 5 * m + k)" using n by presburger
    then show ?thesis using p'(3,4) q'(3,4) by auto
  qed
  then have "q' = src" using eq q'(2) by blast
  then show ?thesis using p(1) q(1) p'(1) q'(1) \<open>q = src\<close> by simp
qed

theorem nv21_roundtrip_witness:
  "Option.bind (yvu420s_yuv420p [1, 2, 3, 4, 5, 6] 2 2 [0, 0, 0, 0, 0, 0]) (\<lambda>p. yuv420p_yvu420s p 2 2 [0, 0, 0, 0, 0, 0]) = Some [1, 2, 3, 4, 5, 6]"
  using nv21_roundtrip [of "[1, 2, 3, 4, 5, 6]" 1 1 "[0, 0, 0, 0, 0, 0]"] by simp

section \<open>Pictures\<close>

definition chan :: "byte \<times> byte \<times> byte \<Rightarrow> nat \<Rightarrow> byte" where
  "chan p d = (case p of (r, g, b) \<Rightarrow> if d = 0 then r else if d = 1 then g else b)"

lemma rgb_of:
  assumes "w < 65536" and "h < 65536" and "w * h < 2 ^ 31" and "length inp = 3 * (w * h)" and "length out = 3 * (w * h)"
  shows "\<exists>b. yuv2rgb inp out (int w) (int h) = Some b \<and> length b = 3 * (w * h) \<and>
    (\<forall>k<w * h. \<forall>d<3. b ! (3 * k + d) = chan (yuv_pixel (inp ! k) (inp ! (w * h + k)) (inp ! (w * h + w * h + k))) d)"
proof -
  define m where "m = w * h"
  let ?K = "\<lambda>k d. 3 * k + d" and ?V = "\<lambda>k d. chan (yuv_pixel (inp ! k) (inp ! (m + k)) (inp ! (m + m + k))) d"
  let ?f = "\<lambda>(k, iy, ix) out.
                do { y_val \<leftarrow> aget inp k;
                     let uv_pos = iy * w + ix;
                     u_val \<leftarrow> aget inp (m + uv_pos);
                     v_val \<leftarrow> aget inp (m + m + uv_pos);
                     let (red, green, blue) = yuv_pixel y_val u_val v_val;
                     out \<leftarrow> aput (3 * k) red out;
                     out \<leftarrow> aput (3 * k + 1) green out;
                     aput (3 * k + 2) blue out }"
  have len: "length inp = 3 * m" "length out = 3 * m" "m < 2 ^ 31" using assms by (simp_all add: m_def)
  have step: "?f (r * w + c, r, c) out = Some (updates (?K (r * w + c)) (?V (r * w + c)) [0, 1, 2] out)"
    if "r < h" "c < w" "length out = 3 * m" for r c out
  proof -
    define k where "k = r * w + c"
    have "k < m" using pixel_index [OF that(1,2)] by (simp add: m_def k_def)
    then show ?thesis unfolding prod.case k_def [symmetric] using len(1) that(3)
      by (simp add: aget_in aput_in Let_def chan_def split: prod.split)
  qed
  have less: "?K k d < 3 * m" if "k < w * h" "d \<in> set [0, 1, 2]" for k d using that by (auto simp: m_def)
  have inj: "k = k' \<and> d = d'" if "k < w * h" "d \<in> set [0, 1, 2]" "k' < w * h" "d' \<in> set [0, 1, 2]" "?K k d = ?K k' d'" for k d k' d' :: nat
    using that(2,4,5) by (auto; presburger)
  from rounds_stored [of h w "3 * m" ?f ?K ?V "[0, 1, 2]" out, OF step len(2) less inj]
  obtain b where b: "foreach ?f (List.enumerate 0 (pixels w h)) out = Some b" "length b = 3 * m"
      "\<forall>k<w * h. \<forall>d\<in>set [0, 1, 2]. b ! ?K k d = ?V k d"
    by blast
  have d: "d \<in> set [0, 1, 2]" if "d < 3" for d :: nat using that by auto
  have "yuv2rgb inp out (int w) (int h) = Some b"
  proof -
    have n: "nat (int w mod 65536) = w" "nat (int h mod 65536) = h" "int w * int h = int m" using assms(1,2) by (simp_all add: m_def)
    have ck: "ckd (int m) = Some (int m)" using len(3) by simp
    show ?thesis unfolding yuv2rgb_def n Let_def ck using b(1) by (simp add: case_prod_unfold Let_def)
  qed
  then show ?thesis using b(2,3) d unfolding m_def by blast
qed

lemma upsampled:
  assumes "length src = 6 * (a * b)" and "length dst = 12 * (a * b)" and "20 * (a * b) < 2 ^ 31"
  shows "\<exists>p. upsample src (int (2 * a)) (int (2 * b)) dst = Some p \<and> length p = 12 * (a * b) \<and>
    (\<forall>i<2 * b. \<forall>j<2 * a. \<forall>d<3. p ! (i * (2 * a) + j + d * (4 * (a * b))) =
      src ! (if d = 0 then i * (2 * a) + j else (3 + d) * (a * b) + (i div 2 * a + j div 2)))"
proof -
  define m where "m = a * b"
  let ?W = "2 * a"
  let ?uv = "\<lambda>k. k div ?W div 2 * a + k mod ?W div 2"
  let ?K = "\<lambda>k d. k + d * (4 * m)" and ?V = "\<lambda>k d. src ! (if d = 0 then k else (3 + d) * m + ?uv k)"
  let ?f = "\<lambda>(i, j) out.
       (let uv = i div 2 * ?W div 2 + j div 2
        in do { y \<leftarrow> aget src (i * ?W + j);
                out \<leftarrow> aput (i * ?W + j) y out;
                u \<leftarrow> aget src (uv + 4 * m);
                out \<leftarrow> aput (i * ?W + j + 4 * m) u out;
                t \<leftarrow> ckd (20 * int m);
                v \<leftarrow> aget src (uv + nat (t sdiv 4));
                aput (i * ?W + j + 4 * m * 2) v out })"
  have len: "length src = 6 * m" "length dst = 12 * m" "20 * m < 2 ^ 31" using assms by (simp_all add: m_def)
  have ck: "ckd (20 * int m) = Some (20 * int m)" using len(3) by simp
  have step: "(\<lambda>(k, r, c). ?f (r, c)) (r * ?W + c, r, c) out = Some (updates (?K (r * ?W + c)) (?V (r * ?W + c)) [0, 1, 2] out)"
    if "r < 2 * b" "c < ?W" "length out = 12 * m" for r c out
  proof -
    define k where "k = r * ?W + c"
    have k: "k < 4 * m" using pixel_index [OF that(1,2)] by (simp add: m_def k_def)
    have "k div ?W = r" "k mod ?W = c" using that(2) by (simp_all add: k_def)
    moreover have "r div 2 * ?W div 2 = r div 2 * a" by simp
    moreover have "r div 2 * a + c div 2 < m" using pixel_index [of "r div 2" b "c div 2" a] that(1,2) by (simp add: m_def)
    ultimately show ?thesis unfolding prod.case k_def [symmetric] ck Let_def using len(1) that(3) k
      by (simp add: aget_in aput_in halves nat_mult_distrib add_ac)
  qed
  have less: "?K k d < 12 * m" if "k < 2 * b * ?W" "d \<in> set [0, 1, 2]" for k d
    using that by (auto simp: m_def mult_ac)
  have inj: "k = k' \<and> d = d'" if "k < 2 * b * ?W" "d \<in> set [0, 1, 2]" "k' < 2 * b * ?W" "d' \<in> set [0, 1, 2]" "?K k d = ?K k' d'" for k d k' d' :: nat
  proof -
    have "k < 4 * m" "k' < 4 * m" using that(1,3) by (simp_all add: m_def mult_ac)
    then show ?thesis using that(5) pixel_unique [of k "4 * m" k' d d'] by (simp add: add.commute)
  qed
  have n: "2 * b * ?W = ?W * (2 * b)" by simp
  from rounds_stored [of "2 * b" ?W "12 * m" "\<lambda>(k, r, c). ?f (r, c)" ?K ?V "[0, 1, 2]" dst, OF step len(2) less [unfolded n] inj [unfolded n]]
  obtain p where p: "foreach (\<lambda>(k, r, c). ?f (r, c)) (List.enumerate 0 (pixels ?W (2 * b))) dst = Some p" "length p = 12 * m"
      "\<forall>k<?W * (2 * b). \<forall>d\<in>set [0, 1, 2]. p ! ?K k d = ?V k d"
    by blast
  have "p ! (i * ?W + j + d * (4 * m)) = src ! (if d = 0 then i * ?W + j else (3 + d) * m + (i div 2 * a + j div 2))"
    if "i < 2 * b" "j < ?W" "d < 3" for i j d
  proof -
    have "d \<in> set [0, 1, 2]" using that(3) by auto
    moreover have "(i * ?W + j) div ?W = i" "(i * ?W + j) mod ?W = j" using that(2) by simp_all
    ultimately show ?thesis using p(3) pixel_index [OF that(1,2)] by auto
  qed
  moreover have "upsample src (int ?W) (int (2 * b)) dst = Some p"
  proof -
    have n: "nat (int ?W) = ?W" "nat (int (2 * b)) = 2 * b" "int ?W * int (2 * b) = int (4 * m)" "nat (int (4 * m)) = 4 * m"
        "int (4 * m) * 5 = 20 * int m" by (simp_all add: m_def nat_mult_distrib)
    show ?thesis unfolding upsample_def n using p(1) by (simp add: enumerate_pixels foreach_map case_prod_unfold Let_def)
  qed
  ultimately show ?thesis using p(2) unfolding m_def by blast
qed

text \<open>The colour that row \<open>i\<close> and column \<open>j\<close> of an NV21 picture of width \<open>2 * a\<close> and height \<open>2 * b\<close> stands for.\<close>

definition nv21_pixel :: "byte list \<Rightarrow> nat \<Rightarrow> nat \<Rightarrow> nat \<Rightarrow> nat \<Rightarrow> byte \<times> byte \<times> byte" where
  "nv21_pixel img a b i j =
     (let uv = 4 * (a * b) + 2 * (i div 2 * a + j div 2) in yuv_pixel (img ! (i * (2 * a) + j)) (img ! (uv + 1)) (img ! uv))"

text \<open>Property C35: a picture that \<open>save_as_bmp\<close> saves is loaded by \<open>OpenBMPFile\<close> with the colour of each pixel that
  its brightness and the chroma of its block of four stand for.\<close>

theorem nv21_saved_loaded:
  assumes "bmp_fits mem (2 * a) (2 * b)" and "mem (6 * (a * b))" and "20 * (a * b) < 2 ^ 31" and "stride (2 * a) < 2 ^ 16"
    and "2 * b < 2 ^ 16" and "length img = 6 * (a * b)" and "length (c_string name) + 5 \<le> MAX_FILENAME_LENGTH"
  shows "\<exists>c rgb. save_as_bmp mem junk True name img (int (2 * a)) (int (2 * b)) = Some (of_nat (length c), Some c) \<and>
    OpenBMPFile mem junk (Some c) info True = Some (1, info\<lparr>bmiHeader := saved_header (2 * a) (2 * b)\<rparr>, Some rgb) \<and>
    (\<forall>i<2 * b. \<forall>j<2 * a. \<forall>d<3. rgb ! px (2 * a) i j d = chan (nv21_pixel img a b i j) d)"
proof -
  define m where "m = a * b"
  have m: "mem (12 * m)" "mem (6 * m)" "20 * m < 2 ^ 31" using assms(1-3) by (simp_all add: bmp_fits_def m_def mult_ac)
  have wh: "2 * a < 65536" "2 * b < 65536" "2 * a * (2 * b) = 4 * m" using stride_row [of "2 * a"] assms(4,5) by (simp_all add: m_def)
  have mal: "malloc_n mem junk (int k) = map junk [0..<k]" if "mem k" "k < 2 ^ 32" for k using that by (simp add: malloc_n_def Let_def)
  obtain p where p: "yvu420s_yuv420p img (int (2 * a)) (int (2 * b)) (map junk [0..<6 * m]) = Some p" "length p = 6 * (a * b)"
      "\<forall>n<4 * m. p ! n = img ! n" "\<forall>k<m. p ! (4 * m + k) = img ! (4 * m + 2 * k + 1) \<and> p ! (5 * m + k) = img ! (4 * m + 2 * k)"
    using to_planar [OF assms(6) _ assms(3), of "map junk [0..<6 * m]"] unfolding m_def by auto
  obtain y where y: "upsample p (int (2 * a)) (int (2 * b)) (map junk [0..<12 * m]) = Some y" "length y = 12 * m"
      "\<forall>i<2 * b. \<forall>j<2 * a. \<forall>d<3. y ! (i * (2 * a) + j + d * (4 * m)) =
        p ! (if d = 0 then i * (2 * a) + j else (3 + d) * m + (i div 2 * a + j div 2))"
    using upsampled [OF p(2) _ assms(3), of "map junk [0..<12 * m]"] unfolding m_def by auto
  obtain r where r: "yuv2rgb y (map junk [0..<12 * m]) (int (2 * a)) (int (2 * b)) = Some r" "length r = 12 * m"
      "\<forall>k<4 * m. \<forall>d<3. r ! (3 * k + d) = chan (yuv_pixel (y ! k) (y ! (4 * m + k)) (y ! (4 * m + 4 * m + k))) d"
    using rgb_of [OF wh(1,2), of y "map junk [0..<12 * m]"] y(2) m(3) unfolding wh(3) by auto
  obtain c where c: "save_bmp mem True r (of_nat (2 * a)) (of_nat (2 * b)) = Some (of_nat (length c), Some c)"
      "OpenBMPFile mem junk (Some c) info True = Some (1, info\<lparr>bmiHeader := saved_header (2 * a) (2 * b)\<rparr>, Some r)"
    using saved_bmp_loaded [OF assms(1) _ assms(4), of r junk info] r(2) unfolding wh(3) by auto
  have "save_as_bmp mem junk True name img (int (2 * a)) (int (2 * b)) = Some (of_nat (length c), Some c)"
  proof -
    have n: "int (2 * a) * int (2 * b) = int (4 * m)" "int (4 * m) * 3 = int (12 * m)" "12 * int m sdiv 2 = 6 * int m"
      by (simp_all add: m_def signed_divide_int_def sgn_if)
    have ck: "ckd (int (4 * m)) = Some (int (4 * m))" "ckd (12 * int m) = Some (12 * int m)" using m(3) by simp_all
    show ?thesis using assms(7) p(1) y(1) r(1) c(1) mal [OF m(1)] mal [OF m(2)] m(3)
      unfolding save_as_bmp_def n ck by (simp add: n ck del: ckd_Some)
  qed
  moreover have "r ! px (2 * a) i j d = chan (nv21_pixel img a b i j) d" if ij: "i < 2 * b" "j < 2 * a" "d < 3" for i j d
  proof -
    define k where "k = i * (2 * a) + j"
    have k: "k < 4 * m" using pixel_index [OF ij(1,2)] wh(3) by (simp add: k_def)
    define u where "u = i div 2 * a + j div 2"
    have u: "u < m" using pixel_index [of "i div 2" b "j div 2" a] ij(1,2) by (simp add: m_def u_def)
    have y': "\<forall>d<3. y ! (k + d * (4 * m)) = p ! (if d = 0 then k else (3 + d) * m + u)"
      using y(3) ij(1,2) unfolding k_def u_def by blast
    have n: "k + 0 * (4 * m) = k" "k + 1 * (4 * m) = 4 * m + k" "k + 2 * (4 * m) = 4 * m + 4 * m + k" "(3 + 1) * m = 4 * m" "(3 + 2) * m = 5 * m"
      by simp_all
    have "y ! k = img ! k" "y ! (4 * m + k) = img ! (4 * m + 2 * u + 1)" "y ! (4 * m + 4 * m + k) = img ! (4 * m + 2 * u)"
      using y' [rule_format, of 0] y' [rule_format, of 1] y' [rule_format, of 2] p(3,4) k u unfolding n by simp_all
    moreover have "px (2 * a) i j d = 3 * k + d" by (simp add: px_def k_def)
    moreover have "nv21_pixel img a b i j = yuv_pixel (img ! k) (img ! (4 * m + 2 * u + 1)) (img ! (4 * m + 2 * u))"
      unfolding nv21_pixel_def Let_def k_def m_def u_def by (rule refl)
    ultimately show ?thesis using r(3) k ij(3) by simp
  qed
  ultimately show ?thesis using c(2) by blast
qed

text \<open>The witness is a gray picture of two by two pixels.\<close>

theorem nv21_saved_loaded_witness:
  "\<exists>c rgb. save_as_bmp (\<lambda>_. True) (\<lambda>_. 0) True ''out'' [10, 20, 30, 40, 128, 128] 2 2 = Some (of_nat (length c), Some c) \<and>
    OpenBMPFile (\<lambda>_. True) (\<lambda>_. 0) (Some c) \<lparr>bmiHeader = saved_header 0 0, bmiColors = []\<rparr> True
      = Some (1, \<lparr>bmiHeader = saved_header 2 2, bmiColors = []\<rparr>, Some rgb) \<and>
    rgb ! px 2 0 0 0 = 10 \<and> rgb ! px 2 1 1 2 = 40"
proof -
  have "c_string ''out'' = ''out''" by (simp add: c_string_def)
  then obtain c rgb where c: "save_as_bmp (\<lambda>_. True) (\<lambda>_. 0) True ''out'' [10, 20, 30, 40, 128, 128] 2 2 = Some (of_nat (length c), Some c)"
      "OpenBMPFile (\<lambda>_. True) (\<lambda>_. 0) (Some c) \<lparr>bmiHeader = saved_header 0 0, bmiColors = []\<rparr> True
        = Some (1, \<lparr>bmiHeader = saved_header 2 2, bmiColors = []\<rparr>, Some rgb)"
      "\<forall>i<2. \<forall>j<2. \<forall>d<3. rgb ! px 2 i j d = chan (nv21_pixel [10, 20, 30, 40, 128, 128] 1 1 i j) d"
    using nv21_saved_loaded [of "\<lambda>_. True" 1 1 "[10, 20, 30, 40, 128, 128]" "''out''" "\<lambda>_. 0" "\<lparr>bmiHeader = saved_header 0 0, bmiColors = []\<rparr>"]
    by (simp add: bmp_fits_def stride_def MAX_FILENAME_LENGTH_def) blast
  have "nv21_pixel [10, 20, 30, 40, 128, 128] 1 1 0 0 = (10, 10, 10)" "nv21_pixel [10, 20, 30, 40, 128, 128] 1 1 1 1 = (40, 40, 40)"
    using gray_pixel by (simp_all add: nv21_pixel_def Let_def)
  then show ?thesis using c by (intro exI [of _ c] exI [of _ rgb]) (simp add: chan_def)
qed

end
