(* ===== verification/Image_Format.thy ===== *)
theory Image_Format
  imports Image_Yuv
begin

text \<open>
  The readers of the depth test (depth_bokeh/ImageFormat_Conversion.cpp), which split or pass on the data of
  a file, and the flip of a planar 4:2:0 picture. The conversions to RGB with floating point are not modelled.
\<close>

section \<open>Reading\<close>

text \<open>The result is the returned value and the picture. A size that is converted to \<open>size_t\<close> is taken modulo
  \<open>2 ^ 32\<close>. The two chroma pointers move on once in each round, whose number is \<open>k\<close>.\<close>

definition size_of :: "int \<Rightarrow> nat" where
  "size_of n = nat (n mod 2 ^ 32)"

definition ReadYUV420File ::
    "(nat \<Rightarrow> bool) \<Rightarrow> (nat \<Rightarrow> byte) \<Rightarrow> byte list option \<Rightarrow> int \<Rightarrow> int \<Rightarrow> byte list \<Rightarrow> (int \<times> byte list) option" where
  "ReadYUV420File mem junk file nWidth nHeight yuv_image =
     (case file of None \<Rightarrow> Some (0, yuv_image)
      | Some fp \<Rightarrow>
          do { n \<leftarrow> ckd (nWidth * nHeight);
               let uv_plane = malloc_n mem junk (n sdiv 2);
               (yuv_image, fp) \<leftarrow> fread_to (size_of n) yuv_image fp;
               (uv_plane, fp) \<leftarrow> fread_to (size_of (n sdiv 2)) uv_plane fp;
               let u_plane = nat n;
               let v_plane = u_plane + nat (n sdiv 4);
               yuv_image \<leftarrow> foreach (\<lambda>(k, i, j) out.
                   do { u \<leftarrow> aget uv_plane (2 * k);
                        out \<leftarrow> aput (u_plane + k) u out;
                        v \<leftarrow> aget uv_plane (2 * k + 1);
                        aput (v_plane + k) v out })
                 (List.enumerate 0 (pixels (nat (nWidth sdiv 2)) (nat (nHeight sdiv 2)))) yuv_image;
               Some (1, yuv_image) })"

definition ReadNV21File :: "byte list option \<Rightarrow> int \<Rightarrow> int \<Rightarrow> byte list \<Rightarrow> (int \<times> byte list) option" where
  "ReadNV21File file nWidth nHeight yuv_image =
     (case file of None \<Rightarrow> Some (0, yuv_image)
      | Some fp \<Rightarrow>
          do { n \<leftarrow> ckd (nWidth * nHeight);
               n \<leftarrow> ckd (n * 3);
               (yuv_image, fp) \<leftarrow> fread_to (size_of (n sdiv 2)) yuv_image fp;
               Some (1, yuv_image) })"

definition ReadYUV422File :: "byte list option \<Rightarrow> int \<Rightarrow> int \<Rightarrow> byte list \<Rightarrow> (int \<times> byte list) option" where
  "ReadYUV422File file nWidth nHeight yuv_image =
     (case file of None \<Rightarrow> Some (0, yuv_image)
      | Some fp \<Rightarrow>
          do { n \<leftarrow> ckd (nWidth * nHeight);
               n \<leftarrow> ckd (n * 2);
               (yuv_image, fp) \<leftarrow> fread_to (size_of n) yuv_image fp;
               Some (1, yuv_image) })"

section \<open>Flipping\<close>

text \<open>One of the three loops, over \<open>W\<close> columns and \<open>H\<close> rows of the plane at \<open>p\<close>, whose row \<open>i\<close> starts at \<open>row i\<close>.\<close>

definition flip_plane ::
    "nat \<Rightarrow> (nat \<Rightarrow> nat) \<Rightarrow> nat \<Rightarrow> nat \<Rightarrow> bool \<Rightarrow> bool \<Rightarrow> byte list \<Rightarrow> byte list \<Rightarrow> byte list option" where
  "flip_plane p row W H flip mirror src out =
     foreach (\<lambda>(i, j) out.
       (let jj = (if flip then W - 1 - j else j); ii = (if mirror then H - 1 - i else i)
        in do { v \<leftarrow> aget src (p + (row ii + jj)); aput (p + (row i + j)) v out })) (pixels W H) out"

definition ImageYUV420_flip :: "byte list \<Rightarrow> int \<Rightarrow> int \<Rightarrow> byte list \<Rightarrow> int \<Rightarrow> int \<Rightarrow> byte list option" where
  "ImageYUV420_flip yuv420_image image_width image_height out flip_flag mirror_flag =
     do { n \<leftarrow> ckd (image_width * image_height);
          let u = nat n; v = u + nat (n sdiv 4); flip = (flip_flag = 1); mirror = (mirror_flag = 1);
              W = nat image_width; H = nat image_height; W2 = nat (image_width sdiv 2); H2 = nat (image_height sdiv 2);
              row = (\<lambda>i. i * W div 2)
          in do { out \<leftarrow> flip_plane 0 (\<lambda>i. i * W) W H flip mirror yuv420_image out;
                  out \<leftarrow> flip_plane u row W2 H2 flip mirror yuv420_image out;
                  flip_plane v row W2 H2 flip mirror yuv420_image out } }"

section \<open>Files that are read\<close>

text \<open>The file holds the two chroma values of a block one after the other; reading puts each into its plane.\<close>

lemma yuv420_read:
  assumes "length file = 6 * (a * b)" and "length out = 6 * (a * b)" and "mem (2 * (a * b))" and "4 * (a * b) < 2 ^ 31"
  shows "\<exists>p. ReadYUV420File mem junk (Some file) (int (2 * a)) (int (2 * b)) out = Some (1, p) \<and> length p = 6 * (a * b) \<and>
    (\<forall>n<4 * (a * b). p ! n = file ! n) \<and>
    (\<forall>k<a * b. p ! (4 * (a * b) + k) = file ! (4 * (a * b) + 2 * k) \<and> p ! (5 * (a * b) + k) = file ! (4 * (a * b) + 2 * k + 1))"
proof -
  define m where "m = a * b"
  let ?uv = "drop (4 * m) file" and ?dst = "take (4 * m) file @ drop (4 * m) out"
  let ?K = "\<lambda>k d. (if d then 4 * m else 5 * m) + k" and ?V = "\<lambda>k d. file ! (4 * m + 2 * k + (if d then 0 else 1))"
  let ?f = "\<lambda>(k, i, j) out.
                   do { u \<leftarrow> aget ?uv (2 * k);
                        out \<leftarrow> aput (4 * m + k) u out;
                        v \<leftarrow> aget ?uv (2 * k + 1);
                        aput (5 * m + k) v out }"
  have len: "length file = 6 * m" "length out = 6 * m" "4 * m < 2 ^ 31" "mem (2 * m)" using assms by (simp_all add: m_def)
  have dst: "length ?dst = 6 * m" using len by simp
  have step: "?f (r * a + c, r, c) out = Some (updates (?K (r * a + c)) (?V (r * a + c)) [True, False] out)"
    if "r < b" "c < a" "length out = 6 * m" for r c out
  proof -
    have "r * a + c < m" using pixel_index [OF that(1,2)] by (simp add: m_def)
    then show ?thesis unfolding prod.case using len(1) that(3) by (simp add: aget_in aput_in)
  qed
  have less: "?K k d < 6 * m" if "k < a * b" "d \<in> set [True, False]" for k d using that(1) by (simp add: m_def)
  have inj: "k = k' \<and> d = d'" if "k < a * b" "d \<in> set [True, False]" "k' < a * b" "d' \<in> set [True, False]" "?K k d = ?K k' d'"
    for k d k' d' using that(1,3,5) unfolding m_def [symmetric] by (cases d; cases d') simp_all
  from rounds_stored [of b a "6 * m" ?f ?K ?V "[True, False]" ?dst, OF step dst less inj]
  obtain p where p: "foreach ?f (List.enumerate 0 (pixels a b)) ?dst = Some p" "length p = 6 * m"
      "\<forall>k<a * b. \<forall>d\<in>set [True, False]. p ! ?K k d = ?V k d"
      "\<forall>n. (\<forall>k<a * b. \<forall>d\<in>set [True, False]. n \<noteq> ?K k d) \<longrightarrow> p ! n = ?dst ! n"
    by blast
  have "p ! n = file ! n" if "n < 4 * m" for n using p(4) that len(1,2) by (auto simp: nth_append)
  moreover have "p ! (4 * m + k) = file ! (4 * m + 2 * k) \<and> p ! (5 * m + k) = file ! (4 * m + 2 * k + 1)" if k: "k < m" for k
    using p(3) k by (simp add: m_def ex_bool_eq)
  moreover have "ReadYUV420File mem junk (Some file) (int (2 * a)) (int (2 * b)) out = Some (1, p)"
  proof -
    have n: "int (2 * a) * int (2 * b) = int (4 * m)" "4 * int m sdiv 2 = 2 * int m"
      by (simp_all add: m_def signed_divide_int_def sgn_if)
    have s: "size_of (4 * int m) = 4 * m" "size_of (2 * int m) = 2 * m" "malloc_n mem junk (2 * int m) = map junk [0..<2 * m]"
      using len(3,4) by (simp_all add: size_of_def malloc_n_def Let_def nat_mult_distrib)
    have ck: "ckd (int (4 * m)) = Some (int (4 * m))" using len(3) by simp
    have half: "2 * int k sdiv 2 = int k" for k using halves(2) [of k] by simp
    show ?thesis unfolding ReadYUV420File_def n(1) ck Let_def using p(1) len
      by (simp add: n s fread_to_def halves half nat_mult_distrib)
  qed
  ultimately show ?thesis using p(2) unfolding m_def by blast
qed

section \<open>A flip is undone by the same flip\<close>

text \<open>The place that the pixel at \<open>k\<close> of a plane comes from.\<close>

definition flipped :: "nat \<Rightarrow> nat \<Rightarrow> bool \<Rightarrow> bool \<Rightarrow> nat \<Rightarrow> nat" where
  "flipped W H flip mirror k =
     (let i = k div W; j = k mod W in (if mirror then H - 1 - i else i) * W + (if flip then W - 1 - j else j))"

lemma flipped_flipped:
  assumes "k < W * H"
  shows "flipped W H f m k < W * H \<and> flipped W H f m (flipped W H f m k) = k"
proof -
  obtain i j where k: "i < H" "j < W" "k = i * W + j" using pixel_of [OF assms] by blast
  define i' j' where "i' = (if m then H - 1 - i else i)" and "j' = (if f then W - 1 - j else j)"
  have b: "i' < H" "j' < W" using k by (auto simp: i'_def j'_def)
  have e: "flipped W H f m (i * W + j) = i' * W + j'" using k(2) by (simp add: flipped_def Let_def i'_def j'_def)
  have "flipped W H f m (i' * W + j') = i * W + j"
    using k(1,2) b(2) by (simp add: flipped_def Let_def) (auto simp: i'_def j'_def)
  then show ?thesis using pixel_index [OF b] unfolding k(3) e by simp
qed

lemma plane_flipped:
  assumes "\<And>i. i < H \<Longrightarrow> row i = i * W" and "p + W * H \<le> length src" and "length out = length src"
  shows "\<exists>q. flip_plane p row W H f m src out = Some q \<and> length q = length src \<and>
    (\<forall>k<W * H. q ! (p + k) = src ! (p + flipped W H f m k)) \<and> (\<forall>n. (\<forall>k<W * H. n \<noteq> p + k) \<longrightarrow> q ! n = out ! n)"
proof -
  let ?f = "\<lambda>(i, j) out. (let jj = (if f then W - 1 - j else j); ii = (if m then H - 1 - i else i)
        in do { v \<leftarrow> aget src (p + (row ii + jj)); aput (p + (row i + j)) v out })"
  let ?K = "\<lambda>k d. p + k" and ?V = "\<lambda>k d. src ! (p + flipped W H f m k)"
  have step: "(\<lambda>(k, r, c). ?f (r, c)) (r * W + c, r, c) out = Some (updates (?K (r * W + c)) (?V (r * W + c)) [()] out)"
    if "r < H" "c < W" "length out = length src" for r c out
  proof -
    define k where "k = r * W + c"
    have k: "k < W * H" using pixel_index [OF that(1,2)] by (simp add: k_def)
    have "(if m then H - 1 - r else r) * W + (if f then W - 1 - c else c) = flipped W H f m k"
      using that(2) by (simp add: flipped_def Let_def k_def)
    moreover have "(if m then H - 1 - r else r) < H" using that(1) by auto
    ultimately have "row (if m then H - 1 - r else r) + (if f then W - 1 - c else c) = flipped W H f m k" "row r + c = k"
      using assms(1) that(1) by (simp_all only: k_def)
    then show ?thesis using flipped_flipped [OF k, of f m] assms(2) that(3) k unfolding prod.case Let_def
      by (simp add: aget_in aput_in k_def)
  qed
  note rounds_stored [of H W "length src" "\<lambda>(k, r, c). ?f (r, c)" ?K ?V "[()]" out, OF step assms(3)]
  moreover have "flip_plane p row W H f m src out = foreach (\<lambda>(k, r, c). ?f (r, c)) (List.enumerate 0 (pixels W H)) out"
    unfolding flip_plane_def enumerate_pixels foreach_map
    by (rule arg_cong [of _ _ "\<lambda>f. foreach f _ _"]) (simp add: fun_eq_iff)
  ultimately show ?thesis using assms(2) by simp
qed

lemma image_flipped:
  assumes "length src = 6 * (a * b)" and "length out = 6 * (a * b)" and "4 * (a * b) < 2 ^ 31"
  shows "\<exists>q. ImageYUV420_flip src (int (2 * a)) (int (2 * b)) out f g = Some q \<and> length q = 6 * (a * b) \<and>
    (\<forall>k<4 * (a * b). q ! k = src ! flipped (2 * a) (2 * b) (f = 1) (g = 1) k) \<and>
    (\<forall>k<a * b. q ! (4 * (a * b) + k) = src ! (4 * (a * b) + flipped a b (f = 1) (g = 1) k) \<and>
      q ! (5 * (a * b) + k) = src ! (5 * (a * b) + flipped a b (f = 1) (g = 1) k))"
proof -
  define m where "m = a * b"
  have len: "length src = 6 * m" "length out = 6 * m" "4 * m < 2 ^ 31" "2 * a * (2 * b) = 4 * m" using assms by (simp_all add: m_def)
  let ?F = "f = 1" and ?G = "g = 1"
  obtain x where x: "flip_plane 0 (\<lambda>i. i * (2 * a)) (2 * a) (2 * b) ?F ?G src out = Some x" "length x = 6 * m"
      "\<forall>k<4 * m. x ! k = src ! flipped (2 * a) (2 * b) ?F ?G k"
    using plane_flipped [of "2 * b" "\<lambda>i. i * (2 * a)" "2 * a" 0 src out ?F ?G] len by auto
  have row: "i * (2 * a) div 2 = i * a" for i by simp
  obtain y where y: "flip_plane (4 * m) (\<lambda>i. i * (2 * a) div 2) a b ?F ?G src x = Some y" "length y = 6 * m"
      "\<forall>k<m. y ! (4 * m + k) = src ! (4 * m + flipped a b ?F ?G k)" "\<forall>n. (\<forall>k<m. n \<noteq> 4 * m + k) \<longrightarrow> y ! n = x ! n"
    using plane_flipped [of b "\<lambda>i. i * (2 * a) div 2" a "4 * m" src x ?F ?G] len x(2) row unfolding m_def by auto
  obtain z where z: "flip_plane (5 * m) (\<lambda>i. i * (2 * a) div 2) a b ?F ?G src y = Some z" "length z = 6 * m"
      "\<forall>k<m. z ! (5 * m + k) = src ! (5 * m + flipped a b ?F ?G k)" "\<forall>n. (\<forall>k<m. n \<noteq> 5 * m + k) \<longrightarrow> z ! n = y ! n"
    using plane_flipped [of b "\<lambda>i. i * (2 * a) div 2" a "5 * m" src y ?F ?G] len y(2) row unfolding m_def by auto
  have "z ! k = src ! flipped (2 * a) (2 * b) ?F ?G k" if "k < 4 * m" for k using x(3) y(4) z(4) that by simp
  moreover have "z ! (4 * m + k) = src ! (4 * m + flipped a b ?F ?G k)" if "k < m" for k using y(3) z(4) that by simp
  moreover have "ImageYUV420_flip src (int (2 * a)) (int (2 * b)) out f g = Some z"
  proof -
    have n: "int (2 * a) * int (2 * b) = int (4 * m)" "nat (int (2 * a)) = 2 * a" "nat (int (2 * b)) = 2 * b" by (simp_all add: m_def)
    have ck: "ckd (int (4 * m)) = Some (int (4 * m))" using len(3) by simp
    have v: "nat (int (4 * m)) = 4 * m" "nat (int (4 * m) sdiv 4) = m" "4 * m + m = 5 * m" using halves(3) [of m] by simp_all
    show ?thesis unfolding ImageYUV420_flip_def n ck Let_def halves Option.bind.simps v nat_int using x(1) y(1) z(1) by simp
  qed
  ultimately show ?thesis using z(2,3) unfolding m_def by blast
qed

text \<open>A picture of even size that is flipped and mirrored twice is the picture.\<close>

lemma flip_twice:
  assumes "length src = 6 * (a * b)" and "length out = 6 * (a * b)" and "4 * (a * b) < 2 ^ 31"
  shows "Option.bind (ImageYUV420_flip src (int (2 * a)) (int (2 * b)) out f g)
      (\<lambda>q. ImageYUV420_flip q (int (2 * a)) (int (2 * b)) out f g) = Some src"
proof -
  define m where "m = a * b"
  let ?t = "flipped (2 * a) (2 * b) (f = 1) (g = 1)" and ?u = "flipped a b (f = 1) (g = 1)"
  obtain q where q: "ImageYUV420_flip src (int (2 * a)) (int (2 * b)) out f g = Some q" "length q = 6 * m"
      "\<forall>k<4 * m. q ! k = src ! ?t k" "\<forall>k<m. q ! (4 * m + k) = src ! (4 * m + ?u k) \<and> q ! (5 * m + k) = src ! (5 * m + ?u k)"
    using image_flipped [OF assms, of f g] unfolding m_def by blast
  obtain z where z: "ImageYUV420_flip q (int (2 * a)) (int (2 * b)) out f g = Some z" "length z = 6 * m"
      "\<forall>k<4 * m. z ! k = q ! ?t k" "\<forall>k<m. z ! (4 * m + k) = q ! (4 * m + ?u k) \<and> z ! (5 * m + k) = q ! (5 * m + ?u k)"
    using image_flipped [OF _ assms(2,3), of q f g] q(2) unfolding m_def by blast
  have t: "?t k < 4 * m \<and> ?t (?t k) = k" if "k < 4 * m" for k
    using flipped_flipped [of k "2 * a" "2 * b"] that by (simp add: m_def mult_ac)
  have u: "?u k < m \<and> ?u (?u k) = k" if "k < m" for k using flipped_flipped [of k a b] that by (simp add: m_def)
  have "z = src"
  proof (rule nth_equalityI)
    fix n
    assume "n < length z"
    then have "n < 4 * m \<or> (\<exists>k<m. n = 4 * m + k \<or> n = 5 * m + k)" using z(2) by presburger
    then show "z ! n = src ! n" using q(3,4) z(3,4) t u by auto
  qed (simp add: z(2) assms(1) m_def)
  then show ?thesis using q(1) z(1) by simp
qed

end
