(* ===== verification/Systest_Main.thy ===== *)
theory Systest_Main
  imports Vdsp_Prelude
begin

text \<open>
  The driver of the system tests (systest-cases/main.cpp and assist.cpp): loading the assist library, and the
  end of a test, where the main thread waits for flags that the test threads set. The depth and bokeh test
  (case 0) passes its threads pointers into its own frame and returns; so does the hdr test (case 1). The image
  processing that the threads call, and the reading of the command line, are left out.
\<close>

section \<open>The assist library\<close>

definition CAMALG_ASSIST_LIB :: string where "CAMALG_ASSIST_LIB = ''libsprdcamalgassist.so''"

text \<open>The functions that are looked up, in this order; each goes to the field of its name.\<close>

definition assist_symbols :: "string list" where
  "assist_symbols =
     [''sprd_caa_vdsp_Send'', ''sprd_caa_ionmem_alloc'', ''sprd_caa_ionmem_free'', ''sprd_caa_ionmem_get_vaddr'',
      ''sprd_caa_ionmem_get_fd'', ''ProcessState_initWithDriver'', ''ProcessState_startThreadPool'',
      ''IPCThreadState_joinThreadPool'', ''IPCThreadState_stopProcess'']"

record camalg_assist_lib_api =
  dl_handle :: nat
  api_fun :: "string \<Rightarrow> nat"

datatype dl_call = Dlopen string | Dlsym nat string | Dlclose nat

text \<open>\<open>dlopen\<close> and \<open>dlsym\<close> are the results of the loader, 0 for null; the calls that were made are returned.\<close>

fun load_symbols ::
    "(nat \<Rightarrow> string \<Rightarrow> nat) \<Rightarrow> string list \<Rightarrow> camalg_assist_lib_api \<Rightarrow> int \<times> camalg_assist_lib_api \<times> dl_call list" where
  "load_symbols dlsym [] libapi = (0, libapi, [])"
| "load_symbols dlsym (sy # sys) libapi =
     (let h = dl_handle libapi; p = dlsym h sy; libapi = libapi\<lparr>api_fun := (api_fun libapi)(sy := p)\<rparr>
      in if p = 0 then (1, libapi, [Dlsym h sy, Dlclose h])
         else let (ret, libapi, calls) = load_symbols dlsym sys libapi in (ret, libapi, Dlsym h sy # calls))"

definition sprd_depth_load_api ::
    "(string \<Rightarrow> nat) \<Rightarrow> (nat \<Rightarrow> string \<Rightarrow> nat) \<Rightarrow> camalg_assist_lib_api \<Rightarrow> int \<times> camalg_assist_lib_api \<times> dl_call list" where
  "sprd_depth_load_api dlopen dlsym libapi =
     (let h = dlopen CAMALG_ASSIST_LIB; libapi = libapi\<lparr>dl_handle := h\<rparr>
      in if h = 0 then (1, libapi, [Dlopen CAMALG_ASSIST_LIB])
         else let (ret, libapi, calls) = load_symbols dlsym assist_symbols libapi
              in (ret, libapi, Dlopen CAMALG_ASSIST_LIB # calls))"

section \<open>Threads and flags\<close>

text \<open>Where the main thread is, named by what it does next, and a test thread.\<close>

datatype main_pc = Start | Set_Ends | Make_Depth | Make_Bokeh | Make_Hdr | Return | Wait_Ends | Wait_Flag | Exited

datatype test_thread = Absent | Starting | Looping nat | Closing | Finished

record config =
  caseid :: int
  loopNum_depth :: int
  loopNum_bokeh :: int

text \<open>\<open>st_frame\<close> says that the frame of the test function exists, \<open>st_stale\<close> that a thread has used its arguments
  after the frame was gone.\<close>

record systest =
  st_main :: main_pc
  st_depth :: test_thread
  st_bokeh :: test_thread
  st_hdr :: test_thread
  depth_end :: int
  bokeh_end :: int
  end_flag :: int
  st_frame :: bool
  st_stale :: bool

definition set_testend_flag :: "int \<Rightarrow> systest \<Rightarrow> systest" where
  "set_testend_flag flag s = s\<lparr>end_flag := flag\<rparr>"

definition init_testend_flag :: "systest \<Rightarrow> systest" where
  "init_testend_flag s = s\<lparr>end_flag := 0\<rparr>"

definition get_testend_flag :: "systest \<Rightarrow> int" where
  "get_testend_flag s = end_flag s"

text \<open>A step of the main thread; \<open>created\<close> says whether \<open>pthread_create\<close> makes the thread.\<close>

definition main_section :: "config \<Rightarrow> bool \<Rightarrow> systest \<Rightarrow> systest" where
  "main_section C created s =
     (case st_main s of
        Start \<Rightarrow>
          let s = set_testend_flag 0 s
          in if caseid C = 0 then s\<lparr>st_main := Set_Ends, st_frame := True\<rparr>
             else if caseid C = 1 then s\<lparr>st_main := Make_Hdr, st_frame := True\<rparr>
             else s\<lparr>st_main := Wait_Flag\<rparr>
      | Set_Ends \<Rightarrow> s\<lparr>st_main := Make_Depth, bokeh_end := 1, depth_end := 1\<rparr>
      | Make_Depth \<Rightarrow>
          let s = (if loopNum_depth C \<noteq> 0 then s\<lparr>depth_end := 0, st_depth := if created then Starting else Absent\<rparr> else s)
          in s\<lparr>st_main := Make_Bokeh\<rparr>
      | Make_Bokeh \<Rightarrow>
          let s = (if loopNum_bokeh C \<noteq> 0 then s\<lparr>bokeh_end := 0, st_bokeh := if created then Starting else Absent\<rparr> else s)
          in s\<lparr>st_main := Return\<rparr>
      | Make_Hdr \<Rightarrow> s\<lparr>st_main := Return, st_hdr := if created then Starting else Absent\<rparr>
      | Return \<Rightarrow> s\<lparr>st_main := if caseid C = 0 then Wait_Ends else Wait_Flag, st_frame := False\<rparr>
      | Wait_Ends \<Rightarrow>
          if depth_end s \<noteq> 0 \<and> bokeh_end s \<noteq> 0 then (set_testend_flag 1 s)\<lparr>st_main := Wait_Flag\<rparr> else s
      | Wait_Flag \<Rightarrow> if get_testend_flag s \<noteq> 0 then s\<lparr>st_main := Exited\<rparr> else s
      | Exited \<Rightarrow> s)"

definition use_args :: "systest \<Rightarrow> systest" where
  "use_args s = s\<lparr>st_stale := st_stale s \<or> \<not> st_frame s\<rparr>"

text \<open>Steps of the test threads. \<open>handle\<close> says whether \<open>sprd_depth_vdsp_Init\<close> gives a handle.\<close>

definition vdsp_main_depth :: "config \<Rightarrow> bool \<Rightarrow> systest \<Rightarrow> systest" where
  "vdsp_main_depth C handle s =
     (case st_depth s of
        Starting \<Rightarrow> (use_args s)\<lparr>st_depth := if handle then Looping (nat (loopNum_depth C)) else Closing\<rparr>
      | Looping (Suc n) \<Rightarrow> (use_args s)\<lparr>st_depth := Looping n\<rparr>
      | Looping 0 \<Rightarrow> (use_args s)\<lparr>st_depth := Closing\<rparr>
      | Closing \<Rightarrow> s\<lparr>st_depth := Finished, depth_end := 1\<rparr>
      | _ \<Rightarrow> s)"

definition vdsp_main_bokeh :: "config \<Rightarrow> systest \<Rightarrow> systest" where
  "vdsp_main_bokeh C s =
     (case st_bokeh s of
        Starting \<Rightarrow> (use_args s)\<lparr>st_bokeh := Looping (nat (loopNum_bokeh C))\<rparr>
      | Looping (Suc n) \<Rightarrow> (use_args s)\<lparr>st_bokeh := Looping n\<rparr>
      | Looping 0 \<Rightarrow> (use_args s)\<lparr>st_bokeh := Closing\<rparr>
      | Closing \<Rightarrow> s\<lparr>st_bokeh := Finished, bokeh_end := 1\<rparr>
      | _ \<Rightarrow> s)"

definition vdsp_main :: "systest \<Rightarrow> systest" where
  "vdsp_main s =
     (case st_hdr s of
        Starting \<Rightarrow> (use_args s)\<lparr>st_hdr := Closing\<rparr>
      | Closing \<Rightarrow> (set_testend_flag 1 s)\<lparr>st_hdr := Finished\<rparr>
      | _ \<Rightarrow> s)"

text \<open>The threads take turns, until the main thread has left, which ends the process. The flags are plain integers in
  the code; each read and write of one is taken to be atomic and to be seen at once.\<close>

inductive systest_step :: "config \<Rightarrow> systest \<Rightarrow> systest \<Rightarrow> bool" for C where
  main_runs: "st_main s \<noteq> Exited \<Longrightarrow> systest_step C s (main_section C created s)"
| depth_runs: "st_main s \<noteq> Exited \<Longrightarrow> systest_step C s (vdsp_main_depth C handle s)"
| bokeh_runs: "st_main s \<noteq> Exited \<Longrightarrow> systest_step C s (vdsp_main_bokeh C s)"
| hdr_runs: "st_main s \<noteq> Exited \<Longrightarrow> systest_step C s (vdsp_main s)"

definition systest_init :: systest where
  "systest_init =
     \<lparr>st_main = Start, st_depth = Absent, st_bokeh = Absent, st_hdr = Absent, depth_end = 0, bokeh_end = 0, end_flag = 0,
      st_frame = False, st_stale = False\<rparr>"

definition systest_start :: "systest \<Rightarrow> bool" where
  "systest_start s \<longleftrightarrow> s = systest_init"

section \<open>Loading\<close>

text \<open>Loading gives 0 exactly when every function is found; only then the library stays open.\<close>

lemma symbols_loaded:
  "fst (load_symbols dlsym sys a) = (if \<exists>sy\<in>set sys. dlsym (dl_handle a) sy = 0 then 1 else 0) \<and>
   dl_handle (fst (snd (load_symbols dlsym sys a))) = dl_handle a \<and>
   count_list (snd (snd (load_symbols dlsym sys a))) (Dlclose (dl_handle a)) =
     (if \<exists>sy\<in>set sys. dlsym (dl_handle a) sy = 0 then 1 else 0)"
proof (induction sys arbitrary: a)
  case (Cons sy sys)
  show ?case using Cons.IH [of "a\<lparr>api_fun := (api_fun a)(sy := dlsym (dl_handle a) sy)\<rparr>"]
    by (simp add: Let_def case_prod_unfold)
qed simp

lemma api_loaded:
  assumes "dlopen CAMALG_ASSIST_LIB = h" and "sprd_depth_load_api dlopen dlsym a = (ret, b, calls)"
  shows "ret = 0 \<longleftrightarrow> h \<noteq> 0 \<and> (\<forall>sy\<in>set assist_symbols. dlsym h sy \<noteq> 0)"
    and "h \<noteq> 0 \<Longrightarrow> count_list calls (Dlclose h) = (if ret = 0 then 0 else 1)"
  using symbols_loaded [of dlsym assist_symbols "a\<lparr>dl_handle := h\<rparr>"] assms
  by (auto simp: sprd_depth_load_api_def Let_def case_prod_unfold split: if_splits)

section \<open>The end of a test\<close>

text \<open>A flag that says a thread has ended is true, and the flag that ends the process is set only in the two tests,
  by who may set it.\<close>

definition systest_inv :: "config \<Rightarrow> systest \<Rightarrow> bool" where
  "systest_inv C s \<longleftrightarrow>
     (depth_end s \<noteq> 0 \<longrightarrow> st_depth s = Absent \<or> st_depth s = Finished) \<and>
     (bokeh_end s \<noteq> 0 \<longrightarrow> st_bokeh s = Absent \<or> st_bokeh s = Finished) \<and>
     (caseid C \<noteq> 0 \<longrightarrow> st_depth s = Absent \<and> st_bokeh s = Absent \<and> st_main s \<notin> {Set_Ends, Make_Depth, Make_Bokeh, Wait_Ends}) \<and>
     (caseid C \<noteq> 1 \<longrightarrow> st_hdr s = Absent \<and> st_main s \<noteq> Make_Hdr) \<and>
     (caseid C \<noteq> 0 \<and> caseid C \<noteq> 1 \<longrightarrow> st_main s \<noteq> Return) \<and>
     (st_main s \<in> {Start, Set_Ends, Make_Depth} \<longrightarrow> st_depth s = Absent \<and> st_bokeh s = Absent) \<and>
     (st_main s = Make_Bokeh \<longrightarrow> st_bokeh s = Absent) \<and>
     (st_main s \<in> {Start, Make_Hdr} \<longrightarrow> st_hdr s = Absent) \<and>
     (end_flag s \<noteq> 0 \<longrightarrow>
        (caseid C = 0 \<and> depth_end s \<noteq> 0 \<and> bokeh_end s \<noteq> 0 \<and> st_main s \<in> {Wait_Flag, Exited}) \<or>
        (caseid C = 1 \<and> st_hdr s = Finished)) \<and>
     (st_main s = Exited \<longrightarrow> end_flag s \<noteq> 0)"

lemmas flags_def = set_testend_flag_def get_testend_flag_def use_args_def

lemma main_section_inv: "systest_inv C s \<Longrightarrow> systest_inv C (main_section C created s)"
  by (cases "st_main s") (simp_all add: systest_inv_def main_section_def flags_def Let_def, auto)

lemma depth_inv: "systest_inv C s \<Longrightarrow> systest_inv C (vdsp_main_depth C handle s)"
  by (cases "st_depth s"; cases "end_flag s = 0") (simp_all add: systest_inv_def vdsp_main_depth_def flags_def split: nat.split, (elim conjE, simp)+)

lemma bokeh_inv: "systest_inv C s \<Longrightarrow> systest_inv C (vdsp_main_bokeh C s)"
  by (cases "st_bokeh s"; cases "end_flag s = 0") (simp_all add: systest_inv_def vdsp_main_bokeh_def flags_def split: nat.split, (elim conjE, simp)+)

lemma hdr_inv: "systest_inv C s \<Longrightarrow> systest_inv C (vdsp_main s)"
  by (cases "st_hdr s"; cases "end_flag s = 0") (simp_all add: systest_inv_def vdsp_main_def flags_def)

interpretation systests: transition_system systest_start "systest_step C" "systest_inv C" for C
proof unfold_locales
  show "systest_inv C s" if "systest_start s" for s
    using that by (simp add: systest_start_def systest_init_def systest_inv_def)
  show "systest_inv C t" if "systest_inv C s" "systest_step C s t" for s t
    using that(2,1) by (cases rule: systest_step.cases) (auto intro: main_section_inv depth_inv bokeh_inv hdr_inv)
qed


text \<open>Runs of the program.\<close>

lemma reach_main: "reach systest_start (systest_step C) s \<Longrightarrow> st_main s \<noteq> Exited \<Longrightarrow> main_section C created s = t \<Longrightarrow>
    reach systest_start (systest_step C) t"
  by (metis reach_step main_runs)

lemma reach_depth: "reach systest_start (systest_step C) s \<Longrightarrow> st_main s \<noteq> Exited \<Longrightarrow> vdsp_main_depth C handle s = t \<Longrightarrow>
    reach systest_start (systest_step C) t"
  by (metis reach_step depth_runs)

lemma reach_hdr: "reach systest_start (systest_step C) s \<Longrightarrow> st_main s \<noteq> Exited \<Longrightarrow> vdsp_main s = t \<Longrightarrow>
    reach systest_start (systest_step C) t"
  by (metis reach_step hdr_runs)

lemma reach_start: "reach systest_start (systest_step C) systest_init"
  by (simp add: reach_init systest_start_def)

definition hdr_returned :: systest where
  "hdr_returned = systest_init\<lparr>st_main := Wait_Flag, st_hdr := Starting\<rparr>"

lemma reach_hdr_returned: "caseid C = 1 \<Longrightarrow> reach systest_start (systest_step C) hdr_returned"
proof -
  assume C: "caseid C = 1"
  have "reach systest_start (systest_step C) (systest_init\<lparr>st_main := Make_Hdr, st_frame := True\<rparr>)"
    by (rule reach_main [OF reach_start, where created = True]) (simp_all add: C main_section_def flags_def systest_init_def)
  then have "reach systest_start (systest_step C) (systest_init\<lparr>st_main := Return, st_frame := True, st_hdr := Starting\<rparr>)"
    by (rule reach_main [where created = True]) (simp_all add: C main_section_def systest_init_def)
  then show ?thesis
    by (rule reach_main [where created = True]) (simp_all add: C main_section_def systest_init_def hdr_returned_def)
qed


text \<open>Property C40: in either test a thread can use its arguments after the function whose variables they point to has
  returned.\<close>

theorem stale_arguments:
  assumes "caseid C = 1 \<or> caseid C = 0 \<and> loopNum_depth C \<noteq> 0"
  shows "\<exists>s. reach systest_start (systest_step C) s \<and> st_stale s"
proof (cases "caseid C = 1")
  case True
  have "reach systest_start (systest_step C) (hdr_returned\<lparr>st_hdr := Closing, st_stale := True\<rparr>)"
    by (rule reach_hdr [OF reach_hdr_returned [OF True]]) (simp_all add: vdsp_main_def flags_def hdr_returned_def systest_init_def)
  then show ?thesis by (intro exI conjI) (assumption, simp)
next
  case False
  then have C: "caseid C = 0" "loopNum_depth C \<noteq> 0" using assms by simp_all
  let ?b = "if loopNum_bokeh C \<noteq> 0 then 0 else 1 :: int"
  let ?s = "systest_init\<lparr>st_main := Wait_Ends, st_depth := Starting, bokeh_end := ?b\<rparr>"
  have "reach systest_start (systest_step C) (systest_init\<lparr>st_main := Set_Ends, st_frame := True\<rparr>)"
    by (rule reach_main [OF reach_start, where created = True]) (simp_all add: C main_section_def flags_def systest_init_def)
  then have "reach systest_start (systest_step C) (systest_init\<lparr>st_main := Make_Depth, st_frame := True, bokeh_end := 1, depth_end := 1\<rparr>)"
    by (rule reach_main [where created = True]) (simp_all add: main_section_def systest_init_def)
  then have "reach systest_start (systest_step C) (systest_init\<lparr>st_main := Make_Bokeh, st_frame := True, bokeh_end := 1, st_depth := Starting\<rparr>)"
    by (rule reach_main [where created = True]) (simp_all add: C main_section_def systest_init_def)
  then have "reach systest_start (systest_step C) (systest_init\<lparr>st_main := Return, st_frame := True, bokeh_end := ?b, st_depth := Starting\<rparr>)"
    by (rule reach_main [where created = False]) (simp_all add: main_section_def systest_init_def)
  then have "reach systest_start (systest_step C) ?s"
    by (rule reach_main [where created = True]) (simp_all add: C main_section_def systest_init_def)
  then have "reach systest_start (systest_step C) (?s\<lparr>st_depth := Closing, st_stale := True\<rparr>)"
    by (rule reach_depth [where handle = False]) (simp_all add: vdsp_main_depth_def flags_def systest_init_def)
  then show ?thesis by (intro exI conjI) (assumption, simp)
qed

theorem stale_arguments_witness:
  "\<exists>s. reach systest_start (systest_step \<lparr>caseid = 0, loopNum_depth = 1, loopNum_bokeh = 0\<rparr>) s \<and> st_stale s"
  by (rule stale_arguments) simp

end
